(* ===== verification/Wolfee_Prelude.thy ===== *)
theory Wolfee_Prelude
  imports Main "HOL-Library.Char_ord" "HOL-Library.List_Lexorder" "HOL-Library.Sublist"
begin

section \<open>Prelude: shared types, collections and list lemmas\<close>

text \<open>
  What the component theories share. Times and durations are integers: a time is the number of
  nanoseconds since Go's zero time, so that \<^verbatim>\<open>t.IsZero()\<close> is \<open>t = 0\<close>,
  \<^verbatim>\<open>a.Before(b)\<close> is \<open>a < b\<close> and \<^verbatim>\<open>t.Add(d)\<close> is \<open>t + d\<close>; a duration is a
  number of nanoseconds. Go strings are byte sequences, here \<^typ>\<open>string\<close>, a list of 8-bit
  characters ordered lexicographically, which is Go's \<^verbatim>\<open><\<close> on strings.
  The theory also holds the rule collections of the development and the generic facts on lists
  (first match, suffix bounded buffers, sums of sizes) that several components use.
\<close>

named_theorems go_simps \<open>evaluation rules for the models of Go library functions\<close>
named_theorems accounting \<open>how the operations change a size or a counter\<close>
named_theorems inv_intros \<open>preservation of a component's invariant by its operations\<close>

type_synonym gotime = int
type_synonym duration = int


abbreviation (input) second :: duration where "second \<equiv> 1000000000"
abbreviation (input) minute :: duration where "minute \<equiv> 60 * second"
abbreviation (input) hour :: duration where "hour \<equiv> 60 * minute"

abbreviation (input) is_zero :: "gotime \<Rightarrow> bool" where "is_zero t \<equiv> t = 0"

text \<open>Error results: \<open>Inl\<close> is the error, \<open>Inr\<close> the value.\<close>

fun is_ok :: "'e + 'a \<Rightarrow> bool" where
  "is_ok (Inl _) = False"
| "is_ok (Inr _) = True"

lemma is_ok_iff: "is_ok r \<longleftrightarrow> (\<exists>v. r = Inr v)"
  by (cases r) auto

subsection \<open>The last elements of a list\<close>

text \<open>Go's \<^verbatim>\<open>buf[len(buf)-n:]\<close> guarded by \<^verbatim>\<open>len(buf) > n\<close>.\<close>

definition take_last :: "nat \<Rightarrow> 'a list \<Rightarrow> 'a list" where
  "take_last n xs = drop (length xs - n) xs"

lemma length_take_last [simp]: "length (take_last n xs) = min n (length xs)"
  by (simp add: take_last_def)

lemma suffix_take_last: "suffix (take_last n xs) xs"
  by (simp add: take_last_def suffix_drop)

lemma take_last_all: "length xs \<le> n \<Longrightarrow> take_last n xs = xs"
  by (simp add: take_last_def)

lemma last_in_take_last: "0 < n \<Longrightarrow> x \<in> set (take_last n (xs @ [x]))"
  by (cases n) (simp_all add: take_last_def)

lemma set_take_last_subset: "set (take_last n xs) \<subseteq> set xs"
  by (simp add: take_last_def set_drop_subset)

lemma take_last_keeps: "length post < n \<Longrightarrow> \<exists>pre'. take_last n (pre @ e # post) = pre' @ e # post"
  by (intro exI [of _ "drop (length pre + Suc (length post) - n) pre"]) (simp add: take_last_def)

lemma dropWhile_keeps: "\<not> P e \<Longrightarrow> \<exists>pre'. dropWhile P (pre @ e # post) = pre' @ e # post"
  by (induction pre) auto

subsection \<open>First match\<close>

lemma find_SomeD: "List.find P xs = Some b \<Longrightarrow> P b \<and> b \<in> set xs"
  by (induction xs) (auto split: if_splits)

lemma find_distinct_key:
  "distinct (map k xs) \<Longrightarrow> List.find (\<lambda>x. k x = i) xs = Some b \<longleftrightarrow> b \<in> set xs \<and> k b = i"
  by (induction xs) (auto simp: rev_image_eqI)

lemma find_append:
  "List.find P (xs @ ys) = (case List.find P xs of None \<Rightarrow> List.find P ys | Some x \<Rightarrow> Some x)"
  by (induction xs) auto

lemma find_rev_append:
  assumes "\<exists>x\<in>set ys. P x"
  shows "List.find P (rev (xs @ ys)) = List.find P (rev ys)"
  using assms by (auto simp: find_append find_None_iff split: option.splits)

subsection \<open>Sums\<close>

lemma sum_list_map_filter_le:
  fixes f :: "'a \<Rightarrow> nat"
  shows "sum_list (map f (filter P xs)) \<le> sum_list (map f xs)"
  by (induction xs) auto

lemma sum_list_nonneg_int:
  fixes f :: "'a \<Rightarrow> int"
  shows "(\<And>x. x \<in> set xs \<Longrightarrow> 0 \<le> f x) \<Longrightarrow> 0 \<le> sum_list (map f xs)"
  by (induction xs) auto

end
