(* ===== verification/Go_Strings.thy ===== *)
theory Go_Strings
  imports Wolfee_Prelude
begin

section \<open>The Go string library as the sources use it\<close>

text \<open>
  Models of the functions of \<^verbatim>\<open>strings\<close> and \<^verbatim>\<open>strconv\<close> that the components call. A string is
  a list of bytes. \<^verbatim>\<open>strings.ToLower\<close>, \<^verbatim>\<open>strings.ToUpper\<close> and \<^verbatim>\<open>strings.TrimSpace\<close> are modelled on
  ASCII: bytes from 128 on are left alone, where Go maps the Unicode letters and spaces they
  may encode. Separators are single bytes, as in every call of the sources.
\<close>

subsection \<open>Prefixes, suffixes and substrings\<close>

definition has_prefix :: "string \<Rightarrow> string \<Rightarrow> bool" where
  "has_prefix s p = prefix p s"

definition has_suffix :: "string \<Rightarrow> string \<Rightarrow> bool" where
  "has_suffix s p = suffix p s"

fun index_of :: "string \<Rightarrow> string \<Rightarrow> nat option" where
  "index_of [] p = (if p = [] then Some 0 else None)"
| "index_of (c # s) p = (if prefix p (c # s) then Some 0 else map_option Suc (index_of s p))"

definition contains :: "string \<Rightarrow> string \<Rightarrow> bool" where
  "contains s p = (index_of s p \<noteq> None)"

text \<open>\<^verbatim>\<open>strings.TrimSuffix\<close>.\<close>

definition trim_suffix :: "string \<Rightarrow> string \<Rightarrow> string" where
  "trim_suffix s p = (if has_suffix s p then take (length s - length p) s else s)"

lemma index_of_SomeD:
  "index_of s p = Some i \<Longrightarrow> \<exists>u v. s = u @ p @ v \<and> length u = i"
proof (induction s p arbitrary: i rule: index_of.induct)
  case (1 p)
  then show ?case by (auto split: if_splits)
next
  case (2 c s p)
  show ?case
  proof (cases "prefix p (c # s)")
    case True
    with "2.prems" show ?thesis by (auto simp: prefix_def)
  next
    case False
    with "2.prems" obtain j where j: "index_of s p = Some j" "i = Suc j" by auto
    from "2.IH" [OF False j(1)] obtain u v where "s = u @ p @ v" "length u = j" by auto
    with j(2) have "c # s = (c # u) @ p @ v \<and> length (c # u) = i" by simp
    then show ?thesis by blast
  qed
qed

lemma index_of_least:
  "s = u @ p @ v \<Longrightarrow> \<exists>i \<le> length u. index_of s p = Some i"
proof (induction u arbitrary: s)
  case Nil
  then have "prefix p s" by simp
  then show ?case by (cases s) auto
next
  case (Cons c u)
  then obtain s' where s: "s = c # s'" "s' = u @ p @ v" by simp
  from Cons.IH [OF s(2)] obtain i where "i \<le> length u" "index_of s' p = Some i" by blast
  with s(1) show ?case by (cases "prefix p s") auto
qed

lemma contains_iff: "contains s p \<longleftrightarrow> (\<exists>u v. s = u @ p @ v)"
  unfolding contains_def by (metis index_of_SomeD index_of_least not_Some_eq option.distinct(1))

lemma contains_singleton: "contains s [c] \<longleftrightarrow> c \<in> set s"
  by (auto simp: contains_iff in_set_conv_decomp)

lemma contains_refl [simp]: "contains s s"
  unfolding contains_iff by (metis append.left_neutral append.right_neutral)

lemma contains_Nil [simp]: "contains s []"
  unfolding contains_iff by (metis append.left_neutral)

subsection \<open>Splitting and joining\<close>

fun split_char :: "char \<Rightarrow> string \<Rightarrow> string list" where
  "split_char c [] = [[]]"
| "split_char c (x # s) =
     (if x = c then [] # split_char c s
      else (case split_char c s of [] \<Rightarrow> [[x]] | w # ws \<Rightarrow> (x # w) # ws))"

fun join :: "string \<Rightarrow> string list \<Rightarrow> string" where
  "join sep [] = []"
| "join sep [w] = w"
| "join sep (w # ws) = w @ sep @ join sep ws"

lemma split_char_nonempty [simp]: "split_char c s \<noteq> []"
  by (induction s) (auto split: list.splits)

lemma split_char_no_sep: "c \<notin> set s \<Longrightarrow> split_char c s = [s]"
  by (induction s) auto

lemma split_char_pieces: "w \<in> set (split_char c s) \<Longrightarrow> c \<notin> set w"
proof (induction s arbitrary: w)
  case (Cons x s)
  then show ?case by (cases "split_char c s") (auto split: if_splits)
qed simp

lemma join_Cons: "ws \<noteq> [] \<Longrightarrow> join sep (w # ws) = w @ sep @ join sep ws"
  by (cases ws) auto

lemma join_Cons_Cons: "join sep ((x # w) # ws) = x # join sep (w # ws)"
  by (cases ws) auto

lemma join_split_char: "join [c] (split_char c s) = s"
proof (induction s)
  case (Cons x s)
  then show ?case
    by (cases "split_char c s") (auto simp: join_Cons join_Cons_Cons split: if_splits)
qed simp

lemma split_char_append_sep:
  "split_char c (u @ c # v) = split_char c u @ split_char c v"
  by (induction u) (auto split: list.splits)

lemma split_char_join:
  "ws \<noteq> [] \<Longrightarrow> (\<And>w. w \<in> set ws \<Longrightarrow> c \<notin> set w) \<Longrightarrow> split_char c (join [c] ws) = ws"
proof (induction "[c]" ws rule: join.induct)
  case (2 w)
  then show ?case by (simp add: split_char_no_sep)
next
  case (3 w v vs)
  have "split_char c (w @ c # join [c] (v # vs)) = split_char c w @ split_char c (join [c] (v # vs))"
    by (rule split_char_append_sep)
  also have "split_char c w = [w]" using "3.prems" by (simp add: split_char_no_sep)
  also have "split_char c (join [c] (v # vs)) = v # vs" using "3" by simp
  finally show ?case by simp
qed simp

lemma length_split_char_sep: "c \<in> set s \<Longrightarrow> 2 \<le> length (split_char c s)"
proof -
  assume "c \<in> set s"
  then obtain u v where "s = u @ c # v" by (auto simp: in_set_conv_decomp)
  then have "length (split_char c s) = length (split_char c u) + length (split_char c v)"
    by (simp add: split_char_append_sep)
  moreover have "0 < length (split_char c u)" "0 < length (split_char c v)" by simp_all
  ultimately show ?thesis by linarith
qed

text \<open>\<^verbatim>\<open>strings.Cut\<close> on a single-byte separator: before, after, found.\<close>

fun cut :: "char \<Rightarrow> string \<Rightarrow> string \<times> string \<times> bool" where
  "cut c [] = ([], [], False)"
| "cut c (x # s) =
     (if x = c then ([], s, True) else (case cut c s of (a, b, f) \<Rightarrow> (x # a, b, f)))"

subsection \<open>Spaces and letter case\<close>

definition is_space :: "char \<Rightarrow> bool" where
  "is_space c = (let n = (of_char c :: nat) in 9 \<le> n \<and> n \<le> 13 \<or> n = 32)"

definition trim_space :: "string \<Rightarrow> string" where
  "trim_space s = rev (dropWhile is_space (rev (dropWhile is_space s)))"

definition lower_char :: "char \<Rightarrow> char" where
  "lower_char c = (let n = (of_char c :: nat) in if 65 \<le> n \<and> n \<le> 90 then char_of (n + 32) else c)"

definition upper_char :: "char \<Rightarrow> char" where
  "upper_char c = (let n = (of_char c :: nat) in if 97 \<le> n \<and> n \<le> 122 then char_of (n - 32) else c)"

definition to_lower :: "string \<Rightarrow> string" where
  "to_lower s = map lower_char s"

definition to_upper :: "string \<Rightarrow> string" where
  "to_upper s = map upper_char s"

text \<open>\<^verbatim>\<open>strings.ReplaceAll(s, c, r)\<close> for a single byte \<open>c\<close>.\<close>

definition replace_char :: "char \<Rightarrow> string \<Rightarrow> string \<Rightarrow> string" where
  "replace_char c r s = concat (map (\<lambda>x. if x = c then r else [x]) s)"

text \<open>\<^verbatim>\<open>strings.Fields\<close>: the maximal runs of non-space bytes.\<close>

fun fields_acc :: "string \<Rightarrow> string \<Rightarrow> string list" where
  "fields_acc w [] = (if w = [] then [] else [rev w])"
| "fields_acc w (c # s) =
     (if is_space c then (if w = [] then fields_acc [] s else rev w # fields_acc [] s)
      else fields_acc (c # w) s)"

definition fields :: "string \<Rightarrow> string list" where
  "fields s = fields_acc [] s"

lemma of_char_lower_char:
  "(of_char (lower_char c) :: nat) = (let n = of_char c in if 65 \<le> n \<and> n \<le> 90 then n + 32 else n)"
  by (simp add: lower_char_def Let_def of_char_of)

lemma lower_char_idem [simp]: "lower_char (lower_char c) = lower_char c"
  unfolding lower_char_def [of "lower_char c"]
  by (auto simp: of_char_lower_char Let_def split: if_splits)

lemma lower_char_eq_nonletter:
  assumes "(of_char d :: nat) < 65 \<or> 122 < (of_char d :: nat)"
  shows "lower_char c = d \<longleftrightarrow> c = d"
proof
  assume "lower_char c = d"
  then have "(of_char d :: nat) = (let n = of_char c in if 65 \<le> n \<and> n \<le> 90 then n + 32 else n)"
    using of_char_lower_char [of c] by simp
  with assms have "(of_char c :: nat) = of_char d" by (auto simp: Let_def split: if_splits)
  then show "c = d" by (simp add: of_char_eq_iff)
next
  assume "c = d"
  with assms show "lower_char c = d" by (auto simp: lower_char_def Let_def)
qed

lemma lower_char_star [simp]: "lower_char c = CHR ''*'' \<longleftrightarrow> c = CHR ''*''"
  by (rule lower_char_eq_nonletter) simp

lemma lower_char_slash [simp]: "lower_char c = CHR ''/'' \<longleftrightarrow> c = CHR ''/''"
  by (rule lower_char_eq_nonletter) simp

lemma lower_char_comma [simp]: "lower_char c = CHR '','' \<longleftrightarrow> c = CHR '',''"
  by (rule lower_char_eq_nonletter) simp

lemma is_space_lower_char [simp]: "is_space (lower_char c) = is_space c"
  by (simp add: is_space_def of_char_lower_char Let_def)

lemma to_lower_idem [simp]: "to_lower (to_lower s) = to_lower s"
  by (simp add: to_lower_def)

lemma length_to_lower [simp]: "length (to_lower s) = length s"
  by (simp add: to_lower_def)

lemma to_lower_Nil [simp]: "to_lower [] = []"
  by (simp add: to_lower_def)

lemma to_lower_append [simp]: "to_lower (s @ t) = to_lower s @ to_lower t"
  by (simp add: to_lower_def)

lemma to_lower_eq_Nil [simp]: "to_lower s = [] \<longleftrightarrow> s = []"
  by (simp add: to_lower_def)

lemma star_in_to_lower [simp]: "CHR ''*'' \<in> set (to_lower s) \<longleftrightarrow> CHR ''*'' \<in> set s"
  unfolding to_lower_def by (metis imageE image_eqI lower_char_star set_map)

lemma slash_in_to_lower [simp]: "CHR ''/'' \<in> set (to_lower s) \<longleftrightarrow> CHR ''/'' \<in> set s"
  using lower_char_slash by (auto simp: to_lower_def image_iff eq_commute)

lemma has_suffix_eval [go_simps]:
  "has_suffix s p \<longleftrightarrow> length p \<le> length s \<and> drop (length s - length p) s = p"
  by (auto simp: has_suffix_def suffix_def) (metis append_take_drop_id)

lemma to_lower_eq_star [simp]: "to_lower s = ''*'' \<longleftrightarrow> s = ''*''"
  by (cases s) (auto simp: to_lower_def)

lemma to_lower_star [simp]: "to_lower ''*'' = ''*''"
  by (subst to_lower_eq_star) (rule refl)

lemma trim_space_dropWhile: "dropWhile is_space (trim_space s) = trim_space s"
proof -
  have *: "dropWhile is_space (rev (dropWhile is_space (rev t))) = rev (dropWhile is_space (rev t))"
    if "t = [] \<or> \<not> is_space (hd t)" for t
  proof (cases "rev (dropWhile is_space (rev t))")
    case (Cons a as)
    have "suffix (dropWhile is_space (rev t)) (rev t)" by (rule suffix_dropWhile)
    then have "prefix (rev (dropWhile is_space (rev t))) t" by (simp add: suffix_to_prefix)
    with Cons have "t \<noteq> []" "hd t = a" by (auto simp: prefix_def)
    with that Cons show ?thesis by simp
  next
    case Nil
    then show ?thesis by (simp only: dropWhile.simps)
  qed
  have "dropWhile is_space s = [] \<or> \<not> is_space (hd (dropWhile is_space s))"
    using hd_dropWhile [of is_space s] by blast
  then show ?thesis unfolding trim_space_def by (rule *)
qed

lemma trim_space_idem [simp]: "trim_space (trim_space s) = trim_space s"
  unfolding trim_space_def [of "trim_space s"] trim_space_dropWhile
  by (simp add: trim_space_def)

lemma trim_space_Nil [simp]: "trim_space [] = []"
  by (simp add: trim_space_def)

lemma trim_space_subset: "set (trim_space s) \<subseteq> set s"
  unfolding trim_space_def by (auto dest!: set_dropWhileD)

lemma length_trim_space: "length (trim_space s) \<le> length s"
  unfolding trim_space_def
  by (metis length_dropWhile_le length_rev order_trans)

lemma trim_space_to_lower: "trim_space (to_lower s) = to_lower (trim_space s)"
  by (simp add: trim_space_def to_lower_def dropWhile_map rev_map comp_def)

subsection \<open>Numbers\<close>

definition digit_val :: "char \<Rightarrow> nat option" where
  "digit_val c = (let n = (of_char c :: nat) in if 48 \<le> n \<and> n \<le> 57 then Some (n - 48) else None)"

fun digits_val :: "nat \<Rightarrow> string \<Rightarrow> nat option" where
  "digits_val acc [] = Some acc"
| "digits_val acc (c # s) =
     (case digit_val c of None \<Rightarrow> None | Some d \<Rightarrow> digits_val (10 * acc + d) s)"

text \<open>\<^verbatim>\<open>strconv.ParseUint(s, 10, bits)\<close>: \<open>None\<close> for a syntax or a range error.\<close>

definition parse_uint :: "nat \<Rightarrow> string \<Rightarrow> nat option" where
  "parse_uint bits s =
     (if s = [] then None
      else (case digits_val 0 s of None \<Rightarrow> None
            | Some n \<Rightarrow> if n < 2 ^ bits then Some n else None))"

text \<open>\<^verbatim>\<open>strconv.ParseInt(s, 10, 64)\<close>: an optional sign, then digits, within 64 bits.\<close>

definition parse_int64 :: "string \<Rightarrow> int option" where
  "parse_int64 s =
     (let (neg, t) = (case s of c # r \<Rightarrow> (if c = CHR ''-'' then (True, r)
                                          else if c = CHR ''+'' then (False, r) else (False, s))
                      | [] \<Rightarrow> (False, []))
      in (case parse_uint 64 t of None \<Rightarrow> None
          | Some n \<Rightarrow> if neg then (if int n \<le> 2 ^ 63 then Some (- int n) else None)
                      else (if int n < 2 ^ 63 then Some (int n) else None)))"

text \<open>Decimal rendering, \<^verbatim>\<open>%d\<close>.\<close>

definition digit_char :: "nat \<Rightarrow> char" where
  "digit_char d = char_of (48 + d)"

fun nat_str :: "nat \<Rightarrow> string" where
  "nat_str n = (if n < 10 then [digit_char n] else nat_str (n div 10) @ [digit_char (n mod 10)])"

declare nat_str.simps [simp del]

definition int_str :: "int \<Rightarrow> string" where
  "int_str i = (if i < 0 then CHR ''-'' # nat_str (nat (- i)) else nat_str (nat i))"

lemma digit_val_digit_char [simp]: "d < 10 \<Longrightarrow> digit_val (digit_char d) = Some d"
  by (simp add: digit_val_def digit_char_def Let_def of_char_of)

lemma digits_val_append:
  "digits_val a (s @ t) = (case digits_val a s of None \<Rightarrow> None | Some b \<Rightarrow> digits_val b t)"
  by (induction s arbitrary: a) (auto split: option.splits)

lemma digits_val_nat_str: "digits_val 0 (nat_str n) = Some n"
proof (induction n rule: nat_str.induct)
  case (1 n)
  show ?case
  proof (cases "n < 10")
    case True
    then show ?thesis by (simp add: nat_str.simps [of n])
  next
    case False
    with "1" have "digits_val 0 (nat_str (n div 10)) = Some (n div 10)" by simp
    with False show ?thesis by (simp add: nat_str.simps [of n] digits_val_append)
  qed
qed

lemma nat_str_nonempty [simp]: "nat_str n \<noteq> []"
  by (simp add: nat_str.simps [of n])

lemma parse_uint_nat_str: "n < 2 ^ bits \<Longrightarrow> parse_uint bits (nat_str n) = Some n"
  by (simp add: parse_uint_def digits_val_nat_str)

lemma nat_str_inj: "nat_str m = nat_str n \<Longrightarrow> m = n"
  by (metis digits_val_nat_str option.inject)

lemma nat_str_digits: "c \<in> set (nat_str n) \<Longrightarrow> \<exists>d<10. c = digit_char d"
proof (induction n rule: nat_str.induct)
  case (1 n)
  show ?case
  proof (cases "n < 10")
    case True
    with "1.prems" show ?thesis by (auto simp: nat_str.simps [of n])
  next
    case False
    with "1.prems" have "c \<in> set (nat_str (n div 10)) \<or> c = digit_char (n mod 10)"
      by (auto simp: nat_str.simps [of n])
    moreover have "n mod 10 < 10" by simp
    ultimately show ?thesis using "1.IH" [OF False] by blast
  qed
qed

end
