(* ===== verification/Go_Net.thy ===== *)
theory Go_Net
  imports Go_Strings "HOL-Library.Word"
begin

unbundle bit_operations_syntax

section \<open>IP addresses and networks: Go's net package as the sources use it\<close>

text \<open>
  \<^verbatim>\<open>net.ParseIP\<close>, \<^verbatim>\<open>net.ParseCIDR\<close>, \<^verbatim>\<open>IP.To4\<close>, \<^verbatim>\<open>IP.Mask\<close>, \<^verbatim>\<open>net.CIDRMask\<close>, \<^verbatim>\<open>IPMask.Size\<close> and
  \<^verbatim>\<open>IPNet.Contains\<close>, with the parser of \<^verbatim>\<open>net/netip\<close> they rest on: dotted IPv4 without leading
  zeros, IPv6 with one \<^verbatim>\<open>::\<close> and an embedded IPv4 tail. An address is a list of 4 or 16 bytes,
  a nil \<^verbatim>\<open>net.IP\<close> is \<open>None\<close>. A string with a zone (\<^verbatim>\<open>%eth0\<close>) never yields a \<^verbatim>\<open>net.IP\<close>.
\<close>

type_synonym ip = "8 word list"

datatype addr = V4 ip | V6 ip

record ipnet =
  net_IP :: ip
  net_Mask :: ip

definition v4_in_v6_prefix :: ip where
  "v4_in_v6_prefix = replicate 10 0 @ [255, 255]"

fun ipv4_loop :: "char option \<Rightarrow> nat \<Rightarrow> nat \<Rightarrow> ip \<Rightarrow> string \<Rightarrow> ip option" where
  "ipv4_loop prev val digLen acc [] = (if length acc < 3 then None else Some (acc @ [of_nat val]))"
| "ipv4_loop prev val digLen acc (c # s) =
     (case digit_val c of
        Some d \<Rightarrow>
          (if digLen = 1 \<and> val = 0 then None
           else if 255 < 10 * val + d then None
           else ipv4_loop (Some c) (10 * val + d) (Suc digLen) acc s)
      | None \<Rightarrow>
          (if c = CHR ''.'' then
             (if prev = None \<or> s = [] \<or> prev = Some (CHR ''.'') then None
              else if length acc = 3 then None
              else ipv4_loop (Some c) 0 0 (acc @ [of_nat val]) s)
           else None))"

definition parse_ipv4 :: "string \<Rightarrow> ip option" where
  "parse_ipv4 s = ipv4_loop None 0 0 [] s"

definition hex_val :: "char \<Rightarrow> nat option" where
  "hex_val c = (let n = (of_char c :: nat) in
     if 48 \<le> n \<and> n \<le> 57 then Some (n - 48)
     else if 97 \<le> n \<and> n \<le> 102 then Some (n - 87)
     else if 65 \<le> n \<and> n \<le> 70 then Some (n - 55) else None)"

fun scan_hex :: "nat \<Rightarrow> nat \<Rightarrow> string \<Rightarrow> (nat \<times> nat \<times> string) option" where
  "scan_hex off acc [] = Some (off, acc, [])"
| "scan_hex off acc (c # s) =
     (case hex_val c of None \<Rightarrow> Some (off, acc, c # s)
      | Some d \<Rightarrow> if 3 < off then None else if 65535 < 16 * acc + d then None
                  else scan_hex (Suc off) (16 * acc + d) s)"

function ipv6_loop :: "ip \<Rightarrow> nat option \<Rightarrow> string \<Rightarrow> (ip \<times> nat option \<times> string) option" where
  "ipv6_loop acc ell s =
     (if 16 \<le> length acc then Some (acc, ell, s)
      else (case scan_hex 0 0 s of None \<Rightarrow> None
            | Some (off, a, rest) \<Rightarrow>
                if off = 0 then None
                else if rest \<noteq> [] \<and> hd rest = CHR ''.'' then
                  (if ell = None \<and> length acc \<noteq> 12 then None
                   else if 16 < length acc + 4 then None
                   else (case parse_ipv4 s of None \<Rightarrow> None | Some f \<Rightarrow> Some (acc @ f, ell, [])))
                else
                  (let acc' = acc @ [of_nat (a div 256), of_nat (a mod 256)] in
                   (case rest of
                      [] \<Rightarrow> Some (acc', ell, [])
                    | c # r \<Rightarrow>
                        if c \<noteq> CHR '':'' then None
                        else (case r of
                                [] \<Rightarrow> None
                              | c2 # r2 \<Rightarrow>
                                  if c2 = CHR '':'' then
                                    (if ell \<noteq> None then None
                                     else if r2 = [] then Some (acc', Some (length acc'), [])
                                     else ipv6_loop acc' (Some (length acc')) r2)
                                  else ipv6_loop acc' ell r)))))"
  by pat_completeness auto
termination
  by (relation "measure (\<lambda>(acc, ell, s). 16 - length acc)") auto

declare ipv6_loop.simps [simp del]

definition expand_ellipsis :: "ip \<Rightarrow> nat option \<Rightarrow> ip option" where
  "expand_ellipsis acc ell =
     (if length acc < 16 then
        (case ell of None \<Rightarrow> None
         | Some e \<Rightarrow> Some (take e acc @ replicate (16 - length acc) 0 @ drop e acc))
      else (if ell = None then Some acc else None))"

definition parse_ipv6 :: "string \<Rightarrow> ip option" where
  "parse_ipv6 s =
     (if CHR ''%'' \<in> set s then None
      else if s = ''::'' then Some (replicate 16 0)
      else (case (if take 2 s = ''::'' then ipv6_loop [] (Some 0) (drop 2 s) else ipv6_loop [] None s)
            of None \<Rightarrow> None
            | Some (acc, ell, rest) \<Rightarrow> if rest \<noteq> [] then None else expand_ellipsis acc ell))"

text \<open>\<^verbatim>\<open>netip.ParseAddr\<close>: the first of \<open>.\<close>, \<open>:\<close> and \<open>%\<close> decides the family.\<close>

fun addr_family :: "string \<Rightarrow> char option" where
  "addr_family [] = None"
| "addr_family (c # s) =
     (if c = CHR ''.'' \<or> c = CHR '':'' \<or> c = CHR ''%'' then Some c else addr_family s)"

definition parse_addr :: "string \<Rightarrow> addr option" where
  "parse_addr s =
     (case addr_family s of None \<Rightarrow> None
      | Some c \<Rightarrow> if c = CHR ''.'' then map_option V4 (parse_ipv4 s)
                  else if c = CHR '':'' then map_option V6 (parse_ipv6 s) else None)"

fun as16 :: "addr \<Rightarrow> ip" where
  "as16 (V4 b) = v4_in_v6_prefix @ b"
| "as16 (V6 b) = b"

fun bit_len :: "addr \<Rightarrow> nat" where
  "bit_len (V4 _) = 32"
| "bit_len (V6 _) = 128"

definition parse_IP :: "string \<Rightarrow> ip option" where
  "parse_IP s = map_option as16 (parse_addr s)"

definition to4 :: "ip \<Rightarrow> ip option" where
  "to4 a = (if length a = 4 then Some a
            else if length a = 16 \<and> take 12 a = v4_in_v6_prefix then Some (drop 12 a) else None)"

text \<open>The byte of \<^verbatim>\<open>net.CIDRMask(ones, bits)\<close> at index \<open>k\<close>.\<close>

definition mask_byte :: "nat \<Rightarrow> nat \<Rightarrow> 8 word" where
  "mask_byte ones k =
     (if 8 * (k + 1) \<le> ones then 255
      else if ones \<le> 8 * k then 0
      else of_nat (256 - 2 ^ (8 - (ones - 8 * k))))"

definition CIDRMask :: "nat \<Rightarrow> nat \<Rightarrow> ip" where
  "CIDRMask ones bits = map (mask_byte ones) [0..<bits div 8]"

definition and_bytes :: "ip \<Rightarrow> ip \<Rightarrow> ip" where
  "and_bytes a m = map2 (\<lambda>x y. x AND y) a m"

text \<open>\<^verbatim>\<open>IP.Mask\<close>; \<open>None\<close> is the nil result for mismatched lengths.\<close>

definition ip_mask :: "ip \<Rightarrow> ip \<Rightarrow> ip option" where
  "ip_mask a m =
     (let m' = (if length m = 16 \<and> length a = 4 \<and> take 12 m = replicate 12 255 then drop 12 m else m);
          a' = (if length m' = 4 \<and> length a = 16 \<and> take 12 a = v4_in_v6_prefix then drop 12 a else a)
      in if length a' = length m' then Some (and_bytes a' m') else None)"

text \<open>\<^verbatim>\<open>dtoi\<close>: decimal digits below \<^verbatim>\<open>0xFFFFFF\<close>, the whole string.\<close>

fun dtoi_loop :: "nat \<Rightarrow> string \<Rightarrow> nat option" where
  "dtoi_loop n [] = Some n"
| "dtoi_loop n (c # s) =
     (case digit_val c of None \<Rightarrow> None
      | Some d \<Rightarrow> if 16777215 \<le> 10 * n + d then None else dtoi_loop (10 * n + d) s)"

definition dtoi :: "string \<Rightarrow> nat option" where
  "dtoi s = (if s = [] then None else dtoi_loop 0 s)"

definition parse_CIDR :: "string \<Rightarrow> ipnet option" where
  "parse_CIDR s =
     (case cut (CHR ''/'') s of (a, m, found) \<Rightarrow>
        if \<not> found then None
        else (case parse_addr a of None \<Rightarrow> None
              | Some ad \<Rightarrow>
                  (case dtoi m of None \<Rightarrow> None
                   | Some n \<Rightarrow>
                       if bit_len ad < n then None
                       else (let mask = CIDRMask n (bit_len ad) in
                             (case ip_mask (as16 ad) mask of None \<Rightarrow> None
                              | Some i \<Rightarrow> Some \<lparr>net_IP = i, net_Mask = mask\<rparr>)))))"

text \<open>\<^verbatim>\<open>IPMask.Size\<close>: leading ones and length in bits; \<open>(0, 0)\<close> for a mask that is not canonical.\<close>

fun leading_ones :: "8 word \<Rightarrow> nat option" where
  "leading_ones b =
     (if b = 0 then Some 0 else if b = 128 then Some 1 else if b = 192 then Some 2
      else if b = 224 then Some 3 else if b = 240 then Some 4 else if b = 248 then Some 5
      else if b = 252 then Some 6 else if b = 254 then Some 7 else None)"

fun simple_mask_length :: "ip \<Rightarrow> nat option" where
  "simple_mask_length [] = Some 0"
| "simple_mask_length (b # m) =
     (if b = 255 then map_option (\<lambda>n. 8 + n) (simple_mask_length m)
      else if list_all (\<lambda>x. x = 0) m then leading_ones b else None)"

definition mask_size :: "ip \<Rightarrow> nat \<times> nat" where
  "mask_size m = (case simple_mask_length m of None \<Rightarrow> (0, 0) | Some n \<Rightarrow> (n, 8 * length m))"

text \<open>\<^verbatim>\<open>IPNet.Contains\<close>, with its helper that brings the network number to its shortest form.\<close>

definition network_number_and_mask :: "ipnet \<Rightarrow> (ip \<times> ip) option" where
  "network_number_and_mask n =
     (case to4 (net_IP n) of
        Some i \<Rightarrow> (if length (net_Mask n) = 4 then Some (i, net_Mask n)
                    else if length (net_Mask n) = 16 then Some (i, drop 12 (net_Mask n)) else None)
      | None \<Rightarrow> (if length (net_IP n) = 16 \<and> length (net_Mask n) = 16
                  then Some (net_IP n, net_Mask n) else None))"

definition net_contains :: "ipnet \<Rightarrow> ip \<Rightarrow> bool" where
  "net_contains n a =
     (let a' = (case to4 a of Some x \<Rightarrow> x | None \<Rightarrow> a) in
      (case network_number_and_mask n of
         None \<Rightarrow> a' = []
       | Some (nn, m) \<Rightarrow> length a' = length nn \<and> and_bytes nn m = and_bytes a' m))"

text \<open>\<^verbatim>\<open>net.IP.String\<close>: dotted decimal, or groups with the first longest run of zero groups left out.\<close>

definition byte_str :: "8 word \<Rightarrow> string" where
  "byte_str b = nat_str (unat b)"

fun groups16 :: "ip \<Rightarrow> nat list" where
  "groups16 (a # b # rest) = (unat a * 256 + unat b) # groups16 rest"
| "groups16 _ = []"

fun zero_run :: "nat list \<Rightarrow> nat" where
  "zero_run [] = 0"
| "zero_run (g # gs) = (if g = 0 then Suc (zero_run gs) else 0)"

text \<open>Start and length of the run that is left out; length 0 when there is none.\<close>

fun best_run :: "nat \<Rightarrow> nat list \<Rightarrow> nat \<times> nat \<Rightarrow> nat \<times> nat" where
  "best_run i [] best = best"
| "best_run i (g # gs) best =
     best_run (Suc i) gs (let l = zero_run (g # gs) in if 2 \<le> l \<and> snd best < l then (i, l) else best)"

definition hex_digits :: "nat \<Rightarrow> string" where
  "hex_digits n = (let h = \<lambda>d. (''0123456789abcdef'') ! d in
     if n < 16 then [h n]
     else if n < 256 then [h (n div 16), h (n mod 16)]
     else if n < 4096 then [h (n div 256), h (n div 16 mod 16), h (n mod 16)]
     else [h (n div 4096 mod 16), h (n div 256 mod 16), h (n div 16 mod 16), h (n mod 16)])"

definition ip_string :: "ip \<Rightarrow> string" where
  "ip_string a =
     (case (if length a = 4 then Some a else to4 a) of
        Some v4 \<Rightarrow> join ''.'' (map byte_str v4)
      | None \<Rightarrow>
        (let gs = groups16 a; (s, l) = best_run 0 gs (0, 0) in
         if l = 0 then join '':'' (map hex_digits gs)
         else join '':'' (map hex_digits (take s gs)) @ ''::'' @ join '':'' (map hex_digits (drop (s + l) gs))))"

text \<open>\<^verbatim>\<open>IPNet.String\<close>; a mask that is not a prefix is written in hexadecimal.\<close>

definition hex_byte :: "8 word \<Rightarrow> string" where
  "hex_byte b = (let h = \<lambda>d. (''0123456789abcdef'') ! d in [h (unat b div 16), h (unat b mod 16)])"

definition ipnet_string :: "ipnet \<Rightarrow> string" where
  "ipnet_string n =
     (case network_number_and_mask n of None \<Rightarrow> ''<nil>''
      | Some (nn, m) \<Rightarrow>
        ip_string nn @ ''/'' @ (case simple_mask_length m of Some l \<Rightarrow> nat_str l | None \<Rightarrow> concat (map hex_byte m)))"

text \<open>\<^verbatim>\<open>IP.Equal\<close>: an address and its form embedded in the longer family are equal.\<close>

definition ip_equal :: "ip \<Rightarrow> ip \<Rightarrow> bool" where
  "ip_equal a b \<longleftrightarrow>
     (if length a = length b then a = b
      else if length a = 4 \<and> length b = 16 then take 12 b = v4_in_v6_prefix \<and> a = drop 12 b
      else length a = 16 \<and> length b = 4 \<and> take 12 a = v4_in_v6_prefix \<and> drop 12 a = b)"

lemma CIDRMask_length [simp]: "length (CIDRMask ones bits) = bits div 8"
  by (simp add: CIDRMask_def)

lemma replicate_numeral_unfold [go_simps]:
  "replicate (numeral k) x = x # replicate (pred_numeral k) x"
  by (simp add: numeral_eq_Suc)

lemmas net_eval [go_simps] =
  parse_IP_def parse_addr_def parse_ipv4_def parse_ipv6_def ipv6_loop.simps expand_ellipsis_def
  digit_val_def hex_val_def v4_in_v6_prefix_def to4_def mask_byte_def CIDRMask_def and_bytes_def
  ip_mask_def dtoi_def parse_CIDR_def mask_size_def network_number_and_mask_def net_contains_def

end
