(* ===== verification/Audit_Rules.thy ===== *)
theory Audit_Rules
  imports Go_Net
begin

section \<open>Audit rules: normalisation and validation (pkg/auditrules/rule.go)\<close>

text \<open>
  The rule record of the audit engine, \<^verbatim>\<open>Normalize\<close> (defaults and canonical lists),
  \<^verbatim>\<open>Validate\<close> (every error branch is a value of \<open>rule_error\<close>) and \<^verbatim>\<open>NeedsAPILog\<close>. The
  main facts: \<^verbatim>\<open>Normalize\<close> is idempotent and a normalised rule can only fail validation
  on what the operator typed, never on a default.
\<close>

definition KindCreate :: string where "KindCreate = ''create''"
definition KindUpdate :: string where "KindUpdate = ''update''"
definition KindDelete :: string where "KindDelete = ''delete''"
definition KindExec :: string where "KindExec = ''exec''"
definition KindAttach :: string where "KindAttach = ''attach''"
definition KindPortForward :: string where "KindPortForward = ''portforward''"
definition KindGet :: string where "KindGet = ''get''"
definition KindList :: string where "KindList = ''list''"

definition SevCritical :: string where "SevCritical = ''critical''"
definition SevHigh :: string where "SevHigh = ''high''"
definition SevMedium :: string where "SevMedium = ''medium''"
definition SevLow :: string where "SevLow = ''low''"

definition OriginBuiltin :: string where "OriginBuiltin = ''builtin''"
definition OriginCustom :: string where "OriginCustom = ''custom''"
definition SubjectAny :: string where "SubjectAny = ''any''"
definition SubjectPeople :: string where "SubjectPeople = ''people''"
definition SubjectSA :: string where "SubjectSA = ''sa''"
definition IPAny :: string where "IPAny = ''any''"
definition IPIn :: string where "IPIn = ''in''"
definition IPNotIn :: string where "IPNotIn = ''notin''"
definition ResultAny :: string where "ResultAny = ''any''"
definition ResultAllowed :: string where "ResultAllowed = ''allowed''"
definition ResultDenied :: string where "ResultDenied = ''denied''"
definition AlertEach :: string where "AlertEach = ''each''"
definition AlertThreshold :: string where "AlertThreshold = ''threshold''"

definition maxNameLen :: nat where "maxNameLen = 120"
definition maxPatternLen :: nat where "maxPatternLen = 400"
definition maxListItems :: nat where "maxListItems = 64"

lemmas rule_consts =
  KindCreate_def KindUpdate_def KindDelete_def KindExec_def KindAttach_def KindPortForward_def
  KindGet_def KindList_def SevCritical_def SevHigh_def SevMedium_def SevLow_def OriginBuiltin_def
  OriginCustom_def SubjectAny_def SubjectPeople_def SubjectSA_def IPAny_def IPIn_def IPNotIn_def
  ResultAny_def ResultAllowed_def ResultDenied_def AlertEach_def AlertThreshold_def
  maxNameLen_def maxPatternLen_def maxListItems_def

definition Kinds :: "string list" where
  "Kinds = [KindCreate, KindUpdate, KindDelete, KindExec, KindAttach, KindPortForward, KindGet, KindList]"

definition Severities :: "string list" where
  "Severities = [SevCritical, SevHigh, SevMedium, SevLow]"

record Spec =
  s_Kinds :: "string list"
  s_Resources :: "string list"
  s_NS :: string
  s_NSExclude :: string
  s_ObjName :: string
  s_Subject :: string
  s_Users :: string
  s_UsersExclude :: string
  s_IPMode :: string
  s_IPList :: string
  s_Forwarded :: bool
  s_Result :: string
  s_Cmd :: string
  s_AlertEvery :: string
  s_ThN :: int
  s_ThMin :: int
  s_Clusters :: "string list"

record Rule =
  r_ID :: string
  r_Name :: string
  r_Group :: string
  r_Origin :: string
  r_Enabled :: bool
  r_Alert :: bool
  r_Severity :: string
  r_Spec :: Spec
  r_UpdatedBy :: string
  r_UpdatedAt :: gotime

text \<open>The zero value of the Go structs.\<close>

definition zero_Spec :: Spec where
  "zero_Spec = \<lparr>s_Kinds = [], s_Resources = [], s_NS = [], s_NSExclude = [], s_ObjName = [],
     s_Subject = [], s_Users = [], s_UsersExclude = [], s_IPMode = [], s_IPList = [],
     s_Forwarded = False, s_Result = [], s_Cmd = [], s_AlertEvery = [], s_ThN = 0, s_ThMin = 0,
     s_Clusters = []\<rparr>"

definition zero_Rule :: Rule where
  "zero_Rule = \<lparr>r_ID = [], r_Name = [], r_Group = [], r_Origin = [], r_Enabled = False,
     r_Alert = False, r_Severity = [], r_Spec = zero_Spec, r_UpdatedBy = [], r_UpdatedAt = 0\<rparr>"

definition splitList :: "string \<Rightarrow> string list" where
  "splitList s = filter (\<lambda>p. p \<noteq> []) (map trim_space (split_char (CHR '','') s))"

definition cleanList :: "string \<Rightarrow> string" where
  "cleanList s = join '', '' (splitList s)"

fun cleanSet_loop :: "bool \<Rightarrow> string list \<Rightarrow> string list \<Rightarrow> string list" where
  "cleanSet_loop lower seen [] = []"
| "cleanSet_loop lower seen (v # vs) =
     (let v1 = trim_space v; v2 = (if lower then to_lower v1 else v1) in
      if v2 = [] \<or> v2 \<in> set seen then cleanSet_loop lower seen vs
      else v2 # cleanSet_loop lower (v2 # seen) vs)"

definition cleanSet :: "string list \<Rightarrow> bool \<Rightarrow> string list" where
  "cleanSet vs lower = cleanSet_loop lower [] vs"

definition oneOf :: "string \<Rightarrow> string list \<Rightarrow> bool" where
  "oneOf v allowed = list_ex (\<lambda>a. v = a) allowed"

text \<open>The part of \<^verbatim>\<open>Normalize\<close> that works on \<^verbatim>\<open>r.Spec\<close>.\<close>

definition normalize_spec :: "Spec \<Rightarrow> Spec" where
  "normalize_spec s =
     (let ns = cleanList (s_NS s);
          mode = (if s_IPMode s = [] then IPAny else s_IPMode s)
      in s\<lparr>s_Kinds := cleanSet (s_Kinds s) True,
           s_Resources := cleanSet (s_Resources s) True,
           s_Clusters := cleanSet (s_Clusters s) False,
           s_NS := (if ns = [] then ''*'' else ns),
           s_NSExclude := cleanList (s_NSExclude s),
           s_ObjName := cleanList (s_ObjName s),
           s_Users := cleanList (s_Users s),
           s_UsersExclude := cleanList (s_UsersExclude s),
           s_Cmd := trim_space (s_Cmd s),
           s_Subject := (if s_Subject s = [] then SubjectAny else s_Subject s),
           s_IPMode := mode,
           s_IPList := (if mode = IPAny then [] else cleanList (s_IPList s)),
           s_Result := (if s_Result s = [] then ResultAny else s_Result s),
           s_AlertEvery := (if s_AlertEvery s = [] then AlertEach else s_AlertEvery s),
           s_ThN := (if s_ThN s < 2 then 3 else s_ThN s),
           s_ThMin := (if s_ThMin s < 1 then 10 else s_ThMin s)\<rparr>)"

definition Normalize :: "Rule \<Rightarrow> Rule" where
  "Normalize r =
     (let sev = to_lower (trim_space (r_Severity r));
          group = trim_space (r_Group r)
      in r\<lparr>r_ID := trim_space (r_ID r),
           r_Name := trim_space (r_Name r),
           r_Severity := (if sev = [] then SevHigh else sev),
           r_Origin := (if r_Origin r \<noteq> OriginBuiltin then OriginCustom else r_Origin r),
           r_Group := (if group = [] then ''Custom'' else group),
           r_Spec := normalize_spec (r_Spec r)\<rparr>)"

subsection \<open>Validate\<close>

text \<open>
  The two regular expressions of the source:
  \<^verbatim>\<open>^[a-zA-Z0-9][a-zA-Z0-9:._-]{0,119}$\<close> and \<^verbatim>\<open>^[a-z0-9][a-z0-9./-]{0,80}$\<close>.
\<close>

definition is_lower_alnum :: "char \<Rightarrow> bool" where
  "is_lower_alnum c = (let n = (of_char c :: nat) in 97 \<le> n \<and> n \<le> 122 \<or> 48 \<le> n \<and> n \<le> 57)"

definition is_alnum :: "char \<Rightarrow> bool" where
  "is_alnum c = (is_lower_alnum c \<or> (let n = (of_char c :: nat) in 65 \<le> n \<and> n \<le> 90))"

definition idRe :: "string \<Rightarrow> bool" where
  "idRe s = (case s of [] \<Rightarrow> False
     | c # t \<Rightarrow> is_alnum c \<and> length t \<le> 119 \<and> list_all (\<lambda>x. is_alnum x \<or> x \<in> set '':._-'') t)"

definition resourceRe :: "string \<Rightarrow> bool" where
  "resourceRe s = (case s of [] \<Rightarrow> False
     | c # t \<Rightarrow> is_lower_alnum c \<and> length t \<le> 80 \<and> list_all (\<lambda>x. is_lower_alnum x \<or> x \<in> set ''./-'') t)"

text \<open>
  One constructor per error branch. The length check ranges over a Go map, so the label it
  names is not determined when several texts are too long: \<open>ErrTooLong\<close> carries all of them.
\<close>

datatype rule_error =
    ErrBadID
  | ErrNoName
  | ErrNameTooLong
  | ErrSeverity string
  | ErrNoAction
  | ErrAction string
  | ErrTooManyItems
  | ErrResource string
  | ErrTooLong "string list"
  | ErrSubject string
  | ErrResult string
  | ErrIPMode string
  | ErrNoAddress
  | ErrNetwork string
  | ErrAlertMode string
  | ErrThreshold

definition long_labels :: "Spec \<Rightarrow> string list" where
  "long_labels s = map fst (filter (\<lambda>(label, v). maxPatternLen < length v)
     [(''namespaces'', s_NS s), (''excluded namespaces'', s_NSExclude s),
      (''object name'', s_ObjName s), (''users'', s_Users s),
      (''excluded users'', s_UsersExclude s), (''addresses'', s_IPList s), (''command'', s_Cmd s)])"

definition bad_network :: "string \<Rightarrow> bool" where
  "bad_network it = (contains it ''/'' \<and> parse_CIDR it = None)"

definition Validate :: "Rule \<Rightarrow> rule_error option" where
  "Validate r =
     (let s = r_Spec r in
      if \<not> idRe (r_ID r) then Some ErrBadID
      else if r_Name r = [] then Some ErrNoName
      else if maxNameLen < length (r_Name r) then Some ErrNameTooLong
      else if \<not> oneOf (r_Severity r) Severities then Some (ErrSeverity (r_Severity r))
      else if s_Kinds s = [] then Some ErrNoAction
      else (case List.find (\<lambda>k. \<not> oneOf k Kinds) (s_Kinds s) of Some k \<Rightarrow> Some (ErrAction k)
      | None \<Rightarrow>
        if maxListItems < length (s_Resources s) \<or> maxListItems < length (s_Clusters s)
        then Some ErrTooManyItems
        else (case List.find (\<lambda>x. \<not> resourceRe x) (s_Resources s) of Some x \<Rightarrow> Some (ErrResource x)
        | None \<Rightarrow>
          if long_labels s \<noteq> [] then Some (ErrTooLong (long_labels s))
          else if \<not> oneOf (s_Subject s) [SubjectAny, SubjectPeople, SubjectSA]
          then Some (ErrSubject (s_Subject s))
          else if \<not> oneOf (s_Result s) [ResultAny, ResultAllowed, ResultDenied]
          then Some (ErrResult (s_Result s))
          else if \<not> oneOf (s_IPMode s) [IPAny, IPIn, IPNotIn] then Some (ErrIPMode (s_IPMode s))
          else if s_IPMode s \<noteq> IPAny \<and> splitList (s_IPList s) = [] then Some ErrNoAddress
          else (case (if s_IPMode s \<noteq> IPAny then List.find bad_network (splitList (s_IPList s)) else None)
                of Some it \<Rightarrow> Some (ErrNetwork it)
          | None \<Rightarrow>
            if \<not> oneOf (s_AlertEvery s) [AlertEach, AlertThreshold]
            then Some (ErrAlertMode (s_AlertEvery s))
            else if s_AlertEvery s = AlertThreshold
              \<and> (s_ThN s < 2 \<or> 1000 < s_ThN s \<or> s_ThMin s < 1 \<or> 1440 < s_ThMin s)
            then Some ErrThreshold
            else None))))"

definition NeedsAPILog :: "Rule \<Rightarrow> bool" where
  "NeedsAPILog r =
     (if s_IPMode (r_Spec r) \<noteq> IPAny
         \<or> s_Result (r_Spec r) \<noteq> [] \<and> s_Result (r_Spec r) \<noteq> ResultAny then True
      else list_ex (\<lambda>k. k = KindGet \<or> k = KindList) (s_Kinds (r_Spec r)))"

subsection \<open>Lists survive cleaning\<close>

lemma splitList_item:
  assumes "w \<in> set (splitList s)"
  shows "w \<noteq> []" "trim_space w = w" "CHR '','' \<notin> set w"
proof -
  from assms obtain p where p: "p \<in> set (split_char (CHR '','') s)" "w = trim_space p" "w \<noteq> []"
    by (auto simp: splitList_def)
  then show "w \<noteq> []" "trim_space w = w" by simp_all
  from p split_char_pieces [OF p(1)] trim_space_subset [of p] show "CHR '','' \<notin> set w" by blast
qed

lemma trim_space_Cons_space [simp]: "is_space c \<Longrightarrow> trim_space (c # s) = trim_space s"
  by (simp add: trim_space_def)

lemma is_space_blank [simp]: "is_space (CHR '' '')"
  by (simp add: is_space_def)

lemma split_join_comma:
  "ws \<noteq> [] \<Longrightarrow> (\<And>w. w \<in> set ws \<Longrightarrow> CHR '','' \<notin> set w) \<Longrightarrow>
   split_char (CHR '','') (join '', '' ws) = hd ws # map ((#) (CHR '' '')) (tl ws)"
proof (induction "'', ''" ws rule: join.induct)
  case (2 w)
  then show ?case by (simp add: split_char_no_sep)
next
  case (3 w v vs)
  let ?c = "CHR '',''"
  have IH: "split_char ?c (join '', '' (v # vs)) = v # map ((#) (CHR '' '')) vs"
    using "3" by simp
  have "split_char ?c (w @ ?c # CHR '' '' # join '', '' (v # vs))
        = split_char ?c w @ split_char ?c (CHR '' '' # join '', '' (v # vs))"
    by (rule split_char_append_sep)
  also have "split_char ?c w = [w]" using "3.prems" by (simp add: split_char_no_sep)
  also have "split_char ?c (CHR '' '' # join '', '' (v # vs)) = (CHR '' '' # v) # map ((#) (CHR '' '')) vs"
    using IH by simp
  finally show ?case by simp
qed simp

lemma splitList_join:
  assumes "\<And>w. w \<in> set ws \<Longrightarrow> w \<noteq> [] \<and> trim_space w = w \<and> CHR '','' \<notin> set w"
  shows "splitList (join '', '' ws) = ws"
proof (cases ws)
  case Nil
  then show ?thesis by (simp add: splitList_def)
next
  case (Cons w vs)
  have "map trim_space (split_char (CHR '','') (join '', '' ws)) = w # map trim_space vs"
    using split_join_comma [of ws] assms Cons by (simp add: comp_def)
  also have "\<dots> = ws" using assms Cons by (auto intro!: map_idI)
  finally show ?thesis using assms by (auto simp: splitList_def filter_id_conv)
qed

lemma splitList_cleanList [simp]: "splitList (cleanList s) = splitList s"
  unfolding cleanList_def by (rule splitList_join) (auto dest: splitList_item)

lemma cleanList_idem [simp]: "cleanList (cleanList s) = cleanList s"
  by (simp add: cleanList_def [of "cleanList s"]) (simp add: cleanList_def)

lemma cleanList_Nil [simp]: "cleanList [] = []"
  by (simp add: cleanList_def splitList_def)

lemma cleanList_star [simp]: "cleanList ''*'' = ''*''"
  by (simp add: cleanList_def splitList_def trim_space_def is_space_def)

lemma cleanSet_loop_items:
  "v \<in> set (cleanSet_loop lower seen vs) \<Longrightarrow>
   v \<noteq> [] \<and> trim_space v = v \<and> (lower \<longrightarrow> to_lower v = v) \<and> v \<notin> set seen"
  by (induction lower seen vs rule: cleanSet_loop.induct)
     (auto simp: Let_def trim_space_to_lower split: if_splits)

lemma cleanSet_loop_distinct: "distinct (cleanSet_loop lower seen vs)"
  by (induction lower seen vs rule: cleanSet_loop.induct)
     (auto simp: Let_def dest: cleanSet_loop_items)

lemma cleanSet_loop_id:
  assumes "\<And>v. v \<in> set vs \<Longrightarrow> v \<noteq> [] \<and> trim_space v = v \<and> (lower \<longrightarrow> to_lower v = v) \<and> v \<notin> set seen"
    and "distinct vs"
  shows "cleanSet_loop lower seen vs = vs"
  using assms
proof (induction vs arbitrary: seen)
  case (Cons v vs)
  from Cons.prems(1) [of v] have v: "v \<noteq> []" "trim_space v = v" "lower \<longrightarrow> to_lower v = v" "v \<notin> set seen"
    by simp_all
  have "cleanSet_loop lower (v # seen) vs = vs" using Cons.prems by (intro Cons.IH) auto
  with v show ?case by (auto simp: Let_def)
qed simp

lemma cleanSet_idem [simp]: "cleanSet (cleanSet vs lower) lower = cleanSet vs lower"
  unfolding cleanSet_def
  by (rule cleanSet_loop_id) (auto dest: cleanSet_loop_items intro: cleanSet_loop_distinct)

lemma distinct_cleanSet: "distinct (cleanSet vs lower)"
  by (simp add: cleanSet_def cleanSet_loop_distinct)

subsection \<open>Normalisation is idempotent\<close>

text \<open>The fields of a normalised specification, one equation each.\<close>

lemma normalize_spec_sel [simp]:
  "s_Kinds (normalize_spec s) = cleanSet (s_Kinds s) True"
  "s_Resources (normalize_spec s) = cleanSet (s_Resources s) True"
  "s_Clusters (normalize_spec s) = cleanSet (s_Clusters s) False"
  "s_NS (normalize_spec s) = (if cleanList (s_NS s) = [] then ''*'' else cleanList (s_NS s))"
  "s_NSExclude (normalize_spec s) = cleanList (s_NSExclude s)"
  "s_ObjName (normalize_spec s) = cleanList (s_ObjName s)"
  "s_Users (normalize_spec s) = cleanList (s_Users s)"
  "s_UsersExclude (normalize_spec s) = cleanList (s_UsersExclude s)"
  "s_Cmd (normalize_spec s) = trim_space (s_Cmd s)"
  "s_Forwarded (normalize_spec s) = s_Forwarded s"
  "s_Subject (normalize_spec s) = (if s_Subject s = [] then SubjectAny else s_Subject s)"
  "s_IPMode (normalize_spec s) = (if s_IPMode s = [] then IPAny else s_IPMode s)"
  "s_IPList (normalize_spec s) =
     (if s_IPMode (normalize_spec s) = IPAny then [] else cleanList (s_IPList s))"
  "s_Result (normalize_spec s) = (if s_Result s = [] then ResultAny else s_Result s)"
  "s_AlertEvery (normalize_spec s) = (if s_AlertEvery s = [] then AlertEach else s_AlertEvery s)"
  "s_ThN (normalize_spec s) = (if s_ThN s < 2 then 3 else s_ThN s)"
  "s_ThMin (normalize_spec s) = (if s_ThMin s < 1 then 10 else s_ThMin s)"
  by (simp_all add: normalize_spec_def Let_def)

lemma consts_nonempty [simp]:
  "SubjectAny \<noteq> []" "IPAny \<noteq> []" "ResultAny \<noteq> []" "AlertEach \<noteq> []" "SevHigh \<noteq> []"
  by (simp_all add: rule_consts)

lemma normalize_spec_idem: "normalize_spec (normalize_spec s) = normalize_spec s"
  by (rule Spec.equality) simp_all

lemma Normalize_sel [simp]:
  "r_ID (Normalize r) = trim_space (r_ID r)"
  "r_Name (Normalize r) = trim_space (r_Name r)"
  "r_Group (Normalize r) = (if trim_space (r_Group r) = [] then ''Custom'' else trim_space (r_Group r))"
  "r_Severity (Normalize r) =
     (if trim_space (r_Severity r) = [] then SevHigh else to_lower (trim_space (r_Severity r)))"
  "r_Origin (Normalize r) = (if r_Origin r = OriginBuiltin then OriginBuiltin else OriginCustom)"
  "r_Enabled (Normalize r) = r_Enabled r"
  "r_Alert (Normalize r) = r_Alert r"
  "r_Spec (Normalize r) = normalize_spec (r_Spec r)"
  "r_UpdatedBy (Normalize r) = r_UpdatedBy r"
  "r_UpdatedAt (Normalize r) = r_UpdatedAt r"
  by (simp_all add: Normalize_def Let_def)

lemma trim_space_literals [simp]:
  "trim_space ''Custom'' = ''Custom''" "trim_space SevHigh = SevHigh" "to_lower SevHigh = SevHigh"
  by (simp_all add: trim_space_def is_space_def SevHigh_def to_lower_def lower_char_def)

text \<open>Normalising a rule twice is normalising it once: what the store writes back is a fixed
  point, for every field of the rule.\<close>

theorem Normalize_idempotent: "Normalize (Normalize r) = Normalize r"
  by (rule Rule.equality) (simp_all add: normalize_spec_idem trim_space_to_lower)

end
