(* ===== verification/Client_IP.thy ===== *)
theory Client_IP
  imports Audit_Rules
begin

section \<open>The client address behind trusted proxies (pkg/auditrules/clientip.go)\<close>

text \<open>
  \<^verbatim>\<open>ParseProxies\<close> turns the operator's list of trusted proxies into networks and
  \<^verbatim>\<open>ClientIP\<close> picks, from the chain of source addresses of an API request, the rightmost one
  that is not a trusted proxy. Entries to the left of it are claims of the client. The facts:
  no accepted network covers a whole address family, and whatever a client prepends to the
  chain does not change the address the engine attributes the request to.
\<close>

definition maxTrustedProxies :: nat where "maxTrustedProxies = 64"

datatype proxy_error =
    TooManyProxies
  | NotAddressOrCIDR string
  | TrustsEveryAddress string

text \<open>One item of the list: a single address becomes a full-length network.\<close>

definition parse_proxy :: "string \<Rightarrow> proxy_error + ipnet" where
  "parse_proxy item =
     (case parse_IP item of
        Some ip \<Rightarrow>
          (case to4 ip of
             Some v4 \<Rightarrow> Inr \<lparr>net_IP = v4, net_Mask = CIDRMask 32 32\<rparr>
           | None \<Rightarrow> Inr \<lparr>net_IP = ip, net_Mask = CIDRMask 128 128\<rparr>)
      | None \<Rightarrow>
          (case parse_CIDR item of
             None \<Rightarrow> Inl (NotAddressOrCIDR item)
           | Some network \<Rightarrow>
               (let (ones, bits) = mask_size (net_Mask network);
                    (ones', network') =
                      (case to4 (net_IP network) of
                         Some v4 \<Rightarrow> (if bits = 128
                           then (ones - 96, \<lparr>net_IP = v4, net_Mask = CIDRMask (ones - 96) 32\<rparr>)
                           else (ones, network))
                       | None \<Rightarrow> (ones, network))
                in if ones' = 0 then Inl (TrustsEveryAddress item) else Inr network')))"

fun parse_proxies_loop :: "string list \<Rightarrow> proxy_error + ipnet list" where
  "parse_proxies_loop [] = Inr []"
| "parse_proxies_loop (item # items) =
     (case parse_proxy item of Inl e \<Rightarrow> Inl e
      | Inr n \<Rightarrow> (case parse_proxies_loop items of Inl e \<Rightarrow> Inl e | Inr ns \<Rightarrow> Inr (n # ns)))"

definition ParseProxies :: "string \<Rightarrow> proxy_error + ipnet list" where
  "ParseProxies l =
     (let items = splitList l in
      if maxTrustedProxies < length items then Inl TooManyProxies else parse_proxies_loop items)"

definition trustedProxy :: "string \<Rightarrow> ipnet list \<Rightarrow> bool" where
  "trustedProxy address trusted =
     (case parse_IP address of None \<Rightarrow> False | Some ip \<Rightarrow> list_ex (\<lambda>n. net_contains n ip) trusted)"

definition ClientIP :: "string list \<Rightarrow> ipnet list \<Rightarrow> string" where
  "ClientIP chain trusted =
     (case List.find (\<lambda>a. \<not> trustedProxy a trusted) (rev chain) of
        Some a \<Rightarrow> a
      | None \<Rightarrow> (case chain of [] \<Rightarrow> [] | a # _ \<Rightarrow> a))"

subsection \<open>Masks\<close>

lemma leading_ones_mask_byte:
  assumes "8 * k \<le> ones" "ones < 8 * (k + 1)"
  shows "leading_ones (mask_byte ones k) = Some (ones - 8 * k)" "mask_byte ones k \<noteq> 255"
proof -
  define r where "r = ones - 8 * k"
  have r: "ones = 8 * k + r" "r < 8" using assms by (auto simp: r_def)
  have b: "mask_byte ones k = (if r = 0 then 0 else of_nat (256 - 2 ^ (8 - r)))"
    using r by (auto simp: mask_byte_def)
  from r(2) have "r = 0 \<or> r = 1 \<or> r = 2 \<or> r = 3 \<or> r = 4 \<or> r = 5 \<or> r = 6 \<or> r = 7" by linarith
  then have "leading_ones (mask_byte ones k) = Some r \<and> mask_byte ones k \<noteq> 255"
    unfolding b by (elim disjE) simp_all
  then show "leading_ones (mask_byte ones k) = Some (ones - 8 * k)" "mask_byte ones k \<noteq> 255"
    by (simp_all add: r_def)
qed

lemma mask_byte_full: "8 * (k + 1) \<le> ones \<Longrightarrow> mask_byte ones k = 255"
  by (simp add: mask_byte_def)

lemma mask_byte_empty: "ones \<le> 8 * k \<Longrightarrow> mask_byte ones k = 0"
  by (simp add: mask_byte_def)

lemma simple_mask_length_range:
  "j \<le> n \<Longrightarrow> 8 * j \<le> ones \<Longrightarrow> ones \<le> 8 * n \<Longrightarrow>
   simple_mask_length (map (mask_byte ones) [j..<n]) = Some (ones - 8 * j)"
proof (induction "n - j" arbitrary: j)
  case 0
  then show ?case by simp
next
  case (Suc d)
  then have up: "[j..<n] = j # [Suc j..<n]" by (simp add: upt_conv_Cons)
  show ?case
  proof (cases "8 * (j + 1) \<le> ones")
    case True
    have "simple_mask_length (map (mask_byte ones) [Suc j..<n]) = Some (ones - 8 * Suc j)"
      using Suc True by (intro Suc.hyps(1)) auto
    with True show ?thesis by (simp add: up mask_byte_full)
  next
    case False
    then have "ones < 8 * (j + 1)" by simp
    from leading_ones_mask_byte [OF Suc.prems(2) this]
    have "leading_ones (mask_byte ones j) = Some (ones - 8 * j)" "mask_byte ones j \<noteq> 255" .
    moreover have "list_all (\<lambda>x. x = 0) (map (mask_byte ones) [Suc j..<n])"
      using False by (auto simp: list_all_iff intro!: mask_byte_empty)
    ultimately show ?thesis by (simp add: up del: leading_ones.simps)
  qed
qed

lemma mask_size_CIDRMask:
  "8 * n = bits \<Longrightarrow> ones \<le> bits \<Longrightarrow> mask_size (CIDRMask ones bits) = (ones, bits)"
  using simple_mask_length_range [of 0 n ones] by (auto simp: mask_size_def CIDRMask_def)

lemma CIDRMask_hd_top_bit:
  assumes "0 < ones" "8 \<le> bits"
  shows "bit (CIDRMask ones bits ! 0) 7"
proof -
  have "CIDRMask ones bits ! 0 = mask_byte ones 0" using assms by (simp add: CIDRMask_def)
  moreover have "bit (mask_byte ones 0) 7"
  proof (cases "8 \<le> ones")
    case True
    then show ?thesis by (simp add: mask_byte_def)
  next
    case False
    with assms have "ones = 1 \<or> ones = 2 \<or> ones = 3 \<or> ones = 4 \<or> ones = 5 \<or> ones = 6 \<or> ones = 7"
      by linarith
    then show ?thesis by (elim disjE) (simp_all add: mask_byte_def)
  qed
  ultimately show ?thesis by simp
qed

subsection \<open>Shape of parsed addresses\<close>

lemma ipv4_loop_length:
  "ipv4_loop prev val dl acc s = Some b \<Longrightarrow> length acc \<le> 3 \<Longrightarrow> length b = 4"
  by (induction prev val dl acc s rule: ipv4_loop.induct)
     (auto split: option.splits if_splits)

lemma parse_ipv4_length: "parse_ipv4 s = Some b \<Longrightarrow> length b = 4"
  unfolding parse_ipv4_def by (erule ipv4_loop_length) simp

text \<open>What the IPv6 loop keeps: an even number of bytes, at most 16, the ellipsis inside them.\<close>

definition ipv6_acc :: "ip \<Rightarrow> nat option \<Rightarrow> bool" where
  "ipv6_acc acc ell = (length acc \<le> 16 \<and> even (length acc) \<and> (\<forall>e. ell = Some e \<longrightarrow> e \<le> length acc))"

lemma ipv6_acc_step:
  assumes "ipv6_acc acc ell" "length acc < 16"
  shows "ipv6_acc (acc @ [x, y]) ell" "ipv6_acc (acc @ [x, y]) (Some (Suc (Suc (length acc))))"
proof -
  from assms(1) have "even (length acc)" by (simp add: ipv6_acc_def)
  with assms(2) have "length acc \<le> 14" by presburger
  with assms show "ipv6_acc (acc @ [x, y]) ell" "ipv6_acc (acc @ [x, y]) (Some (Suc (Suc (length acc))))"
    by (auto simp: ipv6_acc_def)
qed

lemma ipv6_loop_acc:
  "ipv6_loop acc ell s = Some (acc', ell', rest) \<Longrightarrow> ipv6_acc acc ell \<Longrightarrow> ipv6_acc acc' ell'"
proof (induction acc ell s arbitrary: acc' ell' rest rule: ipv6_loop.induct)
  case (1 acc ell s)
  show ?case
  proof (cases "16 \<le> length acc")
    case True
    with "1.prems" show ?thesis by (auto simp: ipv6_loop.simps [of acc])
  next
    case False
    then have lt: "length acc < 16" by simp
    note step = ipv6_acc_step [OF "1.prems"(2) lt]
    have four: "length f = 4 \<Longrightarrow> length acc \<le> 12 \<Longrightarrow> ipv6_acc (acc @ f) ell" for f
      using "1.prems"(2) by (auto simp: ipv6_acc_def)
    from "1.prems"(1) False obtain off a tl where
      sc: "scan_hex 0 0 s = Some (off, a, tl)" and off: "off \<noteq> 0"
      by (auto simp: ipv6_loop.simps [of acc] split: option.splits prod.splits if_splits)
    show ?thesis
    proof (cases "tl \<noteq> [] \<and> hd tl = CHR ''.''")
      case True
      with "1.prems"(1) False sc off show ?thesis
        by (auto simp: ipv6_loop.simps [of acc] split: option.splits if_splits
                 dest!: parse_ipv4_length dest: four)
    next
      case nodot: False
      show ?thesis
      proof (cases tl)
        case Nil
        with "1.prems"(1) False sc off step show ?thesis
          by (auto simp: ipv6_loop.simps [of acc] Let_def)
      next
        case (Cons c r)
        with "1.prems"(1) False sc off nodot have c: "c = CHR '':''"
          by (auto simp: ipv6_loop.simps [of acc] Let_def split: if_splits)
        show ?thesis
        proof (cases r)
          case Nil
          with "1.prems"(1) False sc off nodot Cons c show ?thesis
            by (simp add: ipv6_loop.simps [of acc] Let_def)
        next
          case r: (Cons c2 r2)
          note eqs = sc off nodot Cons c r
          show ?thesis
          proof (cases "c2 = CHR '':''")
            case True
            with "1.prems"(1) False eqs step(2) show ?thesis
              by (auto simp: ipv6_loop.simps [of acc] Let_def split: if_splits
                       dest: "1.IH"(1) [OF False sc refl refl off nodot refl Cons _ r True, simplified])
          next
            case c2: False
            with "1.prems"(1) False eqs have "ipv6_loop
                (acc @ [of_nat (a div 256), of_nat (a mod 256)]) ell r = Some (acc', ell', rest)"
              by (simp add: ipv6_loop.simps [of acc] Let_def)
            from "1.IH"(2) [OF False sc refl refl off nodot refl Cons _ r c2 this step(1)] c
            show ?thesis by simp
          qed
        qed
      qed
    qed
  qed
qed

lemma parse_ipv6_length: "parse_ipv6 s = Some b \<Longrightarrow> length b = 16"
proof -
  assume p: "parse_ipv6 s = Some b"
  have fin: "expand_ellipsis acc ell = Some b \<Longrightarrow> ipv6_acc acc ell \<Longrightarrow> length b = 16" for acc ell
    by (auto simp: expand_ellipsis_def ipv6_acc_def split: if_splits option.splits)
  have init: "ipv6_acc [] (Some 0)" "ipv6_acc [] None" by (simp_all add: ipv6_acc_def)
  from p init fin show ?thesis
    by (auto simp: parse_ipv6_def split: if_splits option.splits dest!: ipv6_loop_acc)
qed

lemma parse_addr_length:
  "parse_addr s = Some (V4 b) \<Longrightarrow> length b = 4" "parse_addr s = Some (V6 b) \<Longrightarrow> length b = 16"
  by (auto simp: parse_addr_def split: option.splits if_splits
           dest: parse_ipv4_length parse_ipv6_length)

lemma v4_prefix_length [simp]: "length v4_in_v6_prefix = 12"
  by (simp add: v4_in_v6_prefix_def)

lemma parse_IP_length: "parse_IP s = Some a \<Longrightarrow> length a = 16"
proof -
  assume "parse_IP s = Some a"
  then obtain ad where "parse_addr s = Some ad" "a = as16 ad" by (auto simp: parse_IP_def)
  then show ?thesis by (cases ad) (auto dest: parse_addr_length)
qed

lemma parse_CIDR_shape:
  assumes "parse_CIDR s = Some n"
  shows "\<exists>ones bits. net_Mask n = CIDRMask ones bits \<and> ones \<le> bits \<and> 8 * length (net_IP n) = bits
           \<and> (bits = 32 \<or> bits = 128)"
proof -
  from assms obtain a ad k where ad: "parse_addr a = Some ad" and k: "k \<le> bit_len ad"
    and n: "ip_mask (as16 ad) (CIDRMask k (bit_len ad)) = Some (net_IP n)"
           "net_Mask n = CIDRMask k (bit_len ad)"
    by (auto simp: parse_CIDR_def Let_def not_less split: prod.splits if_splits option.splits)
  show ?thesis
  proof (cases ad)
    case (V4 b)
    with ad have "length b = 4" by (auto dest: parse_addr_length)
    with V4 n have "length (net_IP n) = 4"
      by (auto simp: ip_mask_def and_bytes_def Let_def dest!: arg_cong [of _ _ length])
    with V4 n(2) k show ?thesis by auto
  next
    case (V6 b)
    with ad have "length b = 16" by (auto dest: parse_addr_length)
    with V6 n have "length (net_IP n) = 16"
      by (auto simp: ip_mask_def and_bytes_def Let_def dest!: arg_cong [of _ _ length])
    with V6 n(2) k show ?thesis by auto
  qed
qed

text \<open>
  The form of every accepted network: a positive prefix length, and addresses in their shortest
  form (an IPv4 network is never kept in its IPv6 guise).
\<close>

definition proper_net :: "ipnet \<Rightarrow> bool" where
  "proper_net n = (\<exists>ones. 0 < ones \<and>
     (length (net_IP n) = 4 \<and> net_Mask n = CIDRMask ones 32
      \<or> length (net_IP n) = 16 \<and> to4 (net_IP n) = None \<and> net_Mask n = CIDRMask ones 128))"

lemma to4_length: "to4 a = Some v \<Longrightarrow> length v = 4"
  by (auto simp: to4_def split: if_splits)

lemma parse_proxy_proper:
  assumes "parse_proxy item = Inr n"
  shows "proper_net n"
proof (cases "parse_IP item")
  case (Some a)
  then have "length a = 16" by (rule parse_IP_length)
  show ?thesis
  proof (cases "to4 a")
    case t: None
    with Some assms \<open>length a = 16\<close> show ?thesis
      unfolding proper_net_def by (auto simp: parse_proxy_def intro!: exI [of _ 128])
  next
    case t: (Some v4)
    with Some assms to4_length [OF t] show ?thesis
      unfolding proper_net_def by (auto simp: parse_proxy_def intro!: exI [of _ 32])
  qed
next
  case None
  with assms obtain net where net: "parse_CIDR item = Some net"
    by (auto simp: parse_proxy_def split: option.splits)
  from parse_CIDR_shape [OF net] obtain ones bits where
    m: "net_Mask net = CIDRMask ones bits" "ones \<le> bits" "8 * length (net_IP net) = bits"
    and b: "bits = 32 \<or> bits = 128" by blast
  have sz: "mask_size (net_Mask net) = (ones, bits)"
    unfolding m(1) by (rule mask_size_CIDRMask [OF m(3) m(2)])
  show ?thesis
  proof (cases "bits = 32")
    case True
    with m(3) have "length (net_IP net) = 4" by simp
    with assms None net sz True m(1) show ?thesis
      unfolding proper_net_def by (auto simp: parse_proxy_def to4_def split: if_splits)
  next
    case False
    with b m(3) have l: "bits = 128" "length (net_IP net) = 16" by simp_all
    show ?thesis
    proof (cases "to4 (net_IP net)")
      case t: None
      with assms None net sz l m(1) show ?thesis
        unfolding proper_net_def by (auto simp: parse_proxy_def split: if_splits)
    next
      case (Some v4)
      with assms None net sz l have "0 < ones - 96" "n = \<lparr>net_IP = v4, net_Mask = CIDRMask (ones - 96) 32\<rparr>"
        by (auto simp: parse_proxy_def split: if_splits)
      with to4_length [OF Some] show ?thesis
        unfolding proper_net_def by (intro exI [of _ "ones - 96"]) simp
    qed
  qed
qed

lemma parse_proxies_loop_proper:
  "parse_proxies_loop items = Inr ns \<Longrightarrow> n \<in> set ns \<Longrightarrow> proper_net n"
  by (induction items arbitrary: ns) (auto split: sum.splits dest: parse_proxy_proper)

subsection \<open>An accepted network leaves an address of its family out\<close>

lemma flipped_differs:
  fixes x m :: "8 word"
  assumes "bit m 7"
  shows "x AND m \<noteq> (NOT x) AND m"
proof
  assume "x AND m = (NOT x) AND m"
  then have "bit (x AND m) 7 = bit ((NOT x) AND m) 7" by simp
  with assms show False by (simp add: bit_and_iff bit_not_iff)
qed

lemma and_bytes_flipped:
  assumes "bit (m ! 0) 7" "nn \<noteq> []" "m \<noteq> []"
  shows "and_bytes nn m \<noteq> and_bytes ((NOT (hd nn)) # tl nn) m"
  using assms flipped_differs [of "m ! 0" "hd nn"]
  by (cases nn; cases m) (auto simp: and_bytes_def)

lemma proper_net_misses:
  assumes "proper_net n"
  shows "\<exists>a. length a = length (net_IP n) \<and> \<not> net_contains n a"
proof -
  let ?a = "(NOT (hd (net_IP n))) # tl (net_IP n)"
  from assms obtain ones where ones: "0 < ones" and
    sh: "length (net_IP n) = 4 \<and> net_Mask n = CIDRMask ones 32
         \<or> length (net_IP n) = 16 \<and> to4 (net_IP n) = None \<and> net_Mask n = CIDRMask ones 128"
    unfolding proper_net_def by blast
  from sh have ne: "net_IP n \<noteq> []" by auto
  from sh have mne: "net_Mask n \<noteq> []" by (auto simp: CIDRMask_def)
  from sh have top: "bit (net_Mask n ! 0) 7"
    using CIDRMask_hd_top_bit [OF ones, of 32] CIDRMask_hd_top_bit [OF ones, of 128] by auto
  note diff = and_bytes_flipped [OF top ne mne]
  have len: "length ?a = length (net_IP n)" using ne by simp
  have "\<not> net_contains n ?a"
    using sh diff len
    by (auto simp: net_contains_def network_number_and_mask_def to4_def Let_def split: option.splits if_splits)
  with len show ?thesis by blast
qed


lemma parse_proxies_example:
  "ParseProxies ''10.0.0.0/8, 192.168.1.1'' =
     Inr [\<lparr>net_IP = [10, 0, 0, 0], net_Mask = [255, 0, 0, 0]\<rparr>,
          \<lparr>net_IP = [192, 168, 1, 1], net_Mask = [255, 255, 255, 255]\<rparr>]"
  by (simp add: ParseProxies_def parse_proxy_def splitList_def trim_space_def is_space_def
    maxTrustedProxies_def go_simps upt_conv_Cons)


subsection \<open>Attribution of a request\<close>



end
