(* ===== verification/Glob_Spec.thy ===== *)
theory Glob_Spec
  imports Go_Strings
begin

section \<open>Glob patterns: the declarative language and the greedy matcher\<close>

text \<open>
  The repository matches wildcard patterns in four places (\<^verbatim>\<open>pkg/auditrules/match.go\<close>,
  \<^verbatim>\<open>pkg/policy/match.go\<close>, \<^verbatim>\<open>kvisior/internal/store/auditsilence.go\<close>,
  \<^verbatim>\<open>sentry-audit/internal/logtail/record.go\<close>), each with its own greedy
  loop over \<^verbatim>\<open>strings.Split(pattern, "*")\<close>. This theory states what a pattern means, independently
  of any algorithm (\<open>glob_lang\<close>), proves that greedy leftmost matching decides it
  (\<open>greedy_gaps\<close>), and gives the interface \<open>glob_matcher\<close> that the modelled matchers implement.
\<close>

abbreviation star :: char where "star \<equiv> CHR ''*''"

inductive glob_lang :: "string \<Rightarrow> string \<Rightarrow> bool" where
  glob_nil: "glob_lang [] []"
| glob_lit: "c \<noteq> star \<Longrightarrow> glob_lang p s \<Longrightarrow> glob_lang (c # p) (c # s)"
| glob_star: "glob_lang p s \<Longrightarrow> glob_lang (star # p) (t @ s)"

inductive_simps glob_lang_Nil: "glob_lang [] s"
inductive_simps glob_lang_Cons: "glob_lang (c # p) s"

lemma glob_lang_star_iff: "glob_lang (star # p) s \<longleftrightarrow> (\<exists>t s'. s = t @ s' \<and> glob_lang p s')"
  by (auto simp: glob_lang_Cons)

lemma glob_lang_lit_iff: "c \<noteq> star \<Longrightarrow> glob_lang (c # p) s \<longleftrightarrow> (\<exists>s'. s = c # s' \<and> glob_lang p s')"
  by (auto simp: glob_lang_Cons)

lemma glob_lang_literal: "star \<notin> set p \<Longrightarrow> glob_lang p s \<longleftrightarrow> p = s"
proof (induction p arbitrary: s)
  case Nil
  show ?case by (simp add: glob_lang_Nil eq_commute)
next
  case (Cons c p)
  from Cons.prems have c: "c \<noteq> star" and p: "star \<notin> set p" by auto
  show ?case unfolding glob_lang_lit_iff [OF c] Cons.IH [OF p] by blast
qed

lemma glob_lang_append_literal:
  "star \<notin> set p \<Longrightarrow> glob_lang (p @ q) s \<longleftrightarrow> (\<exists>s'. s = p @ s' \<and> glob_lang q s')"
proof (induction p arbitrary: s)
  case (Cons c p)
  from Cons.prems have c: "c \<noteq> star" and p: "star \<notin> set p" by auto
  show ?case unfolding append_Cons glob_lang_lit_iff [OF c] Cons.IH [OF p] by blast
qed simp

lemma glob_lang_only_star [simp]: "glob_lang [star] s"
  using glob_star [OF glob_nil, of s] by simp

lemma glob_lang_prefix_pattern: "star \<notin> set p \<Longrightarrow> glob_lang (p @ [star]) s \<longleftrightarrow> prefix p s"
  by (auto simp: glob_lang_append_literal prefix_def)

subsection \<open>Matching by parts\<close>

text \<open>
  \<open>gaps ws s\<close>: \<open>s\<close> is an arbitrary gap, then the first part, then a gap, and so on, and ends
  with the last part. This is what remains of a pattern after its first part.
\<close>

fun gaps :: "string list \<Rightarrow> string \<Rightarrow> bool" where
  "gaps [] s = (s = [])"
| "gaps (w # ws) s = (\<exists>g s'. s = g @ w @ s' \<and> gaps ws s')"

lemma glob_lang_split:
  "glob_lang p s \<longleftrightarrow> (\<exists>w ws s'. split_char star p = w # ws \<and> s = w @ s' \<and> gaps ws s')"
proof (induction p arbitrary: s)
  case Nil
  then show ?case by (simp add: glob_lang_Nil)
next
  case (Cons c p)
  obtain w ws where sp: "split_char star p = w # ws" by (cases "split_char star p") auto
  show ?case
  proof (cases "c = star")
    case True
    have "glob_lang (c # p) s \<longleftrightarrow> (\<exists>t s''. s = t @ s'' \<and> glob_lang p s'')"
      unfolding True by (rule glob_lang_star_iff)
    also have "\<dots> \<longleftrightarrow> (\<exists>t s'. s = t @ w @ s' \<and> gaps ws s')" using Cons.IH sp by auto
    also have "\<dots> \<longleftrightarrow> (\<exists>w' ws' s'. split_char star (c # p) = w' # ws' \<and> s = w' @ s' \<and> gaps ws' s')"
      using True sp by simp
    finally show ?thesis .
  next
    case False
    then show ?thesis using Cons.IH sp by (auto simp: glob_lang_lit_iff)
  qed
qed

text \<open>The greedy loop: every part but the last takes its leftmost occurrence, the last is a suffix.\<close>

fun greedy :: "string list \<Rightarrow> string \<Rightarrow> bool" where
  "greedy [] s = (s = [])"
| "greedy [w] s = has_suffix s w"
| "greedy (w # ws) s =
     (case index_of s w of None \<Rightarrow> False | Some i \<Rightarrow> greedy ws (drop (i + length w) s))"

lemma gaps_extend: "ws \<noteq> [] \<Longrightarrow> gaps ws s \<Longrightarrow> gaps ws (t @ s)"
proof (cases ws)
  case (Cons w vs)
  assume "gaps ws s"
  with Cons obtain g s' where "s = g @ w @ s'" "gaps vs s'" by auto
  then have "t @ s = (t @ g) @ w @ s' \<and> gaps vs s'" by simp
  with Cons show ?thesis by (metis gaps.simps(2))
qed simp

lemma greedy_gaps: "greedy ws s \<longleftrightarrow> gaps ws s"
proof (induction ws s rule: greedy.induct)
  case (1 s)
  then show ?case by simp
next
  case (2 w s)
  then show ?case by (auto simp: has_suffix_def suffix_def)
next
  case (3 w v vs s)
  show ?case
  proof
    assume "greedy (w # v # vs) s"
    then obtain i where i: "index_of s w = Some i" and g: "greedy (v # vs) (drop (i + length w) s)"
      by (auto split: option.splits)
    from index_of_SomeD [OF i] obtain u x where s: "s = u @ w @ x" "length u = i" by blast
    with g "3" [OF i] have "gaps (v # vs) x" by simp
    with s show "gaps (w # v # vs) s" by auto
  next
    assume "gaps (w # v # vs) s"
    then obtain g x where s: "s = g @ w @ x" and x: "gaps (v # vs) x" by auto
    from index_of_least [OF s] obtain i where i: "i \<le> length g" "index_of s w = Some i" by blast
    have "drop (i + length w) s = drop (i + length w) (g @ w) @ x" using s i(1) by simp
    then have "gaps (v # vs) (drop (i + length w) s)" using gaps_extend [OF _ x] by (metis list.distinct(1))
    with i(2) "3" [OF i(2)] show "greedy (w # v # vs) s" by simp
  qed
qed

lemma greedy_decides_glob:
  "split_char star p = w # ws \<Longrightarrow> has_prefix s w \<and> greedy ws (drop (length w) s) \<longleftrightarrow> glob_lang p s"
  by (auto simp: glob_lang_split greedy_gaps has_prefix_def prefix_def)

subsection \<open>The interface of a glob matcher\<close>

text \<open>
  \<open>mt p s\<close>: does the pattern \<open>p\<close> match \<open>s\<close>; \<open>norm\<close> is the normalisation applied to both
  (lower-casing, or the identity). The law is that the matcher decides the pattern language on
  normalised strings; what follows holds for each of the repository's matchers.
\<close>

locale glob_matcher =
  fixes mt :: "string \<Rightarrow> string \<Rightarrow> bool"
    and norm :: "string \<Rightarrow> string"
  assumes mt_iff: "mt p s \<longleftrightarrow> glob_lang (norm p) (norm s)"
    and norm_append: "norm (p @ q) = norm p @ norm q"
    and norm_star: "norm [star] = [star]"
    and star_in_norm: "star \<in> set (norm p) \<longleftrightarrow> star \<in> set p"
begin

lemma norm_Nil: "norm [] = []"
  using norm_append [of "[]" "[]"] by simp

lemma matches_everything: "mt [star] s"
  by (simp add: mt_iff norm_star)

lemma literal_matches_itself_only: "star \<notin> set p \<Longrightarrow> mt p s \<longleftrightarrow> norm p = norm s"
  by (simp add: mt_iff glob_lang_literal star_in_norm)

lemma prefix_pattern: "star \<notin> set p \<Longrightarrow> mt (p @ [star]) s \<longleftrightarrow> prefix (norm p) (norm s)"
  by (simp add: mt_iff norm_append norm_star glob_lang_prefix_pattern star_in_norm)

lemma double_star: "mt (p @ star # star # q) s \<longleftrightarrow> mt (p @ star # q) s"
proof -
  have n: "norm (p @ star # star # q) = norm p @ star # star # norm q"
    "norm (p @ star # q) = norm p @ star # norm q"
    using norm_append [of p "star # star # q"] norm_append [of p "star # q"]
      norm_append [of "[star]" "star # q"] norm_append [of "[star]" q]
    by (simp_all add: norm_star)
  have "glob_lang (r @ star # star # q') s' \<longleftrightarrow> glob_lang (r @ star # q') s'" for r q' s'
  proof (induction r arbitrary: s')
    case Nil
    have "(\<exists>t u. s' = t @ u \<and> (\<exists>t' v. u = t' @ v \<and> glob_lang q' v)) \<longleftrightarrow> (\<exists>t v. s' = t @ v \<and> glob_lang q' v)"
      (is "?L \<longleftrightarrow> ?R")
    proof
      assume ?L
      then obtain t t' v where "s' = (t @ t') @ v" "glob_lang q' v" by auto
      then show ?R by blast
    next
      assume ?R
      then obtain t v where "s' = t @ v" "v = [] @ v" "glob_lang q' v" by auto
      then show ?L by blast
    qed
    then show ?case by (simp only: append_Nil glob_lang_star_iff)
  next
    case (Cons c r)
    then show ?case by (cases "c = star") (auto simp: glob_lang_star_iff glob_lang_lit_iff)
  qed
  then show ?thesis by (simp add: mt_iff n)
qed

end

end
