(* ===== verification/Audit_Match.thy ===== *)
theory Audit_Match
  imports Client_IP Glob_Spec
begin

section \<open>Matching audit events against rules (pkg/auditrules/match.go)\<close>

text \<open>
  The audit event, the glob matcher \<^verbatim>\<open>Glob\<close>, the compiled form of a rule and the \<^verbatim>\<open>Matcher\<close>
  that indexes compiled rules by action. Shown: \<^verbatim>\<open>Glob\<close> decides the pattern language, and the
  indexed, compiled matcher returns exactly the rules that a direct reading of the rule
  specification selects, in rule order.
\<close>

record Event =
  ev_ID :: string
  ev_Timestamp :: gotime
  ev_User :: string
  ev_ImpersonatedUser :: string
  ev_ImpersonatedGroups :: "string list"
  ev_ServiceAccount :: string
  ev_Groups :: "string list"
  ev_SourceIPs :: "string list"
  ev_ClientIP :: string
  ev_UserAgent :: string
  ev_Kind :: string
  ev_Resource :: string
  ev_WebhookType :: string
  ev_Namespace :: string
  ev_Name :: string
  ev_UID :: string
  ev_ResourceVersion :: string
  ev_PrevResourceVersion :: string
  ev_Unchanged :: bool
  ev_DryRun :: bool
  ev_CompletedAt :: "gotime option"
  ev_Source :: string
  ev_Attribution :: string
  ev_Container :: string
  ev_Commands :: "string list"
  ev_Ports :: "int list"
  ev_Allowed :: "bool option"
  ev_StatusCode :: int
  ev_AuditID :: string

definition zero_Event :: Event where
  "zero_Event = \<lparr>ev_ID = [], ev_Timestamp = 0, ev_User = [], ev_ImpersonatedUser = [],
     ev_ImpersonatedGroups = [], ev_ServiceAccount = [], ev_Groups = [], ev_SourceIPs = [],
     ev_ClientIP = [], ev_UserAgent = [], ev_Kind = [], ev_Resource = [], ev_WebhookType = [],
     ev_Namespace = [], ev_Name = [], ev_UID = [], ev_ResourceVersion = [],
     ev_PrevResourceVersion = [], ev_Unchanged = False, ev_DryRun = False, ev_CompletedAt = None,
     ev_Source = [], ev_Attribution = [], ev_Container = [], ev_Commands = [], ev_Ports = [],
     ev_Allowed = None, ev_StatusCode = 0, ev_AuditID = []\<rparr>"

definition AttributionUnconfirmed :: string where "AttributionUnconfirmed = ''unconfirmed''"

definition IsAllowed :: "Event \<Rightarrow> bool" where
  "IsAllowed e = (ev_Allowed e = None \<or> the (ev_Allowed e))"

definition SourceIP :: "Event \<Rightarrow> string" where
  "SourceIP e = (if ev_ClientIP e \<noteq> [] then ev_ClientIP e else ClientIP (ev_SourceIPs e) [])"

text \<open>The backward scan of \<^verbatim>\<open>ForwardedClaims\<close>; \<^verbatim>\<open>end\<close> stays \<open>None\<close> (\<open>-1\<close>) when nothing is found.\<close>

definition last_position :: "string \<Rightarrow> string list \<Rightarrow> nat option" where
  "last_position client ips = List.find (\<lambda>i. ips ! i = client) (rev [0..<length ips])"

definition ForwardedClaims :: "Event \<Rightarrow> string list" where
  "ForwardedClaims e =
     (let client = SourceIP e in
      if client = [] then []
      else case last_position client (ev_SourceIPs e) of
             None \<Rightarrow> []
           | Some n \<Rightarrow> if n = 0 then [] else filter (\<lambda>ip. ip \<noteq> client) (take n (ev_SourceIPs e)))"

definition humanSystemUsers :: "string list" where "humanSystemUsers = [''system:admin'']"

definition IsServiceIdentity :: "string \<Rightarrow> bool" where
  "IsServiceIdentity user = (has_prefix user ''system:'' \<and> user \<notin> set humanSystemUsers)"

definition IsPerson :: "string \<Rightarrow> bool" where
  "IsPerson user = (user \<noteq> [] \<and> user \<noteq> ''unknown'' \<and> \<not> IsServiceIdentity user)"

subsection \<open>Glob\<close>

text \<open>The loop over the middle parts; \<open>last\<close> is compared as a suffix once they are consumed.\<close>

fun glob_loop :: "string list \<Rightarrow> string \<Rightarrow> string \<Rightarrow> bool" where
  "glob_loop [] lst s = has_suffix s lst"
| "glob_loop (p # ps) lst s =
     (case index_of s p of None \<Rightarrow> False | Some i \<Rightarrow> glob_loop ps lst (drop (i + length p) s))"

definition Glob :: "string \<Rightarrow> string \<Rightarrow> bool" where
  "Glob pattern0 s0 =
     (let pattern = to_lower pattern0; s = to_lower s0 in
      if \<not> contains pattern ''*'' then pattern = s
      else let parts = split_char (CHR ''*'') pattern in
        if \<not> has_prefix s (hd parts) then False
        else glob_loop (butlast (tl parts)) (last parts) (drop (length (hd parts)) s))"

definition globAny :: "string list \<Rightarrow> string \<Rightarrow> bool" where
  "globAny patterns s = list_ex (\<lambda>p. Glob p s) patterns"

subsection \<open>Compiled rules\<close>

datatype ipPattern = IPNet ipnet | IPGlob string

text \<open>
  Go's sets (\<^verbatim>\<open>map[string]bool\<close>) are duplicate-free lists of their keys; a nil map is \<open>None\<close>.
  A nil slice and an empty one coincide here because \<^verbatim>\<open>splitList\<close> returns nil when it finds nothing.
\<close>

record compiled =
  c_rule :: Rule
  c_kinds :: "string list"
  c_resources :: "string list option"
  c_clusters :: "string list option"
  c_ns :: "string list"
  c_nsExclude :: "string list"
  c_objName :: "string list"
  c_users :: "string list"
  c_usersExclude :: "string list"
  c_ips :: "ipPattern list"
  c_cmd :: string

fun compile_ips :: "string list \<Rightarrow> ipPattern list" where
  "compile_ips [] = []"
| "compile_ips (it # its) =
     (if contains it ''/'' then
        (case parse_CIDR it of Some n \<Rightarrow> IPNet n # compile_ips its | None \<Rightarrow> compile_ips its)
      else IPGlob it # compile_ips its)"

definition compile :: "Rule \<Rightarrow> compiled" where
  "compile r = (let s = r_Spec r in
     \<lparr>c_rule = r,
      c_kinds = remdups (s_Kinds s),
      c_resources = (if s_Resources s \<noteq> [] then Some (remdups (s_Resources s)) else None),
      c_clusters = (if s_Clusters s \<noteq> [] then Some (remdups (s_Clusters s)) else None),
      c_ns = (if s_NS s \<noteq> [] \<and> s_NS s \<noteq> ''*'' then splitList (s_NS s) else []),
      c_nsExclude = splitList (s_NSExclude s),
      c_objName = splitList (s_ObjName s),
      c_users = splitList (s_Users s),
      c_usersExclude = splitList (s_UsersExclude s),
      c_ips = compile_ips (splitList (s_IPList s)),
      c_cmd = to_lower (s_Cmd s)\<rparr>)"

definition ipHit :: "compiled \<Rightarrow> string \<Rightarrow> bool" where
  "ipHit c ip =
     (let parsed = parse_IP ip in
      list_ex (\<lambda>p. case p of
                 IPNet n \<Rightarrow> (case parsed of None \<Rightarrow> False | Some a \<Rightarrow> net_contains n a)
               | IPGlob g \<Rightarrow> Glob g ip) (c_ips c))"

definition matches :: "compiled \<Rightarrow> string \<Rightarrow> Event \<Rightarrow> bool" where
  "matches c cluster ev =
     (let s = r_Spec (c_rule c) in
      if (case c_clusters c of None \<Rightarrow> False | Some m \<Rightarrow> cluster \<notin> set m) then False
      else if (case c_resources c of None \<Rightarrow> False | Some m \<Rightarrow> ev_Resource ev \<notin> set m) then False
      else if c_ns c \<noteq> [] \<and> \<not> globAny (c_ns c) (ev_Namespace ev) then False
      else if c_nsExclude c \<noteq> [] \<and> globAny (c_nsExclude c) (ev_Namespace ev) then False
      else if c_objName c \<noteq> [] \<and> \<not> globAny (c_objName c) (ev_Name ev) then False
      else if s_Subject s = SubjectPeople \<and> \<not> IsPerson (ev_User ev) then False
      else if s_Subject s = SubjectSA \<and> \<not> IsServiceIdentity (ev_User ev) then False
      else if c_users c \<noteq> [] \<and> \<not> globAny (c_users c) (ev_User ev) then False
      else if c_usersExclude c \<noteq> [] \<and> globAny (c_usersExclude c) (ev_User ev) then False
      else if s_Forwarded s \<and> ForwardedClaims ev = [] then False
      else if s_IPMode s \<noteq> IPAny \<and>
              (let ip = SourceIP ev in ip = [] \<or> (s_IPMode s = IPIn) \<noteq> ipHit c ip) then False
      else if s_Result s = ResultAllowed \<and> (ev_Allowed ev = None \<or> \<not> IsAllowed ev) then False
      else if s_Result s = ResultDenied \<and> (ev_Allowed ev = None \<or> IsAllowed ev) then False
      else if c_cmd c \<noteq> [] \<and> \<not> contains (to_lower (join '' '' (ev_Commands ev))) (c_cmd c) then False
      else True)"

subsection \<open>The matcher\<close>

record Matcher =
  m_byKind :: "string \<rightharpoonup> compiled list"
  m_count :: nat

definition NewMatcher :: Matcher where
  "NewMatcher = \<lparr>m_byKind = Map.empty, m_count = 0\<rparr>"

text \<open>\<^verbatim>\<open>byKind[k] = append(byKind[k], c)\<close> for every key of \<^verbatim>\<open>c.kinds\<close>, in any order.\<close>

fun index_kinds :: "compiled \<Rightarrow> string list \<Rightarrow> (string \<rightharpoonup> compiled list) \<Rightarrow> (string \<rightharpoonup> compiled list)" where
  "index_kinds c [] m = m"
| "index_kinds c (k # ks) m =
     index_kinds c ks (m(k \<mapsto> (case m k of None \<Rightarrow> [] | Some cs \<Rightarrow> cs) @ [c]))"

fun replace_loop :: "Rule list \<Rightarrow> (string \<rightharpoonup> compiled list) \<Rightarrow> nat \<Rightarrow> (string \<rightharpoonup> compiled list) \<times> nat" where
  "replace_loop [] m n = (m, n)"
| "replace_loop (r # rs) m n =
     (if \<not> r_Enabled r \<and> \<not> r_Alert r then replace_loop rs m n
      else let c = compile r in replace_loop rs (index_kinds c (c_kinds c) m) (n + 1))"

definition Replace :: "Matcher \<Rightarrow> Rule list \<Rightarrow> Matcher" where
  "Replace m rules = (let (byKind, n) = replace_loop rules Map.empty 0 in
     m\<lparr>m_byKind := byKind, m_count := n\<rparr>)"

definition Len :: "Matcher \<Rightarrow> nat" where "Len m = m_count m"

fun match_loop :: "compiled list \<Rightarrow> string \<Rightarrow> Event \<Rightarrow> bool \<Rightarrow> Rule list" where
  "match_loop [] cluster ev onlyIPRules = []"
| "match_loop (c # cs) cluster ev onlyIPRules =
     (if onlyIPRules \<and> s_IPMode (r_Spec (c_rule c)) = IPAny \<and> \<not> s_Forwarded (r_Spec (c_rule c))
      then match_loop cs cluster ev onlyIPRules
      else if matches c cluster ev then c_rule c # match_loop cs cluster ev onlyIPRules
      else match_loop cs cluster ev onlyIPRules)"

definition Match :: "Matcher \<Rightarrow> string \<Rightarrow> Event \<Rightarrow> bool \<Rightarrow> Rule list" where
  "Match m cluster ev onlyIPRules =
     (let candidates = (case m_byKind m (ev_Kind ev) of None \<Rightarrow> [] | Some cs \<Rightarrow> cs)
      in match_loop candidates cluster ev onlyIPRules)"

subsection \<open>Glob decides the pattern language\<close>

lemma glob_loop_greedy: "glob_loop ps l s = greedy (ps @ [l]) s"
proof (induction ps l s rule: glob_loop.induct)
  case (2 p ps lst s)
  then show ?case by (cases "ps @ [lst]") (auto split: option.splits)
qed simp

lemma Glob_glob_lang: "Glob p s \<longleftrightarrow> glob_lang (to_lower p) (to_lower s)"
proof (cases "star \<in> set p")
  case False
  then show ?thesis by (auto simp: Glob_def contains_singleton glob_lang_literal)
next
  case True
  let ?p = "to_lower p"
  have two: "2 \<le> length (split_char star ?p)" using True by (intro length_split_char_sep) simp
  then obtain w ws where sp: "split_char star ?p = w # ws" "ws \<noteq> []"
    by (cases "split_char star ?p"; cases "tl (split_char star ?p)") auto
  have "Glob p s = (has_prefix (to_lower s) w \<and> greedy ws (drop (length w) (to_lower s)))"
    using True sp by (auto simp: Glob_def contains_singleton glob_loop_greedy Let_def)
  then show ?thesis using greedy_decides_glob [OF sp(1)] by simp
qed

interpretation audit_glob: glob_matcher Glob to_lower
  by unfold_locales (simp_all add: Glob_glob_lang)

text \<open>C33. \<^verbatim>\<open>Glob\<close>, with its leftmost-occurrence loop, accepts exactly the strings that the pattern
  denotes: case-insensitive literals with each star standing for any text. A star alone accepts everything and
  doubling a star changes nothing.\<close>

theorem Glob_decides_pattern_language:
  "(Glob p s \<longleftrightarrow> glob_lang (to_lower p) (to_lower s)) \<and> Glob ''*'' s
   \<and> Glob (p @ ''**'' @ q) s = Glob (p @ ''*'' @ q) s"
  using Glob_glob_lang audit_glob.matches_everything audit_glob.double_star by simp

subsection \<open>The declarative reading of a rule\<close>

definition pats :: "string list \<Rightarrow> string \<Rightarrow> bool" where
  "pats ps s = (\<exists>p\<in>set ps. glob_lang (to_lower p) (to_lower s))"

text \<open>An entry of the address list: a network, or a pattern over the printed address.\<close>

definition address_in :: "string \<Rightarrow> string \<Rightarrow> bool" where
  "address_in it ip =
     (if CHR ''/'' \<in> set it
      then (\<exists>n a. parse_CIDR it = Some n \<and> parse_IP ip = Some a \<and> net_contains n a)
      else glob_lang (to_lower it) (to_lower ip))"

definition subject_ok :: "string \<Rightarrow> string \<Rightarrow> bool" where
  "subject_ok sub user =
     ((sub = SubjectPeople \<longrightarrow> IsPerson user) \<and> (sub = SubjectSA \<longrightarrow> IsServiceIdentity user))"

definition result_ok :: "string \<Rightarrow> bool option \<Rightarrow> bool" where
  "result_ok res allowed =
     ((res = ResultAllowed \<longrightarrow> allowed = Some True) \<and> (res = ResultDenied \<longrightarrow> allowed = Some False))"

definition rule_selects :: "Rule \<Rightarrow> string \<Rightarrow> Event \<Rightarrow> bool" where
  "rule_selects r cluster ev \<longleftrightarrow> (let s = r_Spec r in
     ev_Kind ev \<in> set (s_Kinds s)
   \<and> (s_Clusters s = [] \<or> cluster \<in> set (s_Clusters s))
   \<and> (s_Resources s = [] \<or> ev_Resource ev \<in> set (s_Resources s))
   \<and> (splitList (s_NS s) = [] \<or> pats (splitList (s_NS s)) (ev_Namespace ev))
   \<and> \<not> pats (splitList (s_NSExclude s)) (ev_Namespace ev)
   \<and> (splitList (s_ObjName s) = [] \<or> pats (splitList (s_ObjName s)) (ev_Name ev))
   \<and> subject_ok (s_Subject s) (ev_User ev)
   \<and> (splitList (s_Users s) = [] \<or> pats (splitList (s_Users s)) (ev_User ev))
   \<and> \<not> pats (splitList (s_UsersExclude s)) (ev_User ev)
   \<and> (s_Forwarded s \<longrightarrow> ForwardedClaims ev \<noteq> [])
   \<and> (s_IPMode s \<noteq> IPAny \<longrightarrow> SourceIP ev \<noteq> [] \<and>
        (s_IPMode s = IPIn \<longleftrightarrow> (\<exists>it\<in>set (splitList (s_IPList s)). address_in it (SourceIP ev))))
   \<and> result_ok (s_Result s) (ev_Allowed ev)
   \<and> contains (to_lower (join '' '' (ev_Commands ev))) (to_lower (s_Cmd s)))"

lemma globAny_pats: "globAny ps s = pats ps s"
  by (simp add: globAny_def pats_def list_ex_iff Glob_glob_lang)

lemma pats_Nil [simp]: "\<not> pats [] s"
  by (simp add: pats_def)

lemma pats_star: "pats [''*''] s"
  using audit_glob.matches_everything [of s] by (simp add: pats_def Glob_glob_lang)

lemma splitList_Nil [simp]: "splitList [] = []"
  by (simp add: splitList_def)

lemma splitList_star [simp]: "splitList ''*'' = [''*'']"
  by (simp add: splitList_def trim_space_def is_space_def)

lemma ipHit_compile:
  "ipHit (compile r) ip = (\<exists>it\<in>set (splitList (s_IPList (r_Spec r))). address_in it ip)"
proof -
  have e: "list_ex (\<lambda>p. case p of IPNet n \<Rightarrow> (case parse_IP ip of None \<Rightarrow> False | Some a \<Rightarrow> net_contains n a)
           | IPGlob g \<Rightarrow> Glob g ip) (compile_ips its) = (\<exists>it\<in>set its. address_in it ip)" for its
  proof (induction its)
    case (Cons it its)
    have "(\<exists>it'\<in>set (it # its). address_in it' ip) = (address_in it ip \<or> (\<exists>it'\<in>set its. address_in it' ip))"
      by simp
    then show ?case unfolding Cons.IH [symmetric]
      by (cases "parse_CIDR it"; cases "parse_IP ip")
         (simp_all add: address_in_def contains_singleton Glob_glob_lang)
  qed simp
  show ?thesis unfolding ipHit_def compile_def Let_def by (simp add: e)
qed

lemma compile_sel [simp]:
  "c_rule (compile r) = r"
  "c_kinds (compile r) = remdups (s_Kinds (r_Spec r))"
  "c_nsExclude (compile r) = splitList (s_NSExclude (r_Spec r))"
  "c_objName (compile r) = splitList (s_ObjName (r_Spec r))"
  "c_users (compile r) = splitList (s_Users (r_Spec r))"
  "c_usersExclude (compile r) = splitList (s_UsersExclude (r_Spec r))"
  "c_cmd (compile r) = to_lower (s_Cmd (r_Spec r))"
  by (simp_all add: compile_def Let_def)

lemma compile_guards:
  "(case c_clusters (compile r) of None \<Rightarrow> False | Some m \<Rightarrow> x \<notin> set m)
     = (s_Clusters (r_Spec r) \<noteq> [] \<and> x \<notin> set (s_Clusters (r_Spec r)))"
  "(case c_resources (compile r) of None \<Rightarrow> False | Some m \<Rightarrow> x \<notin> set m)
     = (s_Resources (r_Spec r) \<noteq> [] \<and> x \<notin> set (s_Resources (r_Spec r)))"
  "(c_ns (compile r) \<noteq> [] \<and> \<not> pats (c_ns (compile r)) x)
     = (splitList (s_NS (r_Spec r)) \<noteq> [] \<and> \<not> pats (splitList (s_NS (r_Spec r))) x)"
  by (auto simp: compile_def Let_def pats_star)

lemma result_guards:
  "(res = ResultAllowed \<and> (ev_Allowed ev = None \<or> \<not> IsAllowed ev))
     = (res = ResultAllowed \<and> ev_Allowed ev \<noteq> Some True)"
  "(res = ResultDenied \<and> (ev_Allowed ev = None \<or> IsAllowed ev))
     = (res = ResultDenied \<and> ev_Allowed ev \<noteq> Some False)"
  by (cases "ev_Allowed ev"; simp add: IsAllowed_def)+

lemma exclude_guard: "(ps \<noteq> [] \<and> pats ps s) = pats ps s"
  by auto

lemma matches_compile:
  assumes "ev_Kind ev \<in> set (s_Kinds (r_Spec r))"
  shows "matches (compile r) cluster ev = rule_selects r cluster ev"
proof -
  have cmd: "(to_lower c \<noteq> [] \<and> \<not> contains t (to_lower c)) = (\<not> contains t (to_lower c))" for c t
    by (cases c) auto
  have guard: "(if b then False else P) \<longleftrightarrow> \<not> b \<and> P" for b P by simp
  show ?thesis
    unfolding matches_def rule_selects_def Let_def globAny_pats compile_guards compile_sel
      result_guards ipHit_compile cmd subject_ok_def result_ok_def exclude_guard
    using assms
    by (simp only: guard de_Morgan_conj de_Morgan_disj not_not imp_conv_disj conj_assoc simp_thms)
qed

subsection \<open>The index loses and reorders nothing\<close>

lemma index_kinds_lookup:
  "distinct ks \<Longrightarrow> index_kinds c ks m k =
     (if k \<in> set ks then Some ((case m k of None \<Rightarrow> [] | Some cs \<Rightarrow> cs) @ [c]) else m k)"
  by (induction ks arbitrary: m) auto

definition active :: "Rule \<Rightarrow> bool" where
  "active r = (r_Enabled r \<or> r_Alert r)"

definition candidates :: "(string \<rightharpoonup> compiled list) \<Rightarrow> string \<Rightarrow> compiled list" where
  "candidates m k = (case m k of None \<Rightarrow> [] | Some cs \<Rightarrow> cs)"

lemma replace_loop_candidates:
  "candidates (fst (replace_loop rs m n)) k
   = candidates m k @ map compile (filter (\<lambda>r. active r \<and> k \<in> set (s_Kinds (r_Spec r))) rs)"
proof (induction rs arbitrary: m n)
  case (Cons r rs)
  have "candidates (index_kinds (compile r) (c_kinds (compile r)) m) k
        = candidates m k @ (if k \<in> set (s_Kinds (r_Spec r)) then [compile r] else [])"
    by (simp add: candidates_def index_kinds_lookup split: option.splits)
  with Cons.IH show ?case by (simp add: active_def Let_def)
qed simp

lemma replace_loop_count: "snd (replace_loop rs m n) = n + length (filter active rs)"
  by (induction rs arbitrary: m n) (simp_all add: active_def Let_def)

lemma match_loop_filter:
  "match_loop cs cluster ev only = map c_rule (filter (\<lambda>c.
     (only \<longrightarrow> s_IPMode (r_Spec (c_rule c)) \<noteq> IPAny \<or> s_Forwarded (r_Spec (c_rule c)))
     \<and> matches c cluster ev) cs)"
  by (induction cs) auto

lemma candidates_filter:
  "map c_rule (filter P (map compile (filter Q rs))) = filter (\<lambda>r. Q r \<and> P (compile r)) rs"
  by (induction rs) auto

lemma Match_Replace:
  "Match (Replace m rules) cluster ev only = filter (\<lambda>r. active r
     \<and> (only \<longrightarrow> s_IPMode (r_Spec r) \<noteq> IPAny \<or> s_Forwarded (r_Spec r))
     \<and> rule_selects r cluster ev) rules"
proof -
  have "(case m_byKind (Replace m rules) k of None \<Rightarrow> [] | Some cs \<Rightarrow> cs)
        = map compile (filter (\<lambda>r. active r \<and> k \<in> set (s_Kinds (r_Spec r))) rules)" for k
    using replace_loop_candidates [of rules Map.empty 0 k]
    by (simp add: Replace_def candidates_def case_prod_beta)
  then have "Match (Replace m rules) cluster ev only = filter (\<lambda>r.
      (active r \<and> ev_Kind ev \<in> set (s_Kinds (r_Spec r)))
      \<and> (only \<longrightarrow> s_IPMode (r_Spec r) \<noteq> IPAny \<or> s_Forwarded (r_Spec r))
      \<and> matches (compile r) cluster ev) rules"
    by (simp add: Match_def match_loop_filter candidates_filter)
  also have "\<dots> = filter (\<lambda>r. active r
     \<and> (only \<longrightarrow> s_IPMode (r_Spec r) \<noteq> IPAny \<or> s_Forwarded (r_Spec r))
     \<and> rule_selects r cluster ev) rules"
    using matches_compile by (intro filter_cong refl) (auto simp: rule_selects_def Let_def)
  finally show ?thesis .
qed

text \<open>C1. After \<^verbatim>\<open>Replace\<close>, the matcher that indexes compiled rules by action returns, for any
  event, exactly the active rules whose specification selects the event (read directly from the
  rule, patterns by their language), in rule order and each as often as it was loaded; with
  \<^verbatim>\<open>onlyIPRules\<close> only rules on addresses or forwarded claims remain. \<^verbatim>\<open>Len\<close> counts the active
  rules.\<close>

theorem Match_selects_exactly:
  "Match (Replace m rules) cluster ev only = filter (\<lambda>r. (r_Enabled r \<or> r_Alert r)
      \<and> (only \<longrightarrow> s_IPMode (r_Spec r) \<noteq> IPAny \<or> s_Forwarded (r_Spec r))
      \<and> rule_selects r cluster ev) rules
   \<and> Len (Replace m rules) = length (filter (\<lambda>r. r_Enabled r \<or> r_Alert r) rules)"
proof -
  have "Len (Replace m rules) = length (filter active rules)"
    using replace_loop_count [of rules Map.empty 0] by (simp add: Len_def Replace_def case_prod_beta)
  moreover have "active = (\<lambda>r. r_Enabled r \<or> r_Alert r)" by (simp add: active_def fun_eq_iff)
  ultimately show ?thesis by (simp add: Match_Replace active_def)
qed

definition exec_rule :: Rule where
  "exec_rule = zero_Rule\<lparr>r_ID := ''x'', r_Enabled := True,
     r_Spec := zero_Spec\<lparr>s_Kinds := [''exec''], s_NS := ''prod-*'', s_IPMode := ''any''\<rparr>\<rparr>"

definition exec_event :: Event where
  "exec_event = zero_Event\<lparr>ev_Kind := ''exec'', ev_Namespace := ''Prod-eu''\<rparr>"

theorem Match_selects_exactly_witness:
  "Match (Replace NewMatcher [exec_rule]) ''c'' exec_event False = [exec_rule]"
proof -
  have "prefix (to_lower ''prod-'') (to_lower ''Prod-eu'')"
    by (simp add: to_lower_def lower_char_def char_of_def bit_0)
  then have g: "glob_lang (to_lower ''prod-*'') (to_lower ''Prod-eu'')"
    using audit_glob.prefix_pattern [of "''prod-''" "''Prod-eu''"] by (simp add: Glob_glob_lang)
  have "splitList ''prod-*'' = [''prod-*'']"
    by (simp add: splitList_def trim_space_def is_space_def)
  with g have "rule_selects exec_rule ''c'' exec_event"
    by (simp add: rule_selects_def exec_rule_def exec_event_def zero_Rule_def zero_Spec_def
      zero_Event_def pats_def subject_ok_def result_ok_def rule_consts)
  then show ?thesis
    using Match_selects_exactly [of NewMatcher "[exec_rule]" "''c''" exec_event False]
    by (simp add: exec_rule_def)
qed

subsection \<open>A validated rule is compiled whole\<close>

lemma compile_ips_all:
  "List.find bad_network its = None \<Longrightarrow> length (compile_ips its) = length its"
  by (induction its) (auto simp: bad_network_def split: if_splits option.splits)

text \<open>\<^verbatim>\<open>compile\<close> skips an address entry that does not parse; for a rule that \<^verbatim>\<open>Validate\<close> accepts
  it never does: every entry of the list is compiled, and a rule that restricts addresses
  has at least one entry.\<close>

theorem validated_rule_compiles_every_address:
  assumes "Validate r = None" "s_IPMode (r_Spec r) \<noteq> IPAny"
  shows "length (c_ips (compile r)) = length (splitList (s_IPList (r_Spec r))) \<and> c_ips (compile r) \<noteq> []"
proof -
  from assms have ne: "splitList (s_IPList (r_Spec r)) \<noteq> []"
    and ok: "List.find bad_network (splitList (s_IPList (r_Spec r))) = None"
    by (auto simp: Validate_def Let_def split: if_splits option.splits)
  from compile_ips_all [OF ok] ne show ?thesis by (auto simp: compile_def Let_def)
qed

definition net_rule :: Rule where
  "net_rule = zero_Rule\<lparr>r_ID := ''x'', r_Name := ''n'', r_Severity := SevLow,
     r_Spec := zero_Spec\<lparr>s_Kinds := [KindExec], s_Subject := SubjectAny, s_IPMode := IPNotIn,
       s_IPList := ''10.0.0.0/8, 1.2.*'', s_Result := ResultAny, s_AlertEvery := AlertEach\<rparr>\<rparr>"

theorem validated_rule_compiles_every_address_witness:
  "length (c_ips (compile net_rule)) = length (splitList ''10.0.0.0/8, 1.2.*'')"
proof -
  have l: "splitList ''10.0.0.0/8, 1.2.*'' = [''10.0.0.0/8'', ''1.2.*'']"
    by (simp add: splitList_def trim_space_def is_space_def)
  have ok: "\<not> bad_network ''10.0.0.0/8''" "\<not> bad_network ''1.2.*''"
    by (simp_all add: bad_network_def contains_singleton go_simps upt_conv_Cons)
  have fields: "r_ID net_rule = ''x''" "r_Name net_rule = ''n''" "r_Severity net_rule = SevLow"
    "s_Kinds (r_Spec net_rule) = [KindExec]" "s_Resources (r_Spec net_rule) = []"
    "s_Clusters (r_Spec net_rule) = []" "s_Subject (r_Spec net_rule) = SubjectAny"
    "s_IPMode (r_Spec net_rule) = IPNotIn" "s_IPList (r_Spec net_rule) = ''10.0.0.0/8, 1.2.*''"
    "s_Result (r_Spec net_rule) = ResultAny" "s_AlertEvery (r_Spec net_rule) = AlertEach"
    by (simp_all add: net_rule_def zero_Rule_def zero_Spec_def)
  have long: "long_labels (r_Spec net_rule) = []"
    by (simp add: long_labels_def net_rule_def zero_Rule_def zero_Spec_def maxPatternLen_def)
  have ne: "AlertEach \<noteq> AlertThreshold" "IPNotIn \<noteq> IPAny" by (simp_all add: rule_consts)
  have "idRe ''x''" by (simp add: idRe_def is_alnum_def is_lower_alnum_def)
  then have "Validate net_rule = None"
    unfolding Validate_def Let_def fields long l
    by (simp add: ok ne oneOf_def Severities_def Kinds_def maxNameLen_def maxListItems_def)
  with validated_rule_compiles_every_address [of net_rule] fields ne show ?thesis by simp
qed

end
