(* ===== verification/Audit_Catalog.thy ===== *)
theory Audit_Catalog
  imports Audit_Rules
begin

section \<open>The built-in audit rules (pkg/auditrules/catalog.go)\<close>

text \<open>
  The catalogue that ships with the product, the rules built from it and the lookup by id.
  Shown: every built-in rule passes the validation applied to the operators' rules, their ids
  are distinct, and the lookup inverts the catalogue.
\<close>

record Builtin =
  b_ID :: string
  b_Group :: string
  b_Name :: string
  b_Kind :: string
  b_Resource :: string
  b_Severity :: string
  b_Enabled :: bool

definition mk_Builtin :: "string \<Rightarrow> string \<Rightarrow> string \<Rightarrow> string \<Rightarrow> string \<Rightarrow> string \<Rightarrow> bool \<Rightarrow> Builtin" where
  "mk_Builtin i g n k r s e = \<lparr>b_ID = i, b_Group = g, b_Name = n, b_Kind = k, b_Resource = r,
     b_Severity = s, b_Enabled = e\<rparr>"

definition Catalog :: "Builtin list" where
  "Catalog = [
     mk_Builtin ''exec-pod'' ''Pod Access'' ''Exec into pod'' KindExec [] SevHigh True,
     mk_Builtin ''attach-pod'' ''Pod Access'' ''Attach to pod'' KindAttach [] SevHigh True,
     mk_Builtin ''portforward-pod'' ''Pod Access'' ''Port-forward to pod'' KindPortForward [] SevHigh True,
     mk_Builtin ''pod-create'' ''Workloads'' ''Pod created'' KindCreate ''pods'' SevLow False,
     mk_Builtin ''pod-delete'' ''Workloads'' ''Pod deleted'' KindDelete ''pods'' SevLow False,
     mk_Builtin ''deploy-create'' ''Workloads'' ''Deployment created'' KindCreate ''deployments'' SevLow False,
     mk_Builtin ''deploy-update'' ''Workloads'' ''Deployment updated'' KindUpdate ''deployments'' SevLow False,
     mk_Builtin ''daemonset-create'' ''Workloads'' ''DaemonSet created'' KindCreate ''daemonsets'' SevMedium True,
     mk_Builtin ''daemonset-update'' ''Workloads'' ''DaemonSet updated'' KindUpdate ''daemonsets'' SevLow False,
     mk_Builtin ''job-create'' ''Workloads'' ''Job created'' KindCreate ''jobs'' SevLow False,
     mk_Builtin ''cronjob-create'' ''Workloads'' ''CronJob created'' KindCreate ''cronjobs'' SevMedium False,
     mk_Builtin ''secret-create'' ''Secrets'' ''Secret created'' KindCreate ''secrets'' SevMedium False,
     mk_Builtin ''secret-delete'' ''Secrets'' ''Secret deleted'' KindDelete ''secrets'' SevMedium True,
     mk_Builtin ''configmap-update'' ''Secrets'' ''ConfigMap updated'' KindUpdate ''configmaps'' SevLow False,
     mk_Builtin ''role-create'' ''RBAC'' ''Role created'' KindCreate ''roles'' SevMedium True,
     mk_Builtin ''clusterrole-create'' ''RBAC'' ''ClusterRole created'' KindCreate ''clusterroles'' SevHigh True,
     mk_Builtin ''rolebinding-create'' ''RBAC'' ''RoleBinding created'' KindCreate ''rolebindings'' SevMedium True,
     mk_Builtin ''rolebinding-delete'' ''RBAC'' ''RoleBinding deleted'' KindDelete ''rolebindings'' SevMedium False,
     mk_Builtin ''crb-create'' ''RBAC'' ''ClusterRoleBinding created'' KindCreate ''clusterrolebindings'' SevCritical True,
     mk_Builtin ''crb-delete'' ''RBAC'' ''ClusterRoleBinding deleted'' KindDelete ''clusterrolebindings'' SevMedium True,
     mk_Builtin ''mwh-create'' ''Admission'' ''MutatingWebhook created'' KindCreate ''mutatingwebhookconfigurations'' SevCritical True,
     mk_Builtin ''mwh-update'' ''Admission'' ''MutatingWebhook updated'' KindUpdate ''mutatingwebhookconfigurations'' SevHigh True,
     mk_Builtin ''mwh-delete'' ''Admission'' ''MutatingWebhook deleted'' KindDelete ''mutatingwebhookconfigurations'' SevHigh True,
     mk_Builtin ''vwh-create'' ''Admission'' ''ValidatingWebhook created'' KindCreate ''validatingwebhookconfigurations'' SevHigh True,
     mk_Builtin ''vwh-update'' ''Admission'' ''ValidatingWebhook updated'' KindUpdate ''validatingwebhookconfigurations'' SevHigh True,
     mk_Builtin ''vwh-delete'' ''Admission'' ''ValidatingWebhook deleted'' KindDelete ''validatingwebhookconfigurations'' SevHigh True,
     mk_Builtin ''ns-create'' ''Infrastructure'' ''Namespace created'' KindCreate ''namespaces'' SevLow False,
     mk_Builtin ''ns-delete'' ''Infrastructure'' ''Namespace deleted'' KindDelete ''namespaces'' SevHigh True,
     mk_Builtin ''node-create'' ''Infrastructure'' ''Node joined cluster'' KindCreate ''nodes'' SevMedium True,
     mk_Builtin ''sa-create'' ''Infrastructure'' ''ServiceAccount created'' KindCreate ''serviceaccounts'' SevMedium True,
     mk_Builtin ''sa-delete'' ''Infrastructure'' ''ServiceAccount deleted'' KindDelete ''serviceaccounts'' SevLow False]"

definition Builtin_Rule :: "Builtin \<Rightarrow> Rule" where
  "Builtin_Rule b = Normalize
     (zero_Rule\<lparr>r_ID := b_ID b, r_Name := b_Name b, r_Group := b_Group b, r_Origin := OriginBuiltin,
        r_Enabled := b_Enabled b, r_Severity := b_Severity b,
        r_Spec := zero_Spec\<lparr>s_Kinds := [b_Kind b],
          s_Resources := (if b_Resource b \<noteq> [] then [b_Resource b] else [])\<rparr>\<rparr>)"

definition signals :: "Rule list" where
  "signals = [zero_Rule\<lparr>r_ID := ''forwarded-spoof'', r_Name := ''X-Forwarded-For set by the client'',
     r_Group := ''Spoofing'', r_Origin := OriginBuiltin, r_Enabled := True, r_Severity := SevHigh,
     r_Spec := zero_Spec\<lparr>s_Forwarded := True\<rparr>\<rparr>]"

definition BuiltinRules :: "Rule list" where
  "BuiltinRules = map Builtin_Rule Catalog
     @ map (\<lambda>r. Normalize (r\<lparr>r_Spec := (r_Spec r)\<lparr>s_Kinds := Kinds\<rparr>\<rparr>)) signals"

definition LookupBuiltin :: "string \<Rightarrow> Builtin option" where
  "LookupBuiltin i = List.find (\<lambda>b. b_ID b = i) Catalog"

subsection \<open>Every built-in rule is valid\<close>

text \<open>What a normalised rule with no texts, addresses or thresholds of its own needs to be valid.\<close>

definition plain_spec :: "Spec \<Rightarrow> bool" where
  "plain_spec s = (s = zero_Spec\<lparr>s_Kinds := s_Kinds s, s_Resources := s_Resources s, s_Forwarded := s_Forwarded s\<rparr>)"

lemma plain_spec_sel:
  assumes "plain_spec s"
  shows "s_NS s = []" "s_NSExclude s = []" "s_ObjName s = []" "s_Subject s = []" "s_Users s = []"
    "s_UsersExclude s = []" "s_IPMode s = []" "s_IPList s = []" "s_Result s = []" "s_Cmd s = []"
    "s_AlertEvery s = []" "s_ThN s = 0" "s_ThMin s = 0" "s_Clusters s = []"
  by (subst assms [unfolded plain_spec_def], simp add: zero_Spec_def)+

lemma plain_rule_valid:
  assumes "plain_spec (r_Spec r)"
    and "idRe (trim_space (r_ID r))" "trim_space (r_Name r) \<noteq> []" "length (r_Name r) \<le> maxNameLen"
    and "r_Severity r \<in> set Severities"
    and "cleanSet (s_Kinds (r_Spec r)) True \<noteq> []" "set (cleanSet (s_Kinds (r_Spec r)) True) \<subseteq> set Kinds"
    and "length (s_Resources (r_Spec r)) \<le> 1" "list_all resourceRe (cleanSet (s_Resources (r_Spec r)) True)"
  shows "Validate (Normalize r) = None"
proof -
  note p = plain_spec_sel [OF assms(1)]
  have sev: "trim_space (r_Severity r) \<noteq> []" "to_lower (trim_space (r_Severity r)) = r_Severity r"
    using assms(5) by (auto simp: Severities_def rule_consts trim_space_def is_space_def to_lower_def lower_char_def)
  have name: "length (trim_space (r_Name r)) \<le> maxNameLen"
    using assms(4) length_trim_space [of "r_Name r"] by simp
  have kinds: "List.find (\<lambda>k. \<not> oneOf k Kinds) (cleanSet (s_Kinds (r_Spec r)) True) = None"
    using assms(7) by (auto simp: find_None_iff oneOf_def list_ex_iff)
  have res: "List.find (\<lambda>x. \<not> resourceRe x) (cleanSet (s_Resources (r_Spec r)) True) = None"
    using assms(9) by (auto simp: find_None_iff list_all_iff)
  have nres: "length (cleanSet (s_Resources (r_Spec r)) True) \<le> maxListItems"
    using assms(8) by (cases "s_Resources (r_Spec r)") (auto simp: cleanSet_def Let_def maxListItems_def)
  have lab: "long_labels (normalize_spec (r_Spec r)) = []"
    using p by (simp add: long_labels_def maxPatternLen_def)
  have cl: "cleanSet [] False = []" by (simp add: cleanSet_def)
  have sevok: "oneOf (r_Severity r) Severities" using assms(5) by (simp add: oneOf_def list_ex_iff)
  have ne: "AlertEach \<noteq> AlertThreshold" by (simp add: rule_consts)
  have first: "oneOf v (v # vs)" for v vs by (simp add: oneOf_def)
  show ?thesis
    unfolding Validate_def Let_def
    using assms(2,3,6) name nres by (simp add: p cl sev sevok kinds res lab ne first)
qed

definition builtin_ok :: "Builtin \<Rightarrow> bool" where
  "builtin_ok b = (idRe (b_ID b) \<and> trim_space (b_ID b) = b_ID b \<and> trim_space (b_Name b) \<noteq> []
     \<and> length (b_Name b) \<le> maxNameLen \<and> b_Severity b \<in> set Severities \<and> b_Kind b \<in> set Kinds
     \<and> (b_Resource b = [] \<or> resourceRe (b_Resource b) \<and> trim_space (b_Resource b) = b_Resource b
          \<and> to_lower (b_Resource b) = b_Resource b))"

lemma Kinds_clean: "k \<in> set Kinds \<Longrightarrow> cleanSet [k] True = [k]"
  by (auto simp: Kinds_def rule_consts cleanSet_def trim_space_def is_space_def to_lower_def lower_char_def)

lemma cleanSet_Kinds: "cleanSet Kinds True = Kinds"
  by (simp add: Kinds_def rule_consts cleanSet_def trim_space_def is_space_def to_lower_def lower_char_def)

lemma Builtin_Rule_valid:
  assumes "builtin_ok b"
  shows "Validate (Builtin_Rule b) = None" "r_ID (Builtin_Rule b) = b_ID b"
proof -
  have res: "list_all resourceRe (cleanSet [b_Resource b] True)" if "b_Resource b \<noteq> []"
    using assms that by (simp add: builtin_ok_def cleanSet_def)
  have nil: "cleanSet [] True = []" by (simp add: cleanSet_def)
  have k: "cleanSet [b_Kind b] True = [b_Kind b]" using assms Kinds_clean by (simp add: builtin_ok_def)
  show "Validate (Builtin_Rule b) = None"
    unfolding Builtin_Rule_def
    using assms res
    by (intro plain_rule_valid) (simp_all add: builtin_ok_def plain_spec_def k nil)
  show "r_ID (Builtin_Rule b) = b_ID b" using assms by (simp add: Builtin_Rule_def builtin_ok_def)
qed

lemma Catalog_ok: "list_all builtin_ok Catalog"
  by (simp add: Catalog_def mk_Builtin_def builtin_ok_def idRe_def resourceRe_def is_alnum_def
    is_lower_alnum_def trim_space_def is_space_def to_lower_def lower_char_def maxNameLen_def
    Severities_def Kinds_def)

lemma Catalog_ids:
  "distinct (map b_ID Catalog)" "''forwarded-spoof'' \<notin> set (map b_ID Catalog)"
  by (simp_all add: Catalog_def mk_Builtin_def)

lemma spoof_signal_valid:
  "list_all (\<lambda>r. Validate (Normalize (r\<lparr>r_Spec := (r_Spec r)\<lparr>s_Kinds := Kinds\<rparr>\<rparr>)) = None) signals"
proof -
  have ne: "Kinds \<noteq> []" "SevHigh \<in> set Severities" by (simp_all add: Kinds_def Severities_def)
  have nil: "cleanSet [] True = []" by (simp add: cleanSet_def)
  show ?thesis
    unfolding signals_def list.pred_inject
    by (intro conjI TrueI plain_rule_valid)
       (simp_all add: plain_spec_def cleanSet_Kinds ne nil maxNameLen_def idRe_def is_alnum_def
          is_lower_alnum_def trim_space_def is_space_def zero_Rule_def zero_Spec_def)
qed

text \<open>Every rule the product ships is accepted by the validator that checks the operators' own
  rules, no two of them share an id, and looking a catalogue entry up by its id returns that entry
  (and nothing else).\<close>

theorem BuiltinRules_valid:
  "list_all (\<lambda>r. Validate r = None) BuiltinRules \<and> distinct (map r_ID BuiltinRules)
   \<and> (LookupBuiltin i = Some b \<longleftrightarrow> b \<in> set Catalog \<and> b_ID b = i)"
proof -
  have "list_all (\<lambda>r. Validate r = None) BuiltinRules"
    using Catalog_ok spoof_signal_valid Builtin_Rule_valid(1)
    by (auto simp: BuiltinRules_def list_all_iff)
  moreover have "distinct (map r_ID BuiltinRules)"
  proof -
    have "map r_ID BuiltinRules = map b_ID Catalog @ [''forwarded-spoof'']"
      using Catalog_ok Builtin_Rule_valid(2)
      by (auto simp: BuiltinRules_def signals_def list_all_iff zero_Rule_def trim_space_def is_space_def)
    then show ?thesis using Catalog_ids by simp
  qed
  moreover have "LookupBuiltin i = Some b \<longleftrightarrow> b \<in> set Catalog \<and> b_ID b = i"
    using find_distinct_key [OF Catalog_ids(1)] by (simp add: LookupBuiltin_def)
  ultimately show ?thesis by blast
qed

end
