(* ===== verification/Authz.thy ===== *)
theory Authz
  imports Go_Strings
begin

section \<open>Roles and permissions (pkg/authz/roles.go)\<close>

text \<open>
  The two roles of the console, the permission table and the combination of a user's own role
  with the role of the user's group. Shown: anything that is not literally the admin role only reads, the admin
  can do everything any role can, and the effective role is admin exactly when one of the two is.
\<close>

definition RoleAdmin :: string where "RoleAdmin = ''admin''"
definition RoleRO :: string where "RoleRO = ''ro''"

definition admin_permissions :: "string list" where
  "admin_permissions =
    [''policies.read'', ''policies.write'', ''policies.create'', ''policies.delete'',
     ''groups.read'', ''groups.write'', ''groups.create'', ''groups.delete'',
     ''users.read'', ''users.write'', ''users.create'', ''users.delete'',
     ''tokens.read'', ''tokens.create'', ''tokens.delete'',
     ''integrations.read'', ''integrations.write'']"

definition readonly_permissions :: "string list" where
  "readonly_permissions =
    [''policies.read'', ''groups.read'', ''users.read'', ''tokens.read'', ''integrations.read'']"

text \<open>The map of the source is the characteristic function of its keys.\<close>

definition Permissions :: "string \<Rightarrow> string \<Rightarrow> bool" where
  "Permissions role perm =
     (if role = RoleAdmin then perm \<in> set admin_permissions else perm \<in> set readonly_permissions)"

definition ValidRole :: "string \<Rightarrow> bool" where
  "ValidRole r = (r = RoleAdmin \<or> r = RoleRO)"

definition EffectiveRole :: "string \<Rightarrow> string \<Rightarrow> string" where
  "EffectiveRole userRole groupRole =
     (if userRole = RoleAdmin \<or> groupRole = RoleAdmin then RoleAdmin else RoleRO)"

lemma readonly_subset: "set readonly_permissions \<subseteq> set admin_permissions"
  by (simp add: readonly_permissions_def admin_permissions_def)

lemma readonly_only_reads: "p \<in> set readonly_permissions \<Longrightarrow> has_suffix p ''.read''"
  by (auto simp: readonly_permissions_def has_suffix_eval)

lemma writes_need_admin:
  "Permissions role perm \<Longrightarrow> \<not> has_suffix perm ''.read'' \<Longrightarrow> role = RoleAdmin"
  using readonly_only_reads by (auto simp: Permissions_def split: if_splits)

text \<open>No privilege without the admin role: whatever the stored strings are, the effective role
  is one of the two valid roles; a permission that is not a read is granted only when the user's own
  role or the group's role is admin; and raising either role never takes a permission away.\<close>

theorem effective_role_grants_writes_only_to_admins:
  "ValidRole (EffectiveRole u g)
   \<and> (Permissions (EffectiveRole u g) perm \<and> \<not> has_suffix perm ''.read''
        \<longrightarrow> u = RoleAdmin \<or> g = RoleAdmin)
   \<and> (Permissions (EffectiveRole u g) perm \<longrightarrow> Permissions (EffectiveRole RoleAdmin g) perm
        \<and> Permissions (EffectiveRole u RoleAdmin) perm)"
proof -
  have ne: "RoleRO \<noteq> RoleAdmin" by (simp add: RoleAdmin_def RoleRO_def)
  have "u = RoleAdmin \<or> g = RoleAdmin" if "EffectiveRole u g = RoleAdmin"
    using that ne by (simp add: EffectiveRole_def split: if_splits)
  moreover have "Permissions r perm \<longrightarrow> Permissions RoleAdmin perm" for r
    using readonly_subset by (auto simp: Permissions_def)
  ultimately show ?thesis
    using writes_need_admin [of "EffectiveRole u g" perm]
    by (simp add: ValidRole_def) (simp add: EffectiveRole_def)
qed

theorem effective_role_grants_writes_only_to_admins_witness:
  "Permissions (EffectiveRole ''ro'' ''admin'') ''users.delete'' \<and> \<not> Permissions (EffectiveRole ''ro'' ''Admin'') ''users.delete''"
proof -
  have "Permissions (EffectiveRole ''ro'' ''admin'') ''users.delete''"
    by (simp add: EffectiveRole_def RoleAdmin_def Permissions_def admin_permissions_def)
  moreover have "\<not> has_suffix ''users.delete'' ''.read''" by (simp add: has_suffix_eval)
  ultimately show ?thesis
    using effective_role_grants_writes_only_to_admins [of "''ro''" "''Admin''" "''users.delete''"]
    by (simp add: RoleAdmin_def)
qed

end
