(* ===== verification/Runtime_Policy.thy ===== *)
theory Runtime_Policy
  imports Glob_Spec
begin

section \<open>Scope matching shared by the runtime components (pkg/policy/match.go)\<close>

text \<open>
  Namespace, pod and process filters of runtime rules. \<^verbatim>\<open>globMatch\<close> is a second, separately
  written wildcard matcher: it skips empty parts, anchors the first and the last one, and takes
  the leftmost occurrence of the others. Shown: it decides the same pattern language.
\<close>

definition ExecSyscalls :: "string list" where
  "ExecSyscalls = [''execve'', ''execveat'', ''sched_process_exec'']"

definition IsExecSyscall :: "string \<Rightarrow> bool" where
  "IsExecSyscall syscall = (syscall \<in> set ExecSyscalls)"

text \<open>The loop over \<^verbatim>\<open>parts\<close>, with its index \<open>i\<close> and the number of parts \<open>n\<close>.\<close>

fun globMatch_loop :: "nat \<Rightarrow> nat \<Rightarrow> bool \<Rightarrow> bool \<Rightarrow> string list \<Rightarrow> string \<Rightarrow> bool" where
  "globMatch_loop i n anchorStart anchorEnd [] rest = True"
| "globMatch_loop i n anchorStart anchorEnd (p # ps) rest =
     (if p = [] then globMatch_loop (i + 1) n anchorStart anchorEnd ps rest
      else if i = 0 \<and> anchorStart then
        (if \<not> has_prefix rest p then False
         else globMatch_loop (i + 1) n anchorStart anchorEnd ps (drop (length p) rest))
      else if i = n - 1 \<and> anchorEnd then
        (if \<not> has_suffix rest p then False
         else globMatch_loop (i + 1) n anchorStart anchorEnd ps (take (length rest - length p) rest))
      else (case index_of rest p of None \<Rightarrow> False
            | Some idx \<Rightarrow> globMatch_loop (i + 1) n anchorStart anchorEnd ps (drop (idx + length p) rest)))"

definition globMatch :: "string \<Rightarrow> string \<Rightarrow> bool" where
  "globMatch s pattern =
     (if \<not> contains pattern ''*'' then s = pattern
      else let parts = split_char (CHR ''*'') pattern;
               anchorStart = (\<not> has_prefix pattern ''*'');
               anchorEnd = (\<not> has_suffix pattern ''*'')
           in globMatch_loop 0 (length parts) anchorStart anchorEnd parts s)"

definition NamespaceMatches :: "string \<Rightarrow> string \<Rightarrow> bool" where
  "NamespaceMatches namespace pattern0 =
     (let pattern = trim_space pattern0 in
      if pattern = [] \<or> pattern = ''*'' then True
      else globMatch (to_lower namespace) (to_lower pattern))"

definition PodMatches :: "string \<Rightarrow> string \<Rightarrow> bool" where
  "PodMatches pod pattern0 =
     (let pattern = trim_space pattern0 in
      if pattern = [] \<or> pattern = ''*'' then True
      else let p = to_lower pod; pat = to_lower pattern in
        if \<not> contains pat ''*'' then contains p pat else globMatch p pat)"

definition ProcessMatches :: "string \<Rightarrow> string \<Rightarrow> string \<Rightarrow> string \<Rightarrow> bool" where
  "ProcessMatches pattern process execpath cmdline =
     (let pf = to_lower (trim_space pattern) in
      if pf = [] \<or> pf = ''*'' then True
      else let cmd0 = takeWhile (\<lambda>c. c \<noteq> CHR '' '') cmdline in
        list_ex (\<lambda>candidate. let c = to_lower (trim_space candidate) in
                   c \<noteq> [] \<and> (c = pf \<or> has_suffix c (''/'' @ pf)))
          [process, execpath, cmd0])"

subsection \<open>globMatch decides the pattern language\<close>

lemma greedy_skip: "ws \<noteq> [] \<Longrightarrow> greedy ([] # ws) s = greedy ws s"
proof -
  assume "ws \<noteq> []"
  moreover have "index_of s [] = Some 0" by (cases s) (simp_all add: has_prefix_def)
  ultimately show ?thesis by (cases ws) simp_all
qed

lemma globMatch_loop_greedy:
  assumes "ws \<noteq> []" "0 < i" "i + length ws = n" "anchorEnd = (last ws \<noteq> [])"
  shows "globMatch_loop i n a anchorEnd ws s = greedy ws s"
  using assms
proof (induction ws arbitrary: i s)
  case (Cons w ws)
  show ?case
  proof (cases "ws = []")
    case True
    with Cons.prems show ?thesis by (auto simp: has_suffix_def)
  next
    case False
    then obtain v vs where ws: "ws = v # vs" by (cases ws) auto
    have IH: "globMatch_loop (i + 1) n a anchorEnd ws t = greedy ws t" for t
      using Cons.prems False by (intro Cons.IH) auto
    show ?thesis
    proof (cases "w = []")
      case True
      with IH greedy_skip [OF False, of s] show ?thesis by simp
    next
      case wne: False
      have "i \<noteq> n - 1" using Cons.prems ws by simp
      with wne Cons.prems(2) IH ws show ?thesis by (simp split: option.splits)
    qed
  qed
qed simp

lemma hd_split_char: "p \<noteq> [] \<Longrightarrow> hd (split_char c p) = [] \<longleftrightarrow> has_prefix p [c]"
  by (cases p) (auto simp: has_prefix_def split: list.splits)

lemma last_split_char: "c \<in> set p \<Longrightarrow> last (split_char c p) = [] \<longleftrightarrow> has_suffix p [c]"
proof -
  assume c: "c \<in> set p"
  then obtain u v where p: "p = u @ c # v" "c \<notin> set v" by (meson split_list_last)
  then have "split_char c p = split_char c u @ [v]"
    by (simp add: split_char_append_sep split_char_no_sep)
  then have "last (split_char c p) = v" by simp
  moreover have "has_suffix p [c] \<longleftrightarrow> v = []"
    using p by (cases v rule: rev_cases) (auto simp: has_suffix_def suffix_def)
  ultimately show ?thesis by simp
qed

lemma globMatch_glob_lang: "globMatch s p \<longleftrightarrow> glob_lang p s"
proof (cases "star \<in> set p")
  case False
  then show ?thesis by (auto simp: globMatch_def contains_singleton glob_lang_literal)
next
  case True
  let ?e = "\<not> has_suffix p ''*''" and ?a = "\<not> has_prefix p ''*''"
  from length_split_char_sep [OF True] obtain w ws where sp: "split_char star p = w # ws" "ws \<noteq> []"
    by (cases "split_char star p"; cases "tl (split_char star p)") auto
  have e: "?e = (last ws \<noteq> [])" using last_split_char [OF True] sp by simp
  have a: "(w = []) = (\<not> ?a)" using hd_split_char [of p star] True sp by (cases p) auto
  have rest: "globMatch_loop 1 (length (w # ws)) ?a ?e ws t = greedy ws t" for t
    using sp(2) e by (intro globMatch_loop_greedy) auto
  have "globMatch s p = globMatch_loop 0 (length (w # ws)) ?a ?e (w # ws) s"
    using True sp by (simp add: globMatch_def contains_singleton)
  also have "\<dots> = (has_prefix s w \<and> greedy ws (drop (length w) s))"
    using rest a by (cases "w = []") (simp_all add: has_prefix_def)
  also have "\<dots> = glob_lang p s" by (rule greedy_decides_glob [OF sp(1)])
  finally show ?thesis .
qed

interpretation policy_glob: glob_matcher "\<lambda>p s. globMatch s p" "\<lambda>s. s"
  by unfold_locales (simp_all add: globMatch_glob_lang)

text \<open>\<^verbatim>\<open>policy.globMatch\<close>, written with anchors and skipped empty parts, decides the pattern
  language; so a namespace filter accepts exactly the namespaces its trimmed, lower-cased pattern
  denotes (an empty one accepts all), and a pod filter accepts every name the namespace filter of the
  same text accepts.\<close>

theorem NamespaceMatches_decides:
  "(globMatch s p \<longleftrightarrow> glob_lang p s)
   \<and> (NamespaceMatches ns pat \<longleftrightarrow> trim_space pat = [] \<or> glob_lang (to_lower (trim_space pat)) (to_lower ns))
   \<and> (NamespaceMatches ns pat \<longrightarrow> PodMatches ns pat)"
proof -
  have n: "NamespaceMatches ns pat \<longleftrightarrow>
      trim_space pat = [] \<or> glob_lang (to_lower (trim_space pat)) (to_lower ns)"
    using to_lower_star
    by (auto simp: NamespaceMatches_def Let_def globMatch_glob_lang)
  have "NamespaceMatches ns pat \<longrightarrow> PodMatches ns pat"
    by (auto simp: NamespaceMatches_def PodMatches_def Let_def contains_singleton
      globMatch_glob_lang glob_lang_literal)
  with n show ?thesis using globMatch_glob_lang by blast
qed

theorem NamespaceMatches_decides_witness:
  "NamespaceMatches ''prod-eu'' '' prod-* '' \<and> PodMatches ''prod-eu'' '' prod-* ''"
proof -
  have t: "trim_space '' prod-* '' = ''prod-*''" by (simp add: trim_space_def is_space_def)
  have l: "to_lower ''prod-*'' = ''prod-'' @ ''*''" "to_lower ''prod-eu'' = ''prod-eu''"
    by (simp_all add: to_lower_def lower_char_def)
  have "glob_lang (''prod-'' @ ''*'') ''prod-eu''"
    using policy_glob.prefix_pattern [of "''prod-''" "''prod-eu''"] by (simp add: globMatch_glob_lang)
  then have "NamespaceMatches ''prod-eu'' '' prod-* ''"
    using NamespaceMatches_decides [of "''prod-eu''" "''prod-*''" "''prod-eu''" "'' prod-* ''"]
    by (simp add: t l)
  then show ?thesis
    using NamespaceMatches_decides [of "''prod-eu''" "''prod-*''" "''prod-eu''" "'' prod-* ''"] by simp
qed

subsection \<open>Process filters\<close>

text \<open>The base name of a path: what follows its last slash.\<close>

definition base_name :: "string \<Rightarrow> string" where
  "base_name path = last (split_char (CHR ''/'') path)"

lemma base_name_eq:
  "CHR ''/'' \<notin> set pf \<Longrightarrow> base_name c = pf \<longleftrightarrow> c = pf \<or> has_suffix c (CHR ''/'' # pf)"
proof -
  assume pf: "CHR ''/'' \<notin> set pf"
  show ?thesis
  proof (cases "CHR ''/'' \<in> set c")
    case False
    then show ?thesis by (auto simp: base_name_def split_char_no_sep has_suffix_def suffix_def)
  next
    case True
    then obtain u v where c: "c = u @ CHR ''/'' # v" "CHR ''/'' \<notin> set v" by (meson split_list_last)
    then have b: "base_name c = v"
      by (simp add: base_name_def split_char_append_sep split_char_no_sep)
    show ?thesis
    proof
      assume "base_name c = pf"
      with b c show "c = pf \<or> has_suffix c (CHR ''/'' # pf)" by (auto simp: has_suffix_def suffix_def)
    next
      assume "c = pf \<or> has_suffix c (CHR ''/'' # pf)"
      with True pf obtain t where "c = t @ CHR ''/'' # pf" by (auto simp: has_suffix_def suffix_def)
      with pf have "split_char (CHR ''/'') c = split_char (CHR ''/'') t @ [pf]"
        by (simp add: split_char_append_sep split_char_no_sep)
      then show "base_name c = pf" by (simp add: base_name_def)
    qed
  qed
qed

text \<open>A process filter without a slash compares base names, not substrings: it accepts a
  process exactly when the name, the executable or the first word of the command line, trimmed and
  lower-cased, has the filter as its base name.\<close>

theorem ProcessMatches_compares_base_names:
  assumes "CHR ''/'' \<notin> set pattern" "trim_space pattern \<noteq> []" "trim_space pattern \<noteq> ''*''"
  shows "ProcessMatches pattern process execpath cmdline \<longleftrightarrow>
    (\<exists>c \<in> {process, execpath, takeWhile (\<lambda>x. x \<noteq> CHR '' '') cmdline}.
       base_name (to_lower (trim_space c)) = to_lower (trim_space pattern))"
proof -
  let ?pf = "to_lower (trim_space pattern)"
  have pf: "CHR ''/'' \<notin> set ?pf"
    using assms(1) trim_space_subset [of pattern] by auto
  have ne: "?pf \<noteq> []" "?pf \<noteq> ''*''" using assms by simp_all
  have "(c \<noteq> [] \<and> (c = ?pf \<or> has_suffix c (''/'' @ ?pf))) = (base_name c = ?pf)" for c
    using base_name_eq [OF pf, of c] ne(1) by (cases "c = []") (auto simp: has_suffix_def)
  then show ?thesis using ne by (simp add: ProcessMatches_def Let_def)
qed

theorem ProcessMatches_compares_base_names_witness:
  "ProcessMatches ''bash'' ''x'' ''/usr/bin/bash'' [] \<and> \<not> ProcessMatches ''bash'' ''rbash'' ''/usr/bin/rbash'' []"
proof -
  have t: "trim_space ''bash'' = ''bash''" by (simp add: trim_space_def is_space_def)
  note ev = base_name_def trim_space_def is_space_def to_lower_def lower_char_def
  show ?thesis
    using ProcessMatches_compares_base_names [of "''bash''" "''x''" "''/usr/bin/bash''" "[]"]
      ProcessMatches_compares_base_names [of "''bash''" "''rbash''" "''/usr/bin/rbash''" "[]"]
    by (simp add: t) (simp add: ev)
qed

end
