(* ===== verification/Go_Json.thy ===== *)
theory Go_Json
  imports Go_Strings
begin

section \<open>JSON documents (what the sources use of encoding/json)\<close>

text \<open>
  Decoding of JSON texts into Go's dynamic values. The lexer works on bytes and follows the
  scanner of the standard library: control characters in strings are refused, escapes and
  surrogate pairs are decoded, invalid UTF-8 becomes U+FFFD, and nesting is limited to 10000.
  The parser is the pushdown automaton that the scanner implements, structural on the tokens.
  Numbers keep their text; a number that a float64 cannot hold makes the decoding fail.
\<close>

datatype json =
    JNull
  | JBool bool
  | JNum string
  | JStr string
  | JArr "json list"
  | JObj "(string \<times> json) list"

datatype token = TLBrace | TRBrace | TLBrack | TRBrack | TColon | TComma
  | TStr string | TNum string | TTrue | TFalse | TNull

subsection \<open>Bytes and runes\<close>

definition byte :: "char \<Rightarrow> nat" where "byte c = of_char c"

definition mk_byte :: "nat \<Rightarrow> char" where "mk_byte n = char_of n"

definition cont :: "char \<Rightarrow> bool" where "cont c = (128 \<le> byte c \<and> byte c \<le> 191)"

text \<open>The length of the valid UTF-8 sequence at the head of a nonempty string, 0 when invalid.\<close>

fun rune_len :: "string \<Rightarrow> nat" where
  "rune_len [] = 0"
| "rune_len (c # s) =
     (let b = byte c in
      if b < 128 then 1
      else if 194 \<le> b \<and> b \<le> 223 then (case s of x # _ \<Rightarrow> if cont x then 2 else 0 | _ \<Rightarrow> 0)
      else if 224 \<le> b \<and> b \<le> 239 then
        (case s of x # y # _ \<Rightarrow>
           if cont x \<and> cont y \<and> (b = 224 \<longrightarrow> 160 \<le> byte x) \<and> (b = 237 \<longrightarrow> byte x \<le> 159) then 3 else 0
         | _ \<Rightarrow> 0)
      else if 240 \<le> b \<and> b \<le> 244 then
        (case s of x # y # z # _ \<Rightarrow>
           if cont x \<and> cont y \<and> cont z \<and> (b = 240 \<longrightarrow> 144 \<le> byte x) \<and> (b = 244 \<longrightarrow> byte x \<le> 143)
           then 4 else 0
         | _ \<Rightarrow> 0)
      else 0)"

definition replacement_char :: string where
  "replacement_char = [CHR 0xEF, CHR 0xBF, CHR 0xBD]"

definition encode_rune :: "nat \<Rightarrow> string" where
  "encode_rune r =
     (if r < 128 then [mk_byte r]
      else if r < 2048 then [mk_byte (192 + r div 64), mk_byte (128 + r mod 64)]
      else if 55296 \<le> r \<and> r < 57344 \<or> 1114112 \<le> r then replacement_char
      else if r < 65536 then
        [mk_byte (224 + r div 4096), mk_byte (128 + r div 64 mod 64), mk_byte (128 + r mod 64)]
      else [mk_byte (240 + r div 262144), mk_byte (128 + r div 4096 mod 64),
            mk_byte (128 + r div 64 mod 64), mk_byte (128 + r mod 64)])"

definition hex_digit :: "char \<Rightarrow> nat option" where
  "hex_digit c = (let b = byte c in
     if 48 \<le> b \<and> b \<le> 57 then Some (b - 48)
     else if 97 \<le> b \<and> b \<le> 102 then Some (b - 87)
     else if 65 \<le> b \<and> b \<le> 70 then Some (b - 55)
     else None)"

definition hex4 :: "string \<Rightarrow> nat option" where
  "hex4 s = (case s of a # b # c # d # _ \<Rightarrow>
       (case (hex_digit a, hex_digit b, hex_digit c, hex_digit d) of
          (Some w, Some x, Some y, Some z) \<Rightarrow> Some (w * 4096 + x * 256 + y * 16 + z)
        | _ \<Rightarrow> None)
     | _ \<Rightarrow> None)"

text \<open>
  The rune of an escape that starts with the four digits of \<open>s\<close>, and how many characters after
  them it uses: a high surrogate followed by an escaped low one takes six more.
\<close>

definition escape_rune :: "nat \<Rightarrow> string \<Rightarrow> string \<times> nat" where
  "escape_rune r rest =
     (if 55296 \<le> r \<and> r < 57344 then
        (case rest of a # b # t \<Rightarrow>
           (if a = CHR 0x5C \<and> b = CHR ''u'' then
              (case hex4 t of
                 Some lo \<Rightarrow> if r < 56320 \<and> 56320 \<le> lo \<and> lo < 57344
                            then (encode_rune (65536 + (r - 55296) * 1024 + (lo - 56320)), 6)
                            else (replacement_char, 0)
               | None \<Rightarrow> (replacement_char, 0))
            else (replacement_char, 0))
         | _ \<Rightarrow> (replacement_char, 0))
      else (encode_rune r, 0))"

subsection \<open>The lexer\<close>

text \<open>
  One item of a string literal that starts with \<open>c\<close> and continues with \<open>s\<close>: the bytes it
  denotes and how many characters of \<open>s\<close> it uses; \<open>None\<close> when it is not well formed.
\<close>

definition simple_escape :: "char \<Rightarrow> char option" where
  "simple_escape e =
     (if e = CHR 0x22 \<or> e = CHR 0x5C \<or> e = CHR ''/'' then Some e
      else if e = CHR ''b'' then Some (CHR 0x08)
      else if e = CHR ''f'' then Some (CHR 0x0C)
      else if e = CHR ''n'' then Some (CHR 0x0A)
      else if e = CHR ''r'' then Some (CHR 0x0D)
      else if e = CHR ''t'' then Some (CHR 0x09)
      else None)"

definition str_item :: "char \<Rightarrow> string \<Rightarrow> (string \<times> nat) option" where
  "str_item c s =
     (if byte c < 32 then None
      else if c = CHR 0x5C then
        (case s of [] \<Rightarrow> None
         | e # t \<Rightarrow>
             (case simple_escape e of Some b \<Rightarrow> Some ([b], 1)
              | None \<Rightarrow>
                  if e = CHR ''u'' then
                    (case hex4 t of None \<Rightarrow> None
                     | Some r \<Rightarrow> (let (u, k) = escape_rune r (drop 4 t) in Some (u, 5 + k)))
                  else None))
      else (let n = rune_len (c # s) in
            if n = 0 then Some (replacement_char, 0) else Some (c # take (n - 1) s, n - 1)))"

text \<open>The value of a string literal, from the character after its opening quote.\<close>

function lex_string :: "string \<Rightarrow> string \<Rightarrow> (string \<times> string) option" where
  "lex_string acc [] = None"
| "lex_string acc (c # s) =
     (if c = CHR 0x22 then Some (acc, s)
      else case str_item c s of None \<Rightarrow> None
           | Some (u, k) \<Rightarrow> lex_string (acc @ u) (drop k s))"
  by pat_completeness auto
termination by (relation "measure (\<lambda>(acc, s). length s)") auto

definition is_digit :: "char \<Rightarrow> bool" where "is_digit c = (48 \<le> byte c \<and> byte c \<le> 57)"

text \<open>\<^verbatim>\<open>-? (0 | [1-9][0-9]*) (\.[0-9]+)? ([eE][+-]?[0-9]+)?\<close>: the text of the number and what follows.\<close>

definition lex_int :: "string \<Rightarrow> (string \<times> string) option" where
  "lex_int s = (case s of [] \<Rightarrow> None
     | c # t \<Rightarrow> if c = CHR ''0'' then Some ([c], t)
               else if is_digit c then Some (c # takeWhile is_digit t, dropWhile is_digit t)
               else None)"

definition lex_frac :: "string \<Rightarrow> (string \<times> string) option" where
  "lex_frac s = (case s of c # t \<Rightarrow>
       if c = CHR ''.'' then
         (if takeWhile is_digit t = [] then None
          else Some (c # takeWhile is_digit t, dropWhile is_digit t))
       else Some ([], s)
     | [] \<Rightarrow> Some ([], s))"

definition lex_exp :: "string \<Rightarrow> (string \<times> string) option" where
  "lex_exp s = (case s of c # t \<Rightarrow>
       if c = CHR ''e'' \<or> c = CHR ''E'' then
         (let sign = (case t of x # _ \<Rightarrow> if x = CHR ''+'' \<or> x = CHR ''-'' then [x] else [] | [] \<Rightarrow> []);
              u = drop (length sign) t
          in if takeWhile is_digit u = [] then None
             else Some (c # sign @ takeWhile is_digit u, dropWhile is_digit u))
       else Some ([], s)
     | [] \<Rightarrow> Some ([], s))"

definition lex_number :: "string \<Rightarrow> (string \<times> string) option" where
  "lex_number s =
     (let (sign, s1) = (case s of c # t \<Rightarrow> if c = CHR ''-'' then ([c], t) else ([], s) | [] \<Rightarrow> ([], s)) in
      case lex_int s1 of None \<Rightarrow> None
      | Some (i, s2) \<Rightarrow>
        (case lex_frac s2 of None \<Rightarrow> None
         | Some (f, s3) \<Rightarrow>
           (case lex_exp s3 of None \<Rightarrow> None | Some (e, s4) \<Rightarrow> Some (sign @ i @ f @ e, s4))))"

definition json_ws :: "char \<Rightarrow> bool" where
  "json_ws c = (c = CHR '' '' \<or> c = CHR 0x09 \<or> c = CHR 0x0A \<or> c = CHR 0x0D)"

definition punct :: "char \<Rightarrow> token option" where
  "punct c = (if c = CHR ''{'' then Some TLBrace else if c = CHR ''}'' then Some TRBrace
     else if c = CHR ''['' then Some TLBrack else if c = CHR '']'' then Some TRBrack
     else if c = CHR '':'' then Some TColon else if c = CHR '','' then Some TComma else None)"

lemma lex_string_shorter: "lex_string acc s = Some (v, r) \<Longrightarrow> length r < length s"
proof (induction acc s rule: lex_string.induct)
  case (2 acc c s)
  show ?case
  proof (cases "c = CHR 0x22")
    case False
    with "2.prems" obtain u k where u: "str_item c s = Some (u, k)" by (auto split: option.splits)
    from "2.IH" [OF False u refl] "2.prems" False u show ?thesis by simp
  qed (use "2.prems" in simp)
qed simp

lemma dropWhile_length_le: "length (dropWhile P xs) \<le> length xs"
  by (induction xs) auto

lemma lex_int_shorter: "lex_int s = Some (i, r) \<Longrightarrow> length r < length s"
  by (auto simp: lex_int_def less_Suc_eq_le dropWhile_length_le split: list.splits if_splits)

lemma lex_frac_le: "lex_frac s = Some (i, r) \<Longrightarrow> length r \<le> length s"
  by (auto simp: lex_frac_def dropWhile_length_le le_SucI split: list.splits if_splits)

lemma lex_exp_le: "lex_exp s = Some (i, r) \<Longrightarrow> length r \<le> length s"
  by (auto simp: lex_exp_def Let_def dropWhile_length_le le_SucI split: list.splits if_splits)

lemma lex_number_shorter: "lex_number s = Some (v, r) \<Longrightarrow> length r < length s"
  unfolding lex_number_def Let_def
  by (cases s)
     (auto split: option.splits prod.splits if_splits dest!: lex_int_shorter lex_frac_le lex_exp_le)

text \<open>A keyword, then the rest.\<close>

definition keyword :: "string \<Rightarrow> (token \<times> string) option" where
  "keyword s = (if has_prefix s ''true'' then Some (TTrue, drop 4 s)
     else if has_prefix s ''false'' then Some (TFalse, drop 5 s)
     else if has_prefix s ''null'' then Some (TNull, drop 4 s) else None)"

text \<open>One token from the head \<open>c\<close> of a text that is not white space.\<close>

definition lex_token :: "char \<Rightarrow> string \<Rightarrow> (token \<times> string) option" where
  "lex_token c s =
     (case punct c of Some t \<Rightarrow> Some (t, s)
      | None \<Rightarrow>
          if c = CHR 0x22 then map_option (\<lambda>(v, r). (TStr v, r)) (lex_string [] s)
          else if c = CHR ''-'' \<or> is_digit c then map_option (\<lambda>(v, r). (TNum v, r)) (lex_number (c # s))
          else keyword (c # s))"

lemma lex_token_shorter: "lex_token c s = Some (t, r) \<Longrightarrow> length r \<le> length s"
  by (auto simp: lex_token_def keyword_def split: option.splits if_splits
    dest!: lex_string_shorter lex_number_shorter)

function lex_json :: "string \<Rightarrow> token list option" where
  "lex_json [] = Some []"
| "lex_json (c # s) =
     (if json_ws c then lex_json s
      else case lex_token c s of None \<Rightarrow> None
           | Some (t, r) \<Rightarrow> map_option ((#) t) (lex_json r))"
  by pat_completeness auto
termination by (relation "measure length") (auto dest: lex_token_shorter simp: less_Suc_eq_le)

subsection \<open>The parser\<close>

definition maxNestingDepth :: nat where "maxNestingDepth = 10000"

text \<open>An open container: the elements so far, last first; for an object also the pending key.\<close>

datatype frame = FArr "json list" | FObj "(string \<times> json) list" string

text \<open>What the automaton expects next.\<close>

datatype mode =
    MValue
  | MFirst
  | MKey "(string \<times> json) list"
  | MKeyOrEnd
  | MColon "(string \<times> json) list" string
  | MDone json

fun scalar :: "token \<Rightarrow> json option" where
  "scalar (TStr s) = Some (JStr s)"
| "scalar (TNum s) = Some (JNum s)"
| "scalar TTrue = Some (JBool True)"
| "scalar TFalse = Some (JBool False)"
| "scalar TNull = Some JNull"
| "scalar _ = None"

fun open_value :: "token \<Rightarrow> frame list \<Rightarrow> (mode \<times> frame list) option" where
  "open_value TLBrace st = (if length st < maxNestingDepth then Some (MKeyOrEnd, st) else None)"
| "open_value TLBrack st = (if length st < maxNestingDepth then Some (MFirst, FArr [] # st) else None)"
| "open_value t st = map_option (\<lambda>v. (MDone v, st)) (scalar t)"

fun json_step :: "mode \<Rightarrow> frame list \<Rightarrow> token \<Rightarrow> (mode \<times> frame list) option" where
  "json_step MValue st t = open_value t st"
| "json_step MFirst st t =
     (if t = TRBrack then (case st of FArr _ # st' \<Rightarrow> Some (MDone (JArr []), st') | _ \<Rightarrow> None)
      else open_value t st)"
| "json_step MKeyOrEnd st t =
     (case t of TRBrace \<Rightarrow> Some (MDone (JObj []), st) | TStr k \<Rightarrow> Some (MColon [] k, st) | _ \<Rightarrow> None)"
| "json_step (MKey kvs) st t = (case t of TStr k \<Rightarrow> Some (MColon kvs k, st) | _ \<Rightarrow> None)"
| "json_step (MColon kvs k) st t = (if t = TColon then Some (MValue, FObj kvs k # st) else None)"
| "json_step (MDone v) [] t = None"
| "json_step (MDone v) (FArr vs # st) t =
     (if t = TComma then Some (MValue, FArr (v # vs) # st)
      else if t = TRBrack then Some (MDone (JArr (rev (v # vs))), st) else None)"
| "json_step (MDone v) (FObj kvs k # st) t =
     (if t = TComma then Some (MKey ((k, v) # kvs), st)
      else if t = TRBrace then Some (MDone (JObj (rev ((k, v) # kvs))), st) else None)"

fun json_run :: "mode \<times> frame list \<Rightarrow> token list \<Rightarrow> (mode \<times> frame list) option" where
  "json_run c [] = Some c"
| "json_run c (t # ts) =
     (case json_step (fst c) (snd c) t of None \<Rightarrow> None | Some c' \<Rightarrow> json_run c' ts)"

definition parse_tokens :: "token list \<Rightarrow> json option" where
  "parse_tokens ts = (case json_run (MValue, []) ts of Some (MDone v, []) \<Rightarrow> Some v | _ \<Rightarrow> None)"

definition parse_json :: "string \<Rightarrow> json option" where
  "parse_json s = (case lex_json s of None \<Rightarrow> None | Some ts \<Rightarrow> parse_tokens ts)"

subsection \<open>Decoding into dynamic values\<close>

text \<open>
  A number literal as mantissa and decimal exponent, and the range of a float64: at or above
  \<open>2^1024 - 2^970\<close> the conversion reports an error.
\<close>

definition digits_nat :: "string \<Rightarrow> nat" where
  "digits_nat s = foldl (\<lambda>n c. n * 10 + (byte c - 48)) 0 s"

definition num_parts :: "string \<Rightarrow> nat \<times> int" where
  "num_parts s =
     (let body = dropWhile (\<lambda>c. c = CHR ''-'') s;
          ip = takeWhile is_digit body;
          r1 = dropWhile is_digit body;
          fp = (case r1 of c # t \<Rightarrow> if c = CHR ''.'' then takeWhile is_digit t else [] | [] \<Rightarrow> []);
          r2 = (case r1 of c # t \<Rightarrow> if c = CHR ''.'' then dropWhile is_digit t else r1 | [] \<Rightarrow> []);
          ex = (case r2 of [] \<Rightarrow> 0
                | _ # t \<Rightarrow> (case t of [] \<Rightarrow> 0
                   | sg # d \<Rightarrow> if sg = CHR ''-'' then - int (digits_nat d)
                              else if sg = CHR ''+'' then int (digits_nat d) else int (digits_nat t)))
      in (digits_nat (ip @ fp), ex - int (length fp)))"

definition num_in_range :: "string \<Rightarrow> bool" where
  "num_in_range s =
     (let (m, e) = num_parts s; lim = 2 ^ 1024 - 2 ^ 970 in
      m = 0 \<or> (if 0 \<le> e then m * 10 ^ nat e < lim else m < lim * 10 ^ nat (- e)))"

fun numbers_in_range :: "json \<Rightarrow> bool" where
  "numbers_in_range (JNum s) = num_in_range s"
| "numbers_in_range (JArr vs) = list_all numbers_in_range vs"
| "numbers_in_range (JObj kvs) = list_all (\<lambda>(k, v). numbers_in_range v) kvs"
| "numbers_in_range _ = True"

text \<open>
  \<^verbatim>\<open>json.Unmarshal\<close> into a \<^verbatim>\<open>map[string]interface{}\<close>: an object gives its members, \<^verbatim>\<open>null\<close> the nil
  map, anything else an error. The last of several equal keys wins.
\<close>

definition unmarshal_map :: "string \<Rightarrow> (string \<times> json) list option" where
  "unmarshal_map s =
     (case parse_json s of
        Some (JObj kvs) \<Rightarrow> if numbers_in_range (JObj kvs) then Some kvs else None
      | Some JNull \<Rightarrow> Some []
      | _ \<Rightarrow> None)"

definition obj_get :: "(string \<times> json) list \<Rightarrow> string \<Rightarrow> json option" where
  "obj_get kvs k = map_of (rev kvs) k"

subsection \<open>The parser inverts the token sequence of a value\<close>

fun toks :: "json \<Rightarrow> token list" where
  "toks JNull = [TNull]"
| "toks (JBool b) = [if b then TTrue else TFalse]"
| "toks (JNum s) = [TNum s]"
| "toks (JStr s) = [TStr s]"
| "toks (JArr vs) = TLBrack # (case map toks vs of [] \<Rightarrow> [] | t # ts \<Rightarrow> t @ concat (map ((#) TComma) ts)) @ [TRBrack]"
| "toks (JObj kvs) = TLBrace # (case map (\<lambda>(k, v). TStr k # TColon # toks v) kvs of [] \<Rightarrow> []
     | t # ts \<Rightarrow> t @ concat (map ((#) TComma) ts)) @ [TRBrace]"

fun depth :: "json \<Rightarrow> nat" where
  "depth (JArr vs) = Suc (Max (insert 0 (set (map depth vs))))"
| "depth (JObj kvs) = Suc (Max (insert 0 (set (map (\<lambda>(k, v). depth v) kvs))))"
| "depth _ = 0"

lemma json_run_append:
  "json_run c (ts @ us) = (case json_run c ts of None \<Rightarrow> None | Some c' \<Rightarrow> json_run c' us)"
  by (induction ts arbitrary: c) (auto split: option.splits)

text \<open>Reading a value where one is expected ends with the value done, on the same stack.\<close>

definition reads :: "json \<Rightarrow> frame list \<Rightarrow> bool" where
  "reads v st = (\<forall>m us. m = MValue \<or> m = MFirst \<longrightarrow>
     json_run (m, st) (toks v @ us) = json_run (MDone v, st) us)"

lemma run_array_tail:
  assumes "\<And>v pre. v \<in> set vs \<Longrightarrow> reads v (FArr pre # st)"
  shows "json_run (MDone w, FArr acc # st) (concat (map ((#) TComma) (map toks vs)) @ TRBrack # us)
         = json_run (MDone (JArr (rev acc @ w # vs)), st) us"
  using assms
proof (induction vs arbitrary: w acc)
  case (Cons v vs)
  have "reads v (FArr (w # acc) # st)" by (rule Cons.prems) simp
  then have "json_run (MDone w, FArr acc # st)
      (concat (map ((#) TComma) (map toks (v # vs))) @ TRBrack # us)
    = json_run (MDone v, FArr (w # acc) # st) (concat (map ((#) TComma) (map toks vs)) @ TRBrack # us)"
    by (simp add: reads_def)
  also have "\<dots> = json_run (MDone (JArr (rev (w # acc) @ v # vs)), st) us"
    by (rule Cons.IH) (simp add: Cons.prems)
  finally show ?case by simp
qed simp

lemma run_object_tail:
  assumes "\<And>k v pre key. (k, v) \<in> set kvs \<Longrightarrow> reads v (FObj pre key # st)"
  shows "json_run (MDone w, FObj acc k0 # st)
           (concat (map ((#) TComma) (map (\<lambda>(k, v). TStr k # TColon # toks v) kvs)) @ TRBrace # us)
         = json_run (MDone (JObj (rev acc @ (k0, w) # kvs)), st) us"
  using assms
proof (induction kvs arbitrary: w acc k0)
  case (Cons kv kvs)
  obtain k v where kv: "kv = (k, v)" by (cases kv)
  have "reads v (FObj ((k0, w) # acc) k # st)" by (rule Cons.prems [of k]) (simp add: kv)
  then have "json_run (MDone w, FObj acc k0 # st)
      (concat (map ((#) TComma) (map (\<lambda>(k, v). TStr k # TColon # toks v) (kv # kvs))) @ TRBrace # us)
    = json_run (MDone v, FObj ((k0, w) # acc) k # st)
      (concat (map ((#) TComma) (map (\<lambda>(k, v). TStr k # TColon # toks v) kvs)) @ TRBrace # us)"
    by (simp add: kv reads_def)
  also have "\<dots> = json_run (MDone (JObj (rev ((k0, w) # acc) @ (k, v) # kvs)), st) us"
    by (rule Cons.IH) (auto intro: Cons.prems)
  finally show ?case by (simp add: kv)
qed simp

lemma depth_elem: "v \<in> set vs \<Longrightarrow> depth v < depth (JArr vs)"
  by (simp add: less_Suc_eq_le)

lemma depth_member: "(k, v) \<in> set kvs \<Longrightarrow> depth v < depth (JObj kvs)"
  by (auto simp: less_Suc_eq_le intro!: Max_ge)

lemma toks_not_close: "hd (toks v) \<noteq> TRBrack" "toks v \<noteq> []"
  by (cases v; simp)+

lemma reads_value: "length st + depth v \<le> maxNestingDepth \<Longrightarrow> reads v st"
proof (induction v arbitrary: st)
  case (JArr vs)
  have d: "length st < maxNestingDepth" using JArr.prems by simp
  have el: "reads v (FArr pre # st)" if "v \<in> set vs" for v pre
    using depth_elem [OF that] JArr.prems by (intro JArr.IH [OF that]) (simp del: depth.simps)
  show ?case
  proof (cases vs)
    case Nil
    with d show ?thesis by (auto simp: reads_def)
  next
    case (Cons v ws)
    have "reads v (FArr [] # st)" using el Cons by simp
    moreover have "json_run (MDone v, FArr [] # st) (concat (map ((#) TComma) (map toks ws)) @ TRBrack # us)
        = json_run (MDone (JArr (rev [] @ v # ws)), st) us" for us
      by (rule run_array_tail) (use el Cons in auto)
    ultimately show ?thesis using Cons d by (auto simp: reads_def)
  qed
next
  case (JObj kvs)
  have d: "length st < maxNestingDepth" using JObj.prems by simp
  have el: "reads v (FObj pre key # st)" if "(k, v) \<in> set kvs" for k v pre key
    using depth_member [OF that] JObj.prems that
    by (intro JObj.IH [of "(k, v)" v]) (simp_all del: depth.simps)
  show ?case
  proof (cases kvs)
    case Nil
    with d show ?thesis by (auto simp: reads_def)
  next
    case (Cons kv ws)
    obtain k v where kv: "kv = (k, v)" by (cases kv)
    have "reads v (FObj [] k # st)" using el [of k v] Cons kv by simp
    moreover have "json_run (MDone v, FObj [] k # st)
        (concat (map ((#) TComma) (map (\<lambda>(k, v). TStr k # TColon # toks v) ws)) @ TRBrace # us)
        = json_run (MDone (JObj (rev [] @ (k, v) # ws)), st) us" for us
      by (rule run_object_tail) (use el Cons in auto)
    ultimately show ?thesis using Cons kv d by (auto simp: reads_def)
  qed
qed (auto simp: reads_def)

lemma parse_tokens_toks: "depth v \<le> maxNestingDepth \<Longrightarrow> parse_tokens (toks v) = Some v"
proof -
  assume "depth v \<le> maxNestingDepth"
  then have "reads v []" by (simp add: reads_value)
  then have "json_run (MValue, []) (toks v @ []) = json_run (MDone v, []) []"
    unfolding reads_def by blast
  then show ?thesis by (simp add: parse_tokens_def)
qed

end
