(* ===== verification/Watch_Ring.thy ===== *)
theory Watch_Ring
  imports Go_Json
begin

section \<open>Captured pod events (kvisior/internal/events, watchring, podwatch)\<close>

text \<open>
  The ring keeps, for every pod, kind and event name, the latest events for 24 hours, at most
  500 per key; the manager holds which events the operator selected per pod and reads the ring.
  Shown, over every sequence of operations: a buffer is a suffix of what was added under
  its key, never longer than the bound; an event that is still fresh and is not followed by 500 others of its key is
  returned; and what is returned was added for that very pod.
\<close>

subsection \<open>Event kinds\<close>

definition Syscall :: string where "Syscall = ''syscall''"
definition LSMHook :: string where "LSMHook = ''lsm_hook''"
definition Tracepoint :: string where "Tracepoint = ''tracepoint''"

definition tracepoints :: "string list" where
  "tracepoints = [''sched_process_exec'', ''sched_process_fork'', ''sched_process_exit'',
     ''task_rename'', ''sched_switch'', ''module_load'', ''module_free'',
     ''cgroup_mkdir'', ''cgroup_rmdir'', ''cgroup_attach_task'']"

definition KindFor :: "string \<Rightarrow> string" where
  "KindFor name = (if has_prefix name ''security_'' then LSMHook
     else if name \<in> set tracepoints then Tracepoint else Syscall)"

subsection \<open>The ring\<close>

definition maxPerKey :: nat where "maxPerKey = 500"
definition ring_retention :: duration where "ring_retention = 24 * hour"

record ring_entry =
  re_raw :: string
  re_ts :: gotime

record Ring =
  bufs :: "string \<rightharpoonup> ring_entry list"

record PodWatchSelection =
  sel_Syscalls :: "string list"
  sel_LSMHooks :: "string list"
  sel_Tracepoints :: "string list"

definition NewRing :: Ring where "NewRing = \<lparr>bufs = Map.empty\<rparr>"

definition ringKey :: "string \<Rightarrow> string \<Rightarrow> string \<Rightarrow> string \<Rightarrow> string \<Rightarrow> string" where
  "ringKey ns pod podUID kind name = ns @ ''/'' @ pod @ ''/'' @ podUID @ ''/'' @ kind @ ''/'' @ name"

text \<open>The loop \<^verbatim>\<open>for i < len(buf) && buf[i].ts.Before(cutoff)\<close> and the slice \<^verbatim>\<open>buf[i:]\<close>.\<close>

definition drop_stale :: "gotime \<Rightarrow> ring_entry list \<Rightarrow> ring_entry list" where
  "drop_stale cutoff buf = dropWhile (\<lambda>e. re_ts e < cutoff) buf"

definition ring_evict :: "gotime \<Rightarrow> Ring \<Rightarrow> Ring" where
  "ring_evict now r = (let cutoff = now - ring_retention in
     r\<lparr>bufs := (\<lambda>key. case bufs r key of None \<Rightarrow> None
        | Some buf \<Rightarrow> (let rest = drop_stale cutoff buf in if rest = [] then None else Some rest))\<rparr>)"

definition ring_buf :: "Ring \<Rightarrow> string \<Rightarrow> ring_entry list" where
  "ring_buf r key = (case bufs r key of None \<Rightarrow> [] | Some buf \<Rightarrow> buf)"

definition ring_Add :: "gotime \<Rightarrow> string \<Rightarrow> string \<Rightarrow> string \<Rightarrow> string \<Rightarrow> string \<Rightarrow> string \<Rightarrow> gotime \<Rightarrow> Ring \<Rightarrow> Ring" where
  "ring_Add now ns pod podUID kind name raw ts r =
     (let key = ringKey ns pod podUID kind name;
          cutoff = now - ring_retention;
          buf = drop_stale cutoff (ring_buf r key) @ [\<lparr>re_raw = raw, re_ts = ts\<rparr>]
      in r\<lparr>bufs := (bufs r)(key \<mapsto>
            (if maxPerKey < length buf then drop (length buf - maxPerKey) buf else buf))\<rparr>)"

definition rawContainerID :: "string \<Rightarrow> string" where
  "rawContainerID raw =
     (case unmarshal_map raw of None \<Rightarrow> []
      | Some ev \<Rightarrow> (case obj_get ev ''containerId'' of Some (JStr value) \<Rightarrow> value
                   | _ \<Rightarrow> (case obj_get ev ''container_id'' of Some (JStr value) \<Rightarrow> value | _ \<Rightarrow> [])))"

definition appendEvents :: "gotime \<Rightarrow> Ring \<Rightarrow> string \<Rightarrow> string \<Rightarrow> string \<Rightarrow> string \<Rightarrow> string \<Rightarrow> string list \<Rightarrow> string list" where
  "appendEvents cutoff r ns pod podUID containerID kind names =
     concat (map (\<lambda>name.
       map re_raw (filter (\<lambda>e. \<not> re_ts e < cutoff) (ring_buf r (ringKey ns pod podUID kind name)))
       @ (if podUID \<noteq> [] \<and> containerID \<noteq> [] then
            map re_raw (filter (\<lambda>e. \<not> (re_ts e < cutoff \<or> rawContainerID (re_raw e) \<noteq> containerID))
              (ring_buf r (ringKey ns pod [] kind name)))
          else [])) names)"

definition ring_Get :: "gotime \<Rightarrow> Ring \<Rightarrow> string \<Rightarrow> string \<Rightarrow> string \<Rightarrow> string \<Rightarrow> PodWatchSelection \<Rightarrow> string list" where
  "ring_Get now r ns pod podUID containerID selection =
     (let cutoff = now - ring_retention in
      appendEvents cutoff r ns pod podUID containerID Syscall (sel_Syscalls selection)
      @ appendEvents cutoff r ns pod podUID containerID LSMHook (sel_LSMHooks selection)
      @ appendEvents cutoff r ns pod podUID containerID Tracepoint (sel_Tracepoints selection))"

subsection \<open>The watch manager\<close>

record watchEntry =
  w_selection :: PodWatchSelection
  w_updatedAt :: gotime

record Manager =
  mg_watches :: "string \<rightharpoonup> watchEntry"
  mg_ring :: Ring
  mg_store :: bool

text \<open>
  The database behind the manager is not part of these sources' state: \<open>mg_store\<close> says whether
  one is configured and the calls take what it answers (\<open>None\<close>, or \<open>False\<close>, for an error).
\<close>

definition empty_selection :: PodWatchSelection where
  "empty_selection = \<lparr>sel_Syscalls = [], sel_LSMHooks = [], sel_Tracepoints = []\<rparr>"

definition watch_key :: "string \<Rightarrow> string \<Rightarrow> string" where
  "watch_key ns pod = ns @ ''/'' @ pod"

definition selection_of :: "Manager \<Rightarrow> string \<Rightarrow> string \<Rightarrow> PodWatchSelection" where
  "selection_of m ns pod = (case mg_watches m (watch_key ns pod) of
     None \<Rightarrow> empty_selection | Some e \<Rightarrow> w_selection e)"

definition NewManager :: "bool \<Rightarrow> Ring \<Rightarrow> Manager" where
  "NewManager st ring = \<lparr>mg_watches = Map.empty, mg_ring = ring, mg_store = st\<rparr>"

definition manager_Load :: "(string \<times> watchEntry) list option \<Rightarrow> Manager \<Rightarrow> bool \<times> Manager" where
  "manager_Load rows m =
     (if \<not> mg_store m then (True, m)
      else case rows of None \<Rightarrow> (False, m) | Some es \<Rightarrow> (True, m\<lparr>mg_watches := map_of es\<rparr>))"

definition names_of :: "PodWatchSelection \<Rightarrow> string \<Rightarrow> string list" where
  "names_of selection kind = (if kind = LSMHook then sel_LSMHooks selection
     else if kind = Tracepoint then sel_Tracepoints selection else sel_Syscalls selection)"

definition ShouldCapture :: "Manager \<Rightarrow> string \<Rightarrow> string \<Rightarrow> string \<Rightarrow> string \<Rightarrow> bool" where
  "ShouldCapture m ns pod kind name =
     list_ex (\<lambda>selected. selected = name) (names_of (selection_of m ns pod) kind)"

definition manager_Add :: "gotime \<Rightarrow> string \<Rightarrow> string \<Rightarrow> string \<Rightarrow> string \<Rightarrow> string \<Rightarrow> string \<Rightarrow> gotime \<Rightarrow> Manager \<Rightarrow> Manager" where
  "manager_Add now ns pod podUID kind name raw ts m =
     m\<lparr>mg_ring := ring_Add now ns pod podUID kind name raw ts (mg_ring m)\<rparr>"

definition GetEvents :: "gotime \<Rightarrow> Manager \<Rightarrow> string \<Rightarrow> string \<Rightarrow> string \<Rightarrow> string \<Rightarrow> string list" where
  "GetEvents now m ns pod podUID containerID =
     (let sel = selection_of m ns pod in
      if length (sel_Syscalls sel) + length (sel_LSMHooks sel) + length (sel_Tracepoints sel) = 0 then []
      else ring_Get now (mg_ring m) ns pod podUID containerID sel)"

definition SetWatch :: "gotime \<Rightarrow> bool \<Rightarrow> string \<Rightarrow> string \<Rightarrow> PodWatchSelection \<Rightarrow> Manager \<Rightarrow> bool \<times> Manager" where
  "SetWatch now stored ns pod selection m =
     (if \<not> mg_store m then (True, m)
      else if \<not> stored then (False, m)
      else (True, m\<lparr>mg_watches := (mg_watches m)(watch_key ns pod \<mapsto>
              \<lparr>w_selection = selection, w_updatedAt = now\<rparr>)\<rparr>))"

definition DeleteWatch :: "bool \<Rightarrow> string \<Rightarrow> string \<Rightarrow> Manager \<Rightarrow> bool \<times> Manager" where
  "DeleteWatch deleted ns pod m =
     (if \<not> mg_store m then (True, m)
      else if \<not> deleted then (False, m)
      else (True, m\<lparr>mg_watches := (mg_watches m)(watch_key ns pod := None)\<rparr>))"

subsection \<open>Keys\<close>

definition slash_free :: "string \<Rightarrow> bool" where "slash_free s = (CHR ''/'' \<notin> set s)"

lemma cut_first:
  "slash_free a \<Longrightarrow> slash_free a' \<Longrightarrow> a @ ''/'' @ b = a' @ ''/'' @ b' \<longleftrightarrow> a = a' \<and> b = b'"
proof (induction a arbitrary: a')
  case Nil
  then show ?case by (cases a') (auto simp: slash_free_def)
next
  case (Cons x a)
  from Cons.prems have x: "x \<noteq> CHR ''/''" "slash_free a" by (auto simp: slash_free_def)
  show ?case
  proof (cases a')
    case Nil
    with x show ?thesis by simp
  next
    case c: (Cons y c)
    with Cons.prems have "slash_free c" by (simp add: slash_free_def)
    from Cons.IH [OF x(2) this] c show ?thesis by auto
  qed
qed

lemma ringKey_inj:
  assumes "slash_free ns" "slash_free ns'" "slash_free pod" "slash_free pod'" "slash_free u" "slash_free u'"
    "slash_free k" "slash_free k'"
  shows "ringKey ns pod u k n = ringKey ns' pod' u' k' n' \<longleftrightarrow>
    ns = ns' \<and> pod = pod' \<and> u = u' \<and> k = k' \<and> n = n'"
  unfolding ringKey_def using assms by (simp only: cut_first)

subsection \<open>Histories\<close>

datatype ring_op =
    OpAdd gotime string string string string string string gotime
  | OpEvict gotime

fun op_clock :: "ring_op \<Rightarrow> gotime" where
  "op_clock (OpAdd now _ _ _ _ _ _ _) = now"
| "op_clock (OpEvict now) = now"

fun ring_apply :: "ring_op \<Rightarrow> Ring \<Rightarrow> Ring" where
  "ring_apply (OpAdd now ns pod u k n raw ts) r = ring_Add now ns pod u k n raw ts r"
| "ring_apply (OpEvict now) r = ring_evict now r"

definition ring_run :: "ring_op list \<Rightarrow> Ring" where
  "ring_run ops = fold ring_apply ops NewRing"

fun op_adds :: "string \<Rightarrow> ring_op \<Rightarrow> ring_entry list" where
  "op_adds key (OpAdd now ns pod u k n raw ts) =
     (if ringKey ns pod u k n = key then [\<lparr>re_raw = raw, re_ts = ts\<rparr>] else [])"
| "op_adds key (OpEvict now) = []"

definition adds :: "string \<Rightarrow> ring_op list \<Rightarrow> ring_entry list" where
  "adds key ops = concat (map (op_adds key) ops)"

lemma ring_run_snoc: "ring_run (ops @ [p]) = ring_apply p (ring_run ops)"
  by (simp add: ring_run_def)

lemma adds_snoc: "adds key (ops @ [p]) = adds key ops @ op_adds key p"
  by (simp add: adds_def)

lemma ring_run_Nil [simp]: "ring_buf (ring_run []) key = []"
  by (simp add: ring_run_def NewRing_def ring_buf_def)

text \<open>How one operation changes the buffer of a key.\<close>

lemma ring_buf_Add:
  "ring_buf (ring_Add now ns pod u k n raw ts r) key =
     (if ringKey ns pod u k n = key
      then take_last maxPerKey (drop_stale (now - ring_retention) (ring_buf r key)
             @ [\<lparr>re_raw = raw, re_ts = ts\<rparr>])
      else ring_buf r key)"
  by (auto simp: ring_Add_def Let_def ring_buf_def take_last_def)

lemma ring_buf_evict:
  "ring_buf (ring_evict now r) key = drop_stale (now - ring_retention) (ring_buf r key)"
  by (cases "bufs r key"; cases "drop_stale (now - ring_retention) (ring_buf r key) = []")
     (simp_all add: ring_evict_def Let_def ring_buf_def drop_stale_def [of _ "[]"])

lemmas ring_buf_step = ring_run_snoc ring_apply.simps ring_buf_Add ring_buf_evict

lemma suffix_drop_stale: "suffix (drop_stale c b) b"
  by (simp add: drop_stale_def suffix_dropWhile)

lemma ring_buf_suffix: "suffix (ring_buf (ring_run ops) key) (adds key ops)"
proof (induction ops rule: rev_induct)
  case (snoc p ops)
  have s: "suffix (drop_stale c (ring_buf (ring_run ops) key)) (adds key ops)" for c
    using suffix_drop_stale snoc.IH by (rule suffix_order.trans)
  have t: "suffix (take_last maxPerKey (drop_stale c (ring_buf (ring_run ops) key) @ [e])) (adds key ops @ [e])"
    for c e using suffix_take_last s [of c] by (rule suffix_order.trans [OF _ same_suffix_suffix [THEN iffD2]])
  show ?case
    using s t snoc.IH by (cases p) (simp_all add: ring_buf_step adds_snoc del: suffix_snoc)
qed simp

lemma ring_buf_bounded: "length (ring_buf (ring_run ops) key) \<le> maxPerKey"
proof (induction ops rule: rev_induct)
  case (snoc p ops)
  have "length (drop_stale c (ring_buf (ring_run ops) key)) \<le> maxPerKey" for c
    using suffix_length_le [OF suffix_drop_stale] snoc.IH by (rule order_trans)
  then show ?case using snoc.IH by (cases p) (simp_all add: ring_buf_step)
qed simp

lemma ring_keeps_fresh:
  assumes "list_all (\<lambda>p. op_clock p \<le> now) ops"
    and "adds key ops = pre @ e # post" "\<not> re_ts e < now - ring_retention" "length post < maxPerKey"
  shows "\<exists>pre'. ring_buf (ring_run ops) key = pre' @ e # post"
  using assms
proof (induction ops arbitrary: pre post rule: rev_induct)
  case (snoc p ops)
  let ?b = "ring_buf (ring_run ops) key"
  have clk: "list_all (\<lambda>p. op_clock p \<le> now) ops" "op_clock p \<le> now" using snoc.prems by simp_all
  have fresh: "\<not> re_ts e < op_clock p - ring_retention" using snoc.prems(3) clk(2) by linarith
  have stale: "\<exists>pre'. drop_stale (op_clock p - ring_retention) (pre0 @ e # post0) = pre' @ e # post0" for pre0 post0
    unfolding drop_stale_def by (rule dropWhile_keeps) (rule fresh)
  show ?case
  proof (cases "op_adds key p = []")
    case True
    from snoc.prems(2) have "adds key ops = pre @ e # post" by (simp add: adds_snoc True)
    from snoc.IH [OF clk(1) this snoc.prems(3,4)] obtain pre' where b: "?b = pre' @ e # post" by blast
    show ?thesis
      using True b stale [of pre' post] by (cases p) (auto simp: ring_buf_step split: if_splits)
  next
    case False
    then obtain x where x: "op_adds key p = [x]"
      and b': "ring_buf (ring_run (ops @ [p])) key
                 = take_last maxPerKey (drop_stale (op_clock p - ring_retention) ?b @ [x])"
      by (cases p) (auto simp: ring_buf_step split: if_splits)
    from snoc.prems(2) x have eq: "adds key ops @ [x] = pre @ e # post" by (simp add: adds_snoc)
    show ?thesis
    proof (cases post rule: rev_cases)
      case Nil
      with eq have "e = x" by simp
      with Nil b' show ?thesis using take_last_keeps [of "[]" maxPerKey _ x] by (auto simp: maxPerKey_def)
    next
      case (snoc post' y)
      with eq have y: "y = x" "adds key ops = pre @ e # post'" by simp_all
      have "length post' < maxPerKey" using snoc.prems(4) snoc by simp
      from snoc.IH [OF clk(1) y(2) snoc.prems(3) this] obtain pre' where "?b = pre' @ e # post'" by blast
      with stale [of pre' post'] obtain pre2 where
        "drop_stale (op_clock p - ring_retention) ?b = pre2 @ e # post'" by auto
      with b' y snoc take_last_keeps [OF snoc.prems(4), of pre2 e] show ?thesis by simp
    qed
  qed
qed (simp add: adds_def)

subsection \<open>What a query returns\<close>

lemma Get_own_key:
  assumes "e \<in> set (ring_buf r (ringKey ns pod u k n))" "\<not> re_ts e < now - ring_retention"
    and "n \<in> set (names_of sel k)" "k \<in> {Syscall, LSMHook, Tracepoint}"
  shows "re_raw e \<in> set (ring_Get now r ns pod u cid sel)"
proof -
  have "re_raw e \<in> set (appendEvents (now - ring_retention) r ns pod u cid k (names_of sel k))"
    using assms unfolding appendEvents_def by (auto intro!: bexI [of _ n])
  then show ?thesis
    using assms(4) by (auto simp: ring_Get_def Let_def names_of_def Syscall_def LSMHook_def Tracepoint_def)
qed

lemma Get_origin:
  assumes "raw \<in> set (ring_Get now r ns pod u cid sel)"
  shows "\<exists>k n u' e. k \<in> {Syscall, LSMHook, Tracepoint} \<and> n \<in> set (names_of sel k)
      \<and> e \<in> set (ring_buf r (ringKey ns pod u' k n)) \<and> raw = re_raw e \<and> \<not> re_ts e < now - ring_retention
      \<and> (u' = u \<or> u' = [] \<and> rawContainerID raw = cid)"
proof -
  have org: "\<exists>n u' e. n \<in> set ns' \<and> e \<in> set (ring_buf r (ringKey ns pod u' k n)) \<and> raw = re_raw e
      \<and> \<not> re_ts e < now - ring_retention \<and> (u' = u \<or> u' = [] \<and> rawContainerID raw = cid)"
    if "raw \<in> set (appendEvents (now - ring_retention) r ns pod u cid k ns')" for k ns'
    using that by (fastforce simp: appendEvents_def split: if_splits)
  have nm: "sel_Syscalls sel = names_of sel Syscall" "sel_LSMHooks sel = names_of sel LSMHook"
    "sel_Tracepoints sel = names_of sel Tracepoint"
    by (simp_all add: names_of_def Syscall_def LSMHook_def Tracepoint_def)
  have "\<exists>k\<in>{Syscall, LSMHook, Tracepoint}.
      raw \<in> set (appendEvents (now - ring_retention) r ns pod u cid k (names_of sel k))"
    using assms nm by (auto simp: ring_Get_def Let_def)
  then obtain k where k: "k \<in> {Syscall, LSMHook, Tracepoint}"
    "raw \<in> set (appendEvents (now - ring_retention) r ns pod u cid k (names_of sel k))" ..
  from org [OF k(2)] obtain n u' e where "n \<in> set (names_of sel k)
      \<and> e \<in> set (ring_buf r (ringKey ns pod u' k n)) \<and> raw = re_raw e
      \<and> \<not> re_ts e < now - ring_retention \<and> (u' = u \<or> u' = [] \<and> rawContainerID raw = cid)"
    by (elim exE)
  with k(1) show ?thesis
    by - (rule exI [of _ k], rule exI [of _ n], rule exI [of _ u'], rule exI [of _ e], blast)
qed

text \<open>C32. No fresh event is lost. After any history of additions and evictions, whatever the order
  of the timestamps, an event that was added for a pod, is younger than the retention and was
  followed by fewer than 500 events of its key is returned when its name is selected; no buffer
  ever exceeds 500 entries.\<close>

theorem ring_returns_fresh_events:
  assumes "list_all (\<lambda>p. op_clock p \<le> now) ops"
    and "adds (ringKey ns pod u k n) ops = pre @ e # post" "length post < 500"
    and "now - 24 * hour \<le> re_ts e"
    and "n \<in> set (names_of sel k)" "k \<in> {Syscall, LSMHook, Tracepoint}"
  shows "re_raw e \<in> set (ring_Get now (ring_run ops) ns pod u cid sel)
    \<and> length (ring_buf (ring_run ops) key) \<le> 500"
proof -
  have fresh: "\<not> re_ts e < now - ring_retention" using assms(4) by (simp add: ring_retention_def)
  have "length post < maxPerKey" using assms(3) by (simp add: maxPerKey_def)
  from ring_keeps_fresh [OF assms(1,2) fresh this]
  have "e \<in> set (ring_buf (ring_run ops) (ringKey ns pod u k n))" by auto
  from Get_own_key [OF this fresh assms(5,6)] ring_buf_bounded [of ops key] show ?thesis
    by (simp add: maxPerKey_def)
qed

definition sample_ops :: "ring_op list" where
  "sample_ops = [OpAdd 0 ''ns'' ''web'' ''u1'' Syscall ''execve'' ''A'' 0, OpEvict (25 * hour),
     OpAdd (25 * hour) ''ns'' ''web'' ''u1'' Syscall ''execve'' ''B'' (25 * hour)]"

theorem ring_returns_fresh_events_witness:
  "''B'' \<in> set (ring_Get (26 * hour) (ring_run sample_ops) ''ns'' ''web'' ''u1'' []
      \<lparr>sel_Syscalls = [''execve''], sel_LSMHooks = [], sel_Tracepoints = []\<rparr>)"
  using ring_returns_fresh_events [of "26 * hour" sample_ops "''ns''" "''web''" "''u1''" Syscall "''execve''"
    "[\<lparr>re_raw = ''A'', re_ts = 0\<rparr>]" "\<lparr>re_raw = ''B'', re_ts = 25 * hour\<rparr>" "[]"
    "\<lparr>sel_Syscalls = [''execve''], sel_LSMHooks = [], sel_Tracepoints = []\<rparr>" "[]" "[]"]
  by (simp add: sample_ops_def adds_def names_of_def Syscall_def LSMHook_def Tracepoint_def)

text \<open>Isolation of pods. Whatever a query returns for a pod was added for that namespace and
  pod, under a selected name, within the retention, and for the requested instance of the pod or,
  when the sensor did not know the instance, with the requested container id. Keys are a
  concatenation with slashes; this needs only that namespaces, pods, uids and kinds hold none,
  the event name may hold anything.\<close>

theorem ring_isolates_pods:
  assumes "raw \<in> set (ring_Get now (ring_run ops) ns pod u cid sel)"
    and "slash_free ns" "slash_free pod" "slash_free u"
    and "list_all (\<lambda>p. case p of OpAdd _ ns' pod' u' k' _ _ _ \<Rightarrow>
           slash_free ns' \<and> slash_free pod' \<and> slash_free u' \<and> slash_free k' | _ \<Rightarrow> True) ops"
  shows "\<exists>t u' k n ts. OpAdd t ns pod u' k n raw ts \<in> set ops \<and> n \<in> set (names_of sel k)
    \<and> now - 24 * hour \<le> ts \<and> (u' = u \<or> u' = [] \<and> rawContainerID raw = cid)"
proof -
  from Get_origin [OF assms(1)] obtain k n u' e where
    k: "k \<in> {Syscall, LSMHook, Tracepoint}" and n: "n \<in> set (names_of sel k)"
    and e: "e \<in> set (ring_buf (ring_run ops) (ringKey ns pod u' k n))" and raw: "raw = re_raw e"
    and fr: "\<not> re_ts e < now - ring_retention" and u': "u' = u \<or> u' = [] \<and> rawContainerID raw = cid"
    by blast
  have kf: "slash_free k" using k by (auto simp: slash_free_def Syscall_def LSMHook_def Tracepoint_def)
  have uf: "slash_free u'" using u' assms(4) by (auto simp: slash_free_def)
  from e set_mono_suffix [OF ring_buf_suffix] have "e \<in> set (adds (ringKey ns pod u' k n) ops)" by blast
  then obtain p where p: "p \<in> set ops" "e \<in> set (op_adds (ringKey ns pod u' k n) p)"
    by (auto simp: adds_def)
  obtain t ns2 pod2 u2 k2 n2 where
    q: "p = OpAdd t ns2 pod2 u2 k2 n2 (re_raw e) (re_ts e)" "ringKey ns2 pod2 u2 k2 n2 = ringKey ns pod u' k n"
    using p(2) by (cases p) (auto split: if_splits)
  from assms(5) p(1) q(1) have sf: "slash_free ns2" "slash_free pod2" "slash_free u2" "slash_free k2"
    by (auto simp: list_all_iff)
  from q(2) have "ns2 = ns" "pod2 = pod" "u2 = u'" "k2 = k" "n2 = n"
    by (simp_all add: ringKey_inj [OF sf(1) assms(2) sf(2) assms(3) sf(3) uf sf(4) kf])
  with p(1) q(1) raw n u' fr show ?thesis
    by - (rule exI [of _ t], rule exI [of _ u'], rule exI [of _ k], rule exI [of _ n],
        rule exI [of _ "re_ts e"], simp add: ring_retention_def)
qed

lemma sample_Get:
  "ring_Get (26 * hour) (ring_run sample_ops) ''ns'' ''web'' ''u1'' []
     \<lparr>sel_Syscalls = [''execve''], sel_LSMHooks = [], sel_Tracepoints = []\<rparr> = [''B'']"
  by (simp add: ring_run_def sample_ops_def NewRing_def ring_Get_def appendEvents_def ring_buf_Add
    ring_buf_evict ringKey_def Syscall_def drop_stale_def ring_retention_def take_last_def maxPerKey_def)
     (simp add: ring_buf_def)

theorem ring_isolates_pods_witness:
  "\<exists>t u' k n ts. OpAdd t ''ns'' ''web'' u' k n ''B'' ts \<in> set sample_ops"
proof -
  have "list_all (\<lambda>p. case p of OpAdd _ ns' pod' u' k' _ _ _ \<Rightarrow>
      slash_free ns' \<and> slash_free pod' \<and> slash_free u' \<and> slash_free k' | _ \<Rightarrow> True) sample_ops"
    by (simp add: sample_ops_def slash_free_def Syscall_def)
  note ops = this
  have g: "''B'' \<in> set (ring_Get (26 * hour) (ring_run sample_ops) ''ns'' ''web'' ''u1'' []
     \<lparr>sel_Syscalls = [''execve''], sel_LSMHooks = [], sel_Tracepoints = []\<rparr>)"
    unfolding sample_Get by simp
  have sf: "slash_free ''ns''" "slash_free ''web''" "slash_free ''u1''"
    by (simp_all add: slash_free_def)
  from ring_isolates_pods [OF g sf ops] show ?thesis by iprover
qed

subsection \<open>The manager\<close>

lemma watch_key_inj:
  "slash_free ns \<Longrightarrow> slash_free ns' \<Longrightarrow> watch_key ns pod = watch_key ns' pod' \<longleftrightarrow> ns = ns' \<and> pod = pod'"
  unfolding watch_key_def by (rule cut_first)

text \<open>A watch that was stored is in force for its pod and leaves every other pod's as it was.\<close>

lemma SetWatch_selection:
  assumes "SetWatch now stored ns pod sel m = (True, m')" "mg_store m" "slash_free ns" "slash_free ns'"
  shows "selection_of m' ns' pod' = (if ns' = ns \<and> pod' = pod then sel else selection_of m ns' pod')"
  using assms watch_key_inj [of ns' ns pod' pod]
  by (auto simp: SetWatch_def selection_of_def split: if_splits)

text \<open>Capture and retrieval agree: the events that \<^verbatim>\<open>ShouldCapture\<close> accepts are the ones a query reads.\<close>

lemma captured_event_is_returned:
  assumes "ShouldCapture m ns pod k n" "k \<in> {Syscall, LSMHook, Tracepoint}" "now - ring_retention \<le> ts"
  shows "raw \<in> set (GetEvents now (manager_Add now ns pod u k n raw ts m) ns pod u cid)"
proof -
  let ?r = "mg_ring m" and ?sel = "selection_of m ns pod"
  let ?e = "\<lparr>re_raw = raw, re_ts = ts\<rparr>"
  have n: "n \<in> set (names_of ?sel k)" using assms(1) by (auto simp: ShouldCapture_def list_ex_iff)
  have sel: "selection_of (manager_Add now ns pod u k n raw ts m) ns pod = ?sel"
    by (simp add: manager_Add_def selection_of_def)
  have "?e \<in> set (ring_buf (ring_Add now ns pod u k n raw ts ?r) (ringKey ns pod u k n))"
    unfolding ring_buf_Add by (simp add: last_in_take_last maxPerKey_def)
  from Get_own_key [OF this _ n assms(2)] assms(3)
  have "raw \<in> set (ring_Get now (ring_Add now ns pod u k n raw ts ?r) ns pod u cid ?sel)" by simp
  moreover have "length (sel_Syscalls ?sel) + length (sel_LSMHooks ?sel) + length (sel_Tracepoints ?sel) \<noteq> 0"
    using n by (auto simp: names_of_def split: if_splits)
  moreover have "mg_ring (manager_Add now ns pod u k n raw ts m) = ring_Add now ns pod u k n raw ts ?r"
    by (simp add: manager_Add_def)
  ultimately show ?thesis unfolding GetEvents_def Let_def sel by simp
qed

end
