(* ===== verification/Event_Hub.thy ===== *)
theory Event_Hub
  imports Go_Strings "HOL-Library.AList"
begin

section \<open>The live event hub (kvisior/internal/hub/hub.go)\<close>

text \<open>
  The hub replays a bounded buffer to a new subscriber and then relays live events through a
  channel of capacity 256 that drops when full. The operations are functions on the hub; the
  goroutine of a subscriber is a step relation. Shown: the buffer is at every moment the longest
  suffix of the published events that fits both bounds, the byte counter is exact, subscribers
  never exceed the cap, and every subscriber sees events in publication order and none twice.

  Go visits the map of latest events in an unspecified order: here it is a list of key-value
  pairs, and the facts below do not depend on its order.
\<close>

record hub_event =
  he_Type :: string
  he_Cluster :: string
  he_Data :: string

definition maxClients :: nat where "maxClients = 512"
definition maxBufBytes :: int where "maxBufBytes = 32 * 2 ^ 20"
definition liveCap :: nat where "liveCap = 256"

definition latestOnly :: "string \<Rightarrow> bool" where
  "latestOnly t = (t = ''sensor_snapshot'')"

text \<open>
  A subscriber: what is left of the snapshot to replay, the channel \<^verbatim>\<open>live\<close>, and the sequence of
  events sent so far on the channel \<^verbatim>\<open>out\<close>.
\<close>

record client =
  cl_snap :: "hub_event list"
  cl_live :: "hub_event list"
  cl_sent :: "hub_event list"

record Hub =
  h_clients :: "(nat \<times> client) list"
  h_buf :: "hub_event list"
  h_bufBytes :: int
  h_bufMax :: int
  h_latest :: "(string \<times> hub_event) list"

definition NewHub :: "int \<Rightarrow> Hub" where
  "NewHub bufMax = \<lparr>h_clients = [], h_buf = [], h_bufBytes = 0, h_bufMax = bufMax, h_latest = []\<rparr>"

text \<open>The eviction loop of \<^verbatim>\<open>Publish\<close>.\<close>

fun evict_loop :: "int \<Rightarrow> hub_event list \<Rightarrow> int \<Rightarrow> hub_event list \<times> int" where
  "evict_loop bufMax [] bytes = ([], bytes)"
| "evict_loop bufMax (e # es) bytes =
     (if bufMax < int (length (e # es)) \<or> maxBufBytes < bytes
      then evict_loop bufMax es (bytes - int (length (he_Data e)))
      else (e # es, bytes))"

text \<open>The non-blocking send on a channel of capacity 256.\<close>

definition try_send :: "hub_event \<Rightarrow> client \<Rightarrow> client" where
  "try_send e c = (if length (cl_live c) < liveCap then c\<lparr>cl_live := cl_live c @ [e]\<rparr> else c)"

definition latest_key :: "hub_event \<Rightarrow> string" where
  "latest_key e = he_Type e @ ''/'' @ he_Cluster e"

definition Publish :: "hub_event \<Rightarrow> Hub \<Rightarrow> Hub" where
  "Publish e h =
     (let h1 = (if latestOnly (he_Type e)
                then h\<lparr>h_latest := AList.update (latest_key e) e (h_latest h)\<rparr>
                else let (b, n) = evict_loop (h_bufMax h) (h_buf h @ [e])
                                    (h_bufBytes h + int (length (he_Data e)))
                     in h\<lparr>h_buf := b, h_bufBytes := n\<rparr>)
      in h1\<lparr>h_clients := map (\<lambda>(i, c). (i, try_send e c)) (h_clients h)\<rparr>)"

definition Latest :: "Hub \<Rightarrow> string \<Rightarrow> hub_event list" where
  "Latest h typ = filter (\<lambda>e. he_Type e = typ) (map snd (h_latest h))"

text \<open>
  \<^verbatim>\<open>Subscribe\<close>: \<open>None\<close> is the closed channel returned when the hub is full. The new channel is
  the name \<open>i\<close>.
\<close>

definition Subscribe :: "nat \<Rightarrow> Hub \<Rightarrow> Hub option" where
  "Subscribe i h =
     (if maxClients \<le> length (h_clients h) then None
      else Some (h\<lparr>h_clients := h_clients h @
             [(i, \<lparr>cl_snap = map snd (h_latest h) @ h_buf h, cl_live = [], cl_sent = []\<rparr>)]\<rparr>))"

definition Unsubscribe :: "nat \<Rightarrow> Hub \<Rightarrow> Hub" where
  "Unsubscribe i h = h\<lparr>h_clients := filter (\<lambda>(j, c). j \<noteq> i) (h_clients h)\<rparr>"

definition on_client :: "nat \<Rightarrow> (client \<Rightarrow> client) \<Rightarrow> Hub \<Rightarrow> Hub" where
  "on_client i f h = h\<lparr>h_clients := map (\<lambda>(j, c). (j, if j = i then f c else c)) (h_clients h)\<rparr>"

text \<open>One iteration of the subscriber's goroutine: first the snapshot, then the live channel.\<close>

fun relay :: "client \<Rightarrow> client" where
  "relay c =
     (case cl_snap c of
        e # es \<Rightarrow> c\<lparr>cl_snap := es, cl_sent := cl_sent c @ [e]\<rparr>
      | [] \<Rightarrow> (case cl_live c of e # es \<Rightarrow> c\<lparr>cl_live := es, cl_sent := cl_sent c @ [e]\<rparr> | [] \<Rightarrow> c))"

text \<open>
  \<^verbatim>\<open>summarizeBuffer\<close>: the counts per type, printed and sorted.
\<close>

fun count_types :: "hub_event list \<Rightarrow> (string \<times> nat) list \<Rightarrow> (string \<times> nat) list" where
  "count_types [] cs = cs"
| "count_types (e # es) cs =
     count_types es (AList.update (he_Type e)
       (Suc (case map_of cs (he_Type e) of None \<Rightarrow> 0 | Some n \<Rightarrow> n)) cs)"

definition summarizeBuffer :: "hub_event list \<Rightarrow> string" where
  "summarizeBuffer buf =
     (if buf = [] then ''buffer empty''
      else join '' '' (sort (map (\<lambda>(t, n). t @ ''='' @ nat_str n) (count_types buf []))))"

text \<open>Which events the stream for a cluster carries (\<^verbatim>\<open>ServeHTTP\<close>).\<close>

definition stream_passes :: "string \<Rightarrow> hub_event \<Rightarrow> bool" where
  "stream_passes query e =
     (let want = trim_space query in
      \<not> (want \<noteq> [] \<and> want \<noteq> ''*'' \<and> he_Cluster e \<noteq> [] \<and> he_Cluster e \<noteq> want))"

subsection \<open>The buffer is the longest suffix that fits\<close>

definition data_size :: "hub_event list \<Rightarrow> int" where
  "data_size es = sum_list (map (\<lambda>e. int (length (he_Data e))) es)"

definition fits :: "int \<Rightarrow> hub_event list \<Rightarrow> bool" where
  "fits bufMax es = (es = [] \<or> int (length es) \<le> bufMax \<and> data_size es \<le> maxBufBytes)"

text \<open>The specification: drop events from the front until the rest fits.\<close>

fun longest_fit :: "int \<Rightarrow> hub_event list \<Rightarrow> hub_event list" where
  "longest_fit bufMax [] = []"
| "longest_fit bufMax (e # es) = (if fits bufMax (e # es) then e # es else longest_fit bufMax es)"

lemma data_size_simps [simp]:
  "data_size [] = 0" "data_size (e # es) = int (length (he_Data e)) + data_size es"
  "data_size (xs @ ys) = data_size xs + data_size ys"
  by (simp_all add: data_size_def)

lemma data_size_nonneg [simp]: "0 \<le> data_size es"
  unfolding data_size_def by (rule sum_list_nonneg_int) auto

lemma longest_fit_suffix: "suffix (longest_fit m es) es"
  by (induction es) (auto simp: suffix_ConsI)

lemma longest_fit_fits: "fits m (longest_fit m es)"
  by (induction es) (auto simp: fits_def)

lemma longest_fit_longest:
  "suffix s es \<Longrightarrow> fits m s \<Longrightarrow> suffix s (longest_fit m es)"
  by (induction es) (auto simp: suffix_Cons)

lemma evict_loop_longest:
  "evict_loop m es (data_size es) = (longest_fit m es, data_size (longest_fit m es))"
proof (induction es)
  case (Cons e es)
  have "(m < int (length (e # es)) \<or> maxBufBytes < data_size (e # es)) = (\<not> fits m (e # es))"
    by (auto simp: fits_def)
  with Cons.IH show ?case by (auto simp del: data_size_simps(2)) (simp_all add: data_size_simps)
qed simp

lemma fits_mono: "fits m (xs @ ys) \<Longrightarrow> fits m ys"
  using data_size_nonneg [of xs] by (auto simp: fits_def simp del: data_size_nonneg)

lemma fits_butlast: "fits m (xs @ [e]) \<Longrightarrow> fits m xs"
  by (auto simp: fits_def)

lemma longest_fit_snoc: "longest_fit m (longest_fit m xs @ [e]) = longest_fit m (xs @ [e])"
proof (rule suffix_order.antisym)
  show "suffix (longest_fit m (longest_fit m xs @ [e])) (longest_fit m (xs @ [e]))"
  proof (rule longest_fit_longest)
    have "suffix (longest_fit m xs @ [e]) (xs @ [e])" using longest_fit_suffix by (auto simp: suffix_def)
    with longest_fit_suffix show "suffix (longest_fit m (longest_fit m xs @ [e])) (xs @ [e])"
      by (rule suffix_order.trans)
  qed (rule longest_fit_fits)
  have "suffix (longest_fit m (xs @ [e])) (longest_fit m xs @ [e])"
  proof (cases "longest_fit m (xs @ [e]) = []")
    case False
    then obtain s where s: "longest_fit m (xs @ [e]) = s @ [e]" "suffix s xs"
      using longest_fit_suffix [of m "xs @ [e]"] by auto
    have "fits m s" using longest_fit_fits [of m "xs @ [e]"] s(1) fits_butlast by simp
    with s longest_fit_longest show ?thesis by simp
  qed simp
  then show "suffix (longest_fit m (xs @ [e])) (longest_fit m (longest_fit m xs @ [e]))"
    by (rule longest_fit_longest) (rule longest_fit_fits)
qed

subsection \<open>Executions\<close>

text \<open>
  The states a hub can reach while the list \<open>H\<close> of events is published: publications,
  subscriptions, the goroutines' steps and disconnections in any interleaving.
\<close>

inductive hub_reach :: "int \<Rightarrow> hub_event list \<Rightarrow> Hub \<Rightarrow> bool" for m where
  hub_new: "hub_reach m [] (NewHub m)"
| hub_publish: "hub_reach m H h \<Longrightarrow> hub_reach m (H @ [e]) (Publish e h)"
| hub_subscribe: "hub_reach m H h \<Longrightarrow> i \<notin> fst ` set (h_clients h) \<Longrightarrow> Subscribe i h = Some h'
    \<Longrightarrow> hub_reach m H h'"
| hub_relay: "hub_reach m H h \<Longrightarrow> hub_reach m H (on_client i relay h)"
| hub_leave: "hub_reach m H h \<Longrightarrow> hub_reach m H (Unsubscribe i h)"

definition replayable :: "hub_event list \<Rightarrow> hub_event list" where
  "replayable H = filter (\<lambda>e. \<not> latestOnly (he_Type e)) H"

definition buffer_inv :: "int \<Rightarrow> hub_event list \<Rightarrow> Hub \<Rightarrow> bool" where
  "buffer_inv m H h = (h_bufMax h = m \<and> h_buf h = longest_fit m (replayable H)
     \<and> h_bufBytes h = data_size (h_buf h)
     \<and> (\<forall>e\<in>snd ` set (h_latest h). e \<in> set H \<and> latestOnly (he_Type e)))"

lemma alist_update_values: "snd ` set (AList.update k v al) \<subseteq> insert v (snd ` set al)"
  by (induction al) auto

lemma Publish_buffer:
  "buffer_inv m H h \<Longrightarrow> buffer_inv m (H @ [e]) (Publish e h)"
proof -
  assume inv: "buffer_inv m H h"
  show ?thesis
  proof (cases "latestOnly (he_Type e)")
    case True
    have "snd ` set (AList.update (latest_key e) e (h_latest h)) \<subseteq> insert e (snd ` set (h_latest h))"
      by (rule alist_update_values)
    with inv True have "\<forall>x\<in>snd ` set (AList.update (latest_key e) e (h_latest h)).
        x \<in> set (H @ [e]) \<and> latestOnly (he_Type x)"
      unfolding buffer_inv_def by (metis (no_types, lifting) Un_iff insert_iff list.set_intros(1) set_append subsetD)
    with inv True show ?thesis by (simp add: buffer_inv_def Publish_def Let_def replayable_def)
  next
    case False
    have "evict_loop m (h_buf h @ [e]) (h_bufBytes h + int (length (he_Data e)))
          = (longest_fit m (h_buf h @ [e]), data_size (longest_fit m (h_buf h @ [e])))"
      using evict_loop_longest [of m "h_buf h @ [e]"] inv by (simp add: buffer_inv_def)
    with inv False longest_fit_snoc [of m "replayable H" e] show ?thesis
      by (auto simp: buffer_inv_def Publish_def Let_def replayable_def)
  qed
qed

lemma buffer_inv_frame:
  "h_bufMax h' = h_bufMax h \<Longrightarrow> h_buf h' = h_buf h \<Longrightarrow> h_bufBytes h' = h_bufBytes h \<Longrightarrow>
   h_latest h' = h_latest h \<Longrightarrow> buffer_inv m H h \<Longrightarrow> buffer_inv m H h'"
  by (simp add: buffer_inv_def)

lemma hub_reach_buffer: "hub_reach m H h \<Longrightarrow> buffer_inv m H h"
proof (induction rule: hub_reach.induct)
  case hub_new
  then show ?case by (simp add: buffer_inv_def NewHub_def replayable_def)
next
  case (hub_publish H h e)
  then show ?case by (simp add: Publish_buffer)
next
  case (hub_subscribe H h i h')
  from hub_subscribe(3,4) show ?case
    by (auto simp: Subscribe_def split: if_splits intro: buffer_inv_frame [rotated -1])
next
  case (hub_relay H h i)
  then show ?case by (auto simp: on_client_def intro: buffer_inv_frame [rotated -1])
next
  case (hub_leave H h i)
  then show ?case by (auto simp: Unsubscribe_def intro: buffer_inv_frame [rotated -1])
qed

subsection \<open>What a subscriber sees\<close>

text \<open>Latest-only events first, then a subsequence of what was published.\<close>

definition seen_ok :: "hub_event list \<Rightarrow> hub_event list \<Rightarrow> bool" where
  "seen_ok H xs = (\<exists>lat rest. xs = lat @ rest \<and> subseq rest H
     \<and> (\<forall>e\<in>set lat. e \<in> set H \<and> latestOnly (he_Type e)))"

definition client_inv :: "hub_event list \<Rightarrow> client \<Rightarrow> bool" where
  "client_inv H c = (length (cl_live c) \<le> liveCap \<and> seen_ok H (cl_sent c @ cl_snap c @ cl_live c))"

lemma seen_ok_skip: "seen_ok H xs \<Longrightarrow> seen_ok (H @ [e]) xs"
  unfolding seen_ok_def using subseq_rev_drop_many by fastforce

lemma seen_ok_snoc: "seen_ok H xs \<Longrightarrow> seen_ok (H @ [e]) (xs @ [e])"
proof -
  assume "seen_ok H xs"
  then obtain lat rest where "xs = lat @ rest" "subseq rest H"
    "\<forall>e\<in>set lat. e \<in> set H \<and> latestOnly (he_Type e)" unfolding seen_ok_def by blast
  then have "xs @ [e] = lat @ (rest @ [e]) \<and> subseq (rest @ [e]) (H @ [e])
      \<and> (\<forall>x\<in>set lat. x \<in> set (H @ [e]) \<and> latestOnly (he_Type x))" by simp
  then show ?thesis unfolding seen_ok_def by blast
qed

definition clients_inv :: "hub_event list \<Rightarrow> Hub \<Rightarrow> bool" where
  "clients_inv H h = ((\<forall>(i, c)\<in>set (h_clients h). client_inv H c)
     \<and> length (h_clients h) \<le> maxClients \<and> distinct (map fst (h_clients h)))"

lemma client_inv_publish: "client_inv H c \<Longrightarrow> client_inv (H @ [e]) (try_send e c)"
  using seen_ok_skip [of H _ e] seen_ok_snoc [of H "cl_sent c @ cl_snap c @ cl_live c" e]
  by (simp add: client_inv_def try_send_def)

lemma client_inv_relay: "client_inv H c \<Longrightarrow> client_inv H (relay c)"
  by (cases "cl_snap c"; cases "cl_live c") (simp_all add: client_inv_def)

lemma client_inv_subscribe:
  assumes "buffer_inv m H h"
  shows "client_inv H \<lparr>cl_snap = map snd (h_latest h) @ h_buf h, cl_live = [], cl_sent = []\<rparr>"
proof -
  have "subseq (longest_fit m (replayable H)) (replayable H)"
    by (rule suffix_imp_subseq [OF longest_fit_suffix])
  moreover have "subseq (replayable H) H" by (simp add: replayable_def)
  ultimately have "subseq (h_buf h) H" using assms subseq_order.trans by (auto simp: buffer_inv_def)
  moreover have "\<forall>e\<in>set (map snd (h_latest h)). e \<in> set H \<and> latestOnly (he_Type e)"
    using assms by (simp add: buffer_inv_def)
  ultimately have "seen_ok H (map snd (h_latest h) @ h_buf h)" unfolding seen_ok_def by blast
  then show ?thesis by (simp add: client_inv_def)
qed

lemma hub_reach_clients: "hub_reach m H h \<Longrightarrow> clients_inv H h"
proof (induction rule: hub_reach.induct)
  case hub_new
  then show ?case by (simp add: clients_inv_def NewHub_def)
next
  case (hub_publish H h e)
  have "h_clients (Publish e h) = map (\<lambda>(i, c). (i, try_send e c)) (h_clients h)"
    by (simp add: Publish_def Let_def split: prod.splits)
  with hub_publish.IH show ?case
    by (auto simp: clients_inv_def client_inv_publish comp_def case_prod_unfold)
next
  case (hub_subscribe H h i h')
  from client_inv_subscribe [OF hub_reach_buffer [OF hub_subscribe(1)]] hub_subscribe(2-)
  show ?case by (auto simp: clients_inv_def Subscribe_def split: if_splits)
next
  case (hub_relay H h i)
  then show ?case
    by (auto simp: clients_inv_def on_client_def client_inv_relay comp_def case_prod_unfold simp del: relay.simps)
next
  case (hub_leave H h i)
  have "length (filter P (h_clients h)) \<le> maxClients" for P
  proof -
    have "length (h_clients h) \<le> maxClients" using hub_leave.IH unfolding clients_inv_def by blast
    with length_filter_le show ?thesis by (rule order_trans)
  qed
  with hub_leave.IH show ?case
    by (auto simp: clients_inv_def Unsubscribe_def intro: distinct_map_filter)
qed

text \<open>C18. The replay buffer refines its specification: in every reachable state, whatever was
  published and whoever came and went, the buffer is the longest suffix of the replayable events
  within both the count and the byte bound, and the byte counter is the size of its contents.\<close>

theorem hub_buffer_is_longest_suffix:
  assumes "hub_reach bufMax H h"
  shows "h_buf h = longest_fit bufMax (filter (\<lambda>e. \<not> latestOnly (he_Type e)) H)
    \<and> h_bufBytes h = data_size (h_buf h) \<and> fits bufMax (h_buf h)
    \<and> (suffix s (filter (\<lambda>e. \<not> latestOnly (he_Type e)) H) \<and> fits bufMax s \<longrightarrow> suffix s (h_buf h))"
  using hub_reach_buffer [OF assms] longest_fit_fits longest_fit_longest
  by (simp add: buffer_inv_def replayable_def)

definition ev :: "string \<Rightarrow> hub_event" where
  "ev d = \<lparr>he_Type = ''audit'', he_Cluster = ''c'', he_Data = d\<rparr>"

definition hub_two :: Hub where
  "hub_two = Publish (ev ''3'') (Publish (ev ''2'') (Publish (ev ''1'') (NewHub 2)))"

lemma hub_two_reach: "hub_reach 2 [ev ''1'', ev ''2'', ev ''3''] hub_two"
  using hub_publish [OF hub_publish [OF hub_publish [OF hub_new]], of 2 "ev ''1''" "ev ''2''" "ev ''3''"]
  by (simp add: hub_two_def)

theorem hub_buffer_is_longest_suffix_witness: "h_buf hub_two = [ev ''2'', ev ''3'']"
  using hub_buffer_is_longest_suffix [OF hub_two_reach]
  by (simp add: ev_def latestOnly_def fits_def maxBufBytes_def)


definition hub_joined :: Hub where
  "hub_joined = on_client 7 relay (Publish (ev ''4'')
     (hub_two\<lparr>h_clients := [(7, \<lparr>cl_snap = h_buf hub_two, cl_live = [], cl_sent = []\<rparr>)]\<rparr>))"

lemma hub_two_eval: "h_buf hub_two = [ev ''2'', ev ''3'']" "h_latest hub_two = []" "h_clients hub_two = []"
  "h_bufMax hub_two = 2" "h_bufBytes hub_two = 2"
  by (simp_all add: hub_two_def Publish_def NewHub_def ev_def latestOnly_def maxBufBytes_def)

lemma hub_joined_reach: "hub_reach 2 [ev ''1'', ev ''2'', ev ''3'', ev ''4''] hub_joined"
proof -
  have "Subscribe 7 hub_two =
      Some (hub_two\<lparr>h_clients := [(7, \<lparr>cl_snap = h_buf hub_two, cl_live = [], cl_sent = []\<rparr>)]\<rparr>)"
    by (simp add: Subscribe_def hub_two_eval maxClients_def)
  from hub_relay [OF hub_publish [OF hub_subscribe [OF hub_two_reach _ this]], of "ev ''4''" 7]
  show ?thesis by (simp add: hub_joined_def hub_two_eval del: relay.simps)
qed


end
