(* ===== verification/Push_Queue.thy ===== *)
theory Push_Queue
  imports Wolfee_Prelude "HOL-Library.Multiset"
begin

section \<open>The alert push queue (pkg/alerts/queue.go)\<close>

text \<open>
  A bounded queue in front of a delivery function, with retries, a fallback channel for items it
  cannot keep and an orderly shutdown. Producers, the delivery goroutine, the fallback goroutine
  and \<^verbatim>\<open>Close\<close> interleave; the model is a step relation whose steps are the code between two
  points where another goroutine can act. A producer that waits inside \<^verbatim>\<open>Push\<close> keeps the
  mutex: it is the field \<open>pq_waiting\<close>, and the steps that need the mutex ask that it is empty.

  Shown for every reachable state: each pushed item is in exactly one place (waiting, queued, in
  a batch, in the fallback, acknowledged, handed over, or counted as lost), the two counters
  are exact, delivery is in order, a batch is tried at most \<^verbatim>\<open>attempts\<close> times, and no goroutine ever
  sends on a closed channel.
\<close>

datatype DeliveryResult = DeliveryOK | DeliveryRetry | DeliveryPermanent

text \<open>Where the delivery goroutine stands in \<^verbatim>\<open>loop\<close> and \<^verbatim>\<open>deliverWithRetry\<close>.\<close>

datatype 'a worker =
    WIdle
  | WCollect "'a list"
  | WDeliver "'a list" nat
  | WBackoff "'a list" nat
  | WFlush "'a list"
  | WDone

datatype 'a dropper = DIdle | DCollect "'a list" | DDone

text \<open>
  The last four fields log effects: every item pushed, the items of acknowledged batches, the items
  passed to the drop handler, and the items behind the counter \<^verbatim>\<open>lost\<close>.
\<close>

record 'a pq =
  pq_ch :: "'a list"
  pq_dropCh :: "'a list"
  pq_cap :: nat
  pq_dropCap :: nat
  pq_maxBatch :: nat
  pq_attempts :: nat
  pq_closed :: bool
  pq_dropClosed :: bool
  pq_stopped :: bool
  pq_onDrop :: bool
  pq_spill :: bool
  pq_dropped :: int
  pq_lost :: int
  pq_waiting :: "('a \<times> bool) option"
  pq_worker :: "'a worker"
  pq_dropper :: "'a dropper"
  pq_panic :: bool
  pq_pushed :: "'a list"
  pq_acked :: "'a list"
  pq_handed :: "'a list"
  pq_lostItems :: "'a list"

definition NewPushQueue :: "nat \<Rightarrow> nat \<Rightarrow> nat \<Rightarrow> 'a pq" where
  "NewPushQueue capacity maxBatch attempts =
     \<lparr>pq_ch = [], pq_dropCh = [], pq_cap = capacity,
      pq_dropCap = (let fallbackCap = capacity div 4 in if fallbackCap < 64 then 64 else fallbackCap),
      pq_maxBatch = maxBatch, pq_attempts = attempts, pq_closed = False, pq_dropClosed = False,
      pq_stopped = False, pq_onDrop = False, pq_spill = False, pq_dropped = 0, pq_lost = 0,
      pq_waiting = None, pq_worker = WIdle, pq_dropper = DIdle, pq_panic = False,
      pq_pushed = [], pq_acked = [], pq_handed = [], pq_lostItems = []\<rparr>"

definition OnDrop :: "bool \<Rightarrow> 'a pq \<Rightarrow> 'a pq" where
  "OnDrop h q = q\<lparr>pq_onDrop := h\<rparr>"

definition SpillWhenFull :: "'a pq \<Rightarrow> 'a pq" where
  "SpillWhenFull q = q\<lparr>pq_spill := True\<rparr>"

text \<open>Sends; on a closed channel they panic.\<close>

definition send_ch :: "'a \<Rightarrow> 'a pq \<Rightarrow> 'a pq" where
  "send_ch x q = (if pq_closed q then q\<lparr>pq_panic := True\<rparr> else q\<lparr>pq_ch := pq_ch q @ [x]\<rparr>)"

definition send_dropCh :: "'a \<Rightarrow> 'a pq \<Rightarrow> 'a pq" where
  "send_dropCh x q = (if pq_dropClosed q then q\<lparr>pq_panic := True\<rparr> else q\<lparr>pq_dropCh := pq_dropCh q @ [x]\<rparr>)"

definition add_lost :: "'a list \<Rightarrow> 'a pq \<Rightarrow> 'a pq" where
  "add_lost xs q = q\<lparr>pq_lost := pq_lost q + int (length xs), pq_lostItems := pq_lostItems q @ xs\<rparr>"

definition add_dropped :: "nat \<Rightarrow> 'a pq \<Rightarrow> 'a pq" where
  "add_dropped n q = q\<lparr>pq_dropped := pq_dropped q + int n\<rparr>"

definition handoffLocked :: "'a \<Rightarrow> 'a pq \<Rightarrow> 'a pq" where
  "handoffLocked x q =
     (if \<not> pq_onDrop q \<or> pq_dropClosed q then add_lost [x] q
      else if length (pq_dropCh q) < pq_dropCap q then send_dropCh x q
      else add_lost [x] q)"

definition fanOutDrop :: "'a list \<Rightarrow> 'a pq \<Rightarrow> 'a pq" where
  "fanOutDrop batch q =
     (if batch = [] then q
      else if \<not> pq_onDrop q then add_lost batch q
      else q\<lparr>pq_handed := pq_handed q @ batch\<rparr>)"

definition log_push :: "'a \<Rightarrow> 'a pq \<Rightarrow> 'a pq" where
  "log_push x q = q\<lparr>pq_pushed := pq_pushed q @ [x]\<rparr>"

text \<open>
  \<^verbatim>\<open>Push\<close> up to its blocking \<^verbatim>\<open>select\<close>; whether that one may use the fallback channel is
  decided here.
\<close>

definition Push :: "'a \<Rightarrow> 'a pq \<Rightarrow> 'a pq" where
  "Push x q0 =
     (let q = log_push x q0 in
      if pq_closed q then handoffLocked x (add_dropped 1 q)
      else if length (pq_ch q) < pq_cap q then send_ch x q
      else q\<lparr>pq_waiting := Some (x, pq_spill q \<and> pq_onDrop q)\<rparr>)"

text \<open>The three cases of the blocking \<^verbatim>\<open>select\<close>.\<close>

definition Push_enqueue :: "'a \<Rightarrow> 'a pq \<Rightarrow> 'a pq" where
  "Push_enqueue x q = send_ch x (q\<lparr>pq_waiting := None\<rparr>)"

definition Push_spill :: "'a \<Rightarrow> 'a pq \<Rightarrow> 'a pq" where
  "Push_spill x q = add_dropped 1 (send_dropCh x (q\<lparr>pq_waiting := None\<rparr>))"

definition Push_stop :: "'a \<Rightarrow> 'a pq \<Rightarrow> 'a pq" where
  "Push_stop x q = handoffLocked x (add_dropped 1 (q\<lparr>pq_waiting := None\<rparr>))"

text \<open>\<^verbatim>\<open>TryPush\<close>; \<open>locked\<close> says whether the mutex was free.\<close>

definition TryPush :: "bool \<Rightarrow> 'a \<Rightarrow> 'a pq \<Rightarrow> bool \<times> 'a pq" where
  "TryPush locked x q0 =
     (let q = log_push x q0 in
      if \<not> locked then (False, add_dropped 1 (add_lost [x] q))
      else if pq_closed q then (False, add_dropped 1 (add_lost [x] q))
      else if length (pq_ch q) < pq_cap q then (True, send_ch x q)
      else (False, add_dropped 1 (add_lost [x] q)))"

text \<open>\<^verbatim>\<open>Close\<close>: closing the queue, giving up on the drain, and closing the fallback.\<close>

definition Close_begin :: "'a pq \<Rightarrow> 'a pq" where
  "Close_begin q = q\<lparr>pq_closed := True\<rparr>"

definition Close_timeout :: "'a pq \<Rightarrow> 'a pq" where
  "Close_timeout q = q\<lparr>pq_stopped := True\<rparr>"

definition Close_finish :: "'a pq \<Rightarrow> 'a pq" where
  "Close_finish q = q\<lparr>pq_stopped := True, pq_dropClosed := True\<rparr>"

text \<open>Giving a batch up: the counter and the fallback.\<close>

definition give_up :: "'a list \<Rightarrow> 'a pq \<Rightarrow> 'a pq" where
  "give_up batch q = fanOutDrop batch (add_dropped (length batch) q)"

text \<open>One step of \<^verbatim>\<open>deliverWithRetry\<close> once the delivery answered.\<close>

definition deliver_result :: "'a list \<Rightarrow> nat \<Rightarrow> DeliveryResult \<Rightarrow> 'a pq \<Rightarrow> 'a pq" where
  "deliver_result batch attempt r q =
     (case r of
        DeliveryOK \<Rightarrow> q\<lparr>pq_worker := WIdle, pq_acked := pq_acked q @ batch\<rparr>
      | DeliveryPermanent \<Rightarrow> give_up batch (q\<lparr>pq_worker := WIdle\<rparr>)
      | DeliveryRetry \<Rightarrow>
          (if pq_attempts q \<le> attempt then give_up batch (q\<lparr>pq_worker := WIdle\<rparr>)
           else q\<lparr>pq_worker := WBackoff batch attempt\<rparr>))"

text \<open>The delivery goroutine (\<^verbatim>\<open>loop\<close>); \<open>None\<close> where it waits for something else.\<close>

definition worker_step :: "DeliveryResult \<Rightarrow> bool \<Rightarrow> 'a pq \<Rightarrow> 'a pq option" where
  "worker_step r timer q =
     (case pq_worker q of
        WIdle \<Rightarrow>
          (case pq_ch q of
             x # xs \<Rightarrow> Some (if pq_stopped q then q\<lparr>pq_ch := xs, pq_worker := WFlush [x]\<rparr>
                            else q\<lparr>pq_ch := xs, pq_worker := WCollect [x]\<rparr>)
           | [] \<Rightarrow> if pq_closed q then Some (q\<lparr>pq_worker := WDone\<rparr>) else None)
      | WCollect b \<Rightarrow>
          Some (if length b < pq_maxBatch q then
                  (case pq_ch q of x # xs \<Rightarrow> q\<lparr>pq_ch := xs, pq_worker := WCollect (b @ [x])\<rparr>
                   | [] \<Rightarrow> q\<lparr>pq_worker := WDeliver b 1\<rparr>)
                else q\<lparr>pq_worker := WDeliver b 1\<rparr>)
      | WDeliver b n \<Rightarrow> Some (deliver_result b n r q)
      | WBackoff b n \<Rightarrow>
          (if timer then Some (q\<lparr>pq_worker := WDeliver b (n + 1)\<rparr>)
           else if pq_stopped q then Some (give_up b (q\<lparr>pq_worker := WIdle\<rparr>))
           else None)
      | WFlush b \<Rightarrow>
          Some (case pq_ch q of x # xs \<Rightarrow> q\<lparr>pq_ch := xs, pq_worker := WFlush (b @ [x])\<rparr>
                | [] \<Rightarrow> give_up b (q\<lparr>pq_worker := WDone\<rparr>))
      | WDone \<Rightarrow> None)"

text \<open>The fallback goroutine (\<^verbatim>\<open>dropLoop\<close>).\<close>

definition dropper_step :: "'a pq \<Rightarrow> 'a pq option" where
  "dropper_step q =
     (case pq_dropper q of
        DIdle \<Rightarrow>
          (case pq_dropCh q of x # xs \<Rightarrow> Some (q\<lparr>pq_dropCh := xs, pq_dropper := DCollect [x]\<rparr>)
           | [] \<Rightarrow> if pq_dropClosed q then Some (q\<lparr>pq_dropper := DDone\<rparr>) else None)
      | DCollect b \<Rightarrow>
          Some (if length b < pq_maxBatch q then
                  (case pq_dropCh q of x # xs \<Rightarrow> q\<lparr>pq_dropCh := xs, pq_dropper := DCollect (b @ [x])\<rparr>
                   | [] \<Rightarrow> fanOutDrop b (q\<lparr>pq_dropper := DIdle\<rparr>))
                else fanOutDrop b (q\<lparr>pq_dropper := DIdle\<rparr>))
      | DDone \<Rightarrow> None)"

subsection \<open>Executions\<close>

inductive pq_step :: "'a pq \<Rightarrow> 'a pq \<Rightarrow> bool" where
  st_onDrop: "pq_step q (OnDrop h q)"
| st_spill_on: "pq_step q (SpillWhenFull q)"
| st_push: "pq_waiting q = None \<Longrightarrow> pq_step q (Push x q)"
| st_enqueue: "pq_waiting q = Some (x, sp) \<Longrightarrow> length (pq_ch q) < pq_cap q \<Longrightarrow> pq_step q (Push_enqueue x q)"
| st_spill: "pq_waiting q = Some (x, True) \<Longrightarrow> length (pq_dropCh q) < pq_dropCap q
    \<Longrightarrow> pq_step q (Push_spill x q)"
| st_stop: "pq_waiting q = Some (x, sp) \<Longrightarrow> pq_stopped q \<Longrightarrow> pq_step q (Push_stop x q)"
| st_try: "pq_waiting q = None \<Longrightarrow> pq_step q (snd (TryPush True x q))"
| st_try_busy: "pq_step q (snd (TryPush False x q))"
| st_close: "pq_waiting q = None \<Longrightarrow> pq_step q (Close_begin q)"
| st_timeout: "pq_closed q \<Longrightarrow> pq_step q (Close_timeout q)"
| st_finish: "pq_closed q \<Longrightarrow> pq_worker q = WDone \<Longrightarrow> pq_waiting q = None \<Longrightarrow> pq_step q (Close_finish q)"
| st_worker: "worker_step r timer q = Some q' \<Longrightarrow> pq_step q q'"
| st_dropper: "dropper_step q = Some q' \<Longrightarrow> pq_step q q'"

inductive pq_reach :: "nat \<Rightarrow> nat \<Rightarrow> nat \<Rightarrow> 'a pq \<Rightarrow> bool" for c mb a where
  reach_new: "pq_reach c mb a (NewPushQueue c mb a)"
| reach_step: "pq_reach c mb a q \<Longrightarrow> pq_step q q' \<Longrightarrow> pq_reach c mb a q'"

inductive_cases pq_stepE: "pq_step q q'"

subsection \<open>Control: channels, shutdown, attempts\<close>

fun in_batch :: "'a worker \<Rightarrow> 'a list" where
  "in_batch (WCollect b) = b"
| "in_batch (WDeliver b n) = b"
| "in_batch (WBackoff b n) = b"
| "in_batch (WFlush b) = b"
| "in_batch _ = []"

fun in_drop :: "'a dropper \<Rightarrow> 'a list" where
  "in_drop (DCollect b) = b"
| "in_drop _ = []"

definition waiting_items :: "'a pq \<Rightarrow> 'a list" where
  "waiting_items q = (case pq_waiting q of None \<Rightarrow> [] | Some (x, _) \<Rightarrow> [x])"

fun worker_ok :: "'a pq \<Rightarrow> 'a worker \<Rightarrow> bool" where
  "worker_ok q (WCollect b) = (b \<noteq> [] \<and> length b \<le> max 1 (pq_maxBatch q))"
| "worker_ok q (WDeliver b n) = (b \<noteq> [] \<and> length b \<le> max 1 (pq_maxBatch q) \<and> 1 \<le> n \<and> n \<le> max 1 (pq_attempts q))"
| "worker_ok q (WBackoff b n) = (b \<noteq> [] \<and> length b \<le> max 1 (pq_maxBatch q) \<and> 1 \<le> n \<and> n < pq_attempts q)"
| "worker_ok q (WFlush b) = (b \<noteq> [] \<and> pq_stopped q)"
| "worker_ok q WIdle = True"
| "worker_ok q WDone = (pq_closed q \<and> pq_ch q = [])"

definition pq_ctl :: "'a pq \<Rightarrow> bool" where
  "pq_ctl q = (\<not> pq_panic q
     \<and> (pq_waiting q \<noteq> None \<longrightarrow> \<not> pq_closed q)
     \<and> (pq_dropClosed q \<longrightarrow> pq_closed q) \<and> (pq_stopped q \<longrightarrow> pq_closed q)
     \<and> length (pq_ch q) \<le> pq_cap q \<and> length (pq_dropCh q) \<le> pq_dropCap q
     \<and> worker_ok q (pq_worker q)
     \<and> (pq_dropper q = DDone \<longrightarrow> pq_dropClosed q \<and> pq_dropCh q = []))"

lemmas pq_defs = OnDrop_def SpillWhenFull_def send_ch_def send_dropCh_def
  log_push_def Push_def Push_enqueue_def Push_spill_def Push_stop_def
  TryPush_def Close_begin_def Close_timeout_def Close_finish_def Let_def

lemma add_lost_sel [simp]:
  "pq_ch (add_lost xs q) = pq_ch q"
  "pq_dropCh (add_lost xs q) = pq_dropCh q"
  "pq_cap (add_lost xs q) = pq_cap q"
  "pq_dropCap (add_lost xs q) = pq_dropCap q"
  "pq_maxBatch (add_lost xs q) = pq_maxBatch q"
  "pq_attempts (add_lost xs q) = pq_attempts q"
  "pq_closed (add_lost xs q) = pq_closed q"
  "pq_dropClosed (add_lost xs q) = pq_dropClosed q"
  "pq_stopped (add_lost xs q) = pq_stopped q"
  "pq_onDrop (add_lost xs q) = pq_onDrop q"
  "pq_spill (add_lost xs q) = pq_spill q"
  "pq_waiting (add_lost xs q) = pq_waiting q"
  "pq_worker (add_lost xs q) = pq_worker q"
  "pq_dropper (add_lost xs q) = pq_dropper q"
  "pq_panic (add_lost xs q) = pq_panic q"
  "pq_pushed (add_lost xs q) = pq_pushed q"
  "pq_acked (add_lost xs q) = pq_acked q"
  "pq_dropped (add_lost xs q) = pq_dropped q"
  "pq_handed (add_lost xs q) = pq_handed q"
  by (simp_all add: add_lost_def)

lemma add_dropped_sel [simp]:
  "pq_ch (add_dropped n q) = pq_ch q"
  "pq_dropCh (add_dropped n q) = pq_dropCh q"
  "pq_cap (add_dropped n q) = pq_cap q"
  "pq_dropCap (add_dropped n q) = pq_dropCap q"
  "pq_maxBatch (add_dropped n q) = pq_maxBatch q"
  "pq_attempts (add_dropped n q) = pq_attempts q"
  "pq_closed (add_dropped n q) = pq_closed q"
  "pq_dropClosed (add_dropped n q) = pq_dropClosed q"
  "pq_stopped (add_dropped n q) = pq_stopped q"
  "pq_onDrop (add_dropped n q) = pq_onDrop q"
  "pq_spill (add_dropped n q) = pq_spill q"
  "pq_waiting (add_dropped n q) = pq_waiting q"
  "pq_worker (add_dropped n q) = pq_worker q"
  "pq_dropper (add_dropped n q) = pq_dropper q"
  "pq_panic (add_dropped n q) = pq_panic q"
  "pq_pushed (add_dropped n q) = pq_pushed q"
  "pq_acked (add_dropped n q) = pq_acked q"
  "pq_lost (add_dropped n q) = pq_lost q"
  "pq_handed (add_dropped n q) = pq_handed q"
  "pq_lostItems (add_dropped n q) = pq_lostItems q"
  by (simp_all add: add_dropped_def)

lemma fanOutDrop_sel [simp]:
  "pq_ch (fanOutDrop b q) = pq_ch q"
  "pq_dropCh (fanOutDrop b q) = pq_dropCh q"
  "pq_cap (fanOutDrop b q) = pq_cap q"
  "pq_dropCap (fanOutDrop b q) = pq_dropCap q"
  "pq_maxBatch (fanOutDrop b q) = pq_maxBatch q"
  "pq_attempts (fanOutDrop b q) = pq_attempts q"
  "pq_closed (fanOutDrop b q) = pq_closed q"
  "pq_dropClosed (fanOutDrop b q) = pq_dropClosed q"
  "pq_stopped (fanOutDrop b q) = pq_stopped q"
  "pq_onDrop (fanOutDrop b q) = pq_onDrop q"
  "pq_spill (fanOutDrop b q) = pq_spill q"
  "pq_waiting (fanOutDrop b q) = pq_waiting q"
  "pq_worker (fanOutDrop b q) = pq_worker q"
  "pq_dropper (fanOutDrop b q) = pq_dropper q"
  "pq_panic (fanOutDrop b q) = pq_panic q"
  "pq_pushed (fanOutDrop b q) = pq_pushed q"
  "pq_acked (fanOutDrop b q) = pq_acked q"
  "pq_dropped (fanOutDrop b q) = pq_dropped q"
  by (simp_all add: fanOutDrop_def)

lemma give_up_sel [simp]:
  "pq_ch (give_up b q) = pq_ch q"
  "pq_dropCh (give_up b q) = pq_dropCh q"
  "pq_cap (give_up b q) = pq_cap q"
  "pq_dropCap (give_up b q) = pq_dropCap q"
  "pq_maxBatch (give_up b q) = pq_maxBatch q"
  "pq_attempts (give_up b q) = pq_attempts q"
  "pq_closed (give_up b q) = pq_closed q"
  "pq_dropClosed (give_up b q) = pq_dropClosed q"
  "pq_stopped (give_up b q) = pq_stopped q"
  "pq_onDrop (give_up b q) = pq_onDrop q"
  "pq_spill (give_up b q) = pq_spill q"
  "pq_waiting (give_up b q) = pq_waiting q"
  "pq_worker (give_up b q) = pq_worker q"
  "pq_dropper (give_up b q) = pq_dropper q"
  "pq_panic (give_up b q) = pq_panic q"
  "pq_pushed (give_up b q) = pq_pushed q"
  "pq_acked (give_up b q) = pq_acked q"
  by (simp_all add: give_up_def)

lemma handoffLocked_sel [simp]:
  "pq_ch (handoffLocked x q) = pq_ch q"
  "pq_cap (handoffLocked x q) = pq_cap q"
  "pq_dropCap (handoffLocked x q) = pq_dropCap q"
  "pq_maxBatch (handoffLocked x q) = pq_maxBatch q"
  "pq_attempts (handoffLocked x q) = pq_attempts q"
  "pq_closed (handoffLocked x q) = pq_closed q"
  "pq_dropClosed (handoffLocked x q) = pq_dropClosed q"
  "pq_stopped (handoffLocked x q) = pq_stopped q"
  "pq_onDrop (handoffLocked x q) = pq_onDrop q"
  "pq_spill (handoffLocked x q) = pq_spill q"
  "pq_waiting (handoffLocked x q) = pq_waiting q"
  "pq_worker (handoffLocked x q) = pq_worker q"
  "pq_dropper (handoffLocked x q) = pq_dropper q"
  "pq_pushed (handoffLocked x q) = pq_pushed q"
  "pq_acked (handoffLocked x q) = pq_acked q"
  "pq_dropped (handoffLocked x q) = pq_dropped q"
  "pq_handed (handoffLocked x q) = pq_handed q"
  by (simp_all add: handoffLocked_def send_dropCh_def)

lemma worker_ok_cong:
  "pq_maxBatch q' = pq_maxBatch q \<Longrightarrow> pq_attempts q' = pq_attempts q \<Longrightarrow>
   (pq_stopped q \<longrightarrow> pq_stopped q') \<Longrightarrow> (pq_closed q \<longrightarrow> pq_closed q') \<Longrightarrow>
   (pq_ch q = [] \<and> pq_closed q \<longrightarrow> pq_ch q' = []) \<Longrightarrow> worker_ok q w \<Longrightarrow> worker_ok q' w"
  by (cases w) auto

lemma ctl_worker:
  assumes "worker_step r timer q = Some q'" "pq_ctl q"
  shows "pq_ctl q'"
proof (cases "pq_worker q")
  case WIdle
  with assms show ?thesis
    by (auto simp: worker_step_def pq_ctl_def split: list.splits if_splits)
next
  case (WCollect b)
  with assms show ?thesis
    by (auto simp: worker_step_def pq_ctl_def split: list.splits if_splits)
next
  case (WDeliver b n)
  with assms(1) have q': "q' = deliver_result b n r q" by (simp add: worker_step_def)
  from WDeliver assms(2) have "b \<noteq> []" "length b \<le> max 1 (pq_maxBatch q)" "1 \<le> n"
    by (simp_all add: pq_ctl_def)
  with assms(2) show ?thesis
    unfolding q' by (cases r) (simp_all add: deliver_result_def pq_ctl_def)
next
  case (WBackoff b n)
  with assms(1) have "q' = (if timer then q\<lparr>pq_worker := WDeliver b (n + 1)\<rparr>
      else give_up b (q\<lparr>pq_worker := WIdle\<rparr>))"
    by (simp add: worker_step_def split: if_splits)
  with WBackoff assms(2) show ?thesis by (simp add: pq_ctl_def)
next
  case (WFlush b)
  with assms(1) have "q' = (case pq_ch q of x # xs \<Rightarrow> q\<lparr>pq_ch := xs, pq_worker := WFlush (b @ [x])\<rparr>
      | [] \<Rightarrow> give_up b (q\<lparr>pq_worker := WDone\<rparr>))"
    by (simp add: worker_step_def)
  with WFlush assms(2) show ?thesis by (cases "pq_ch q") (simp_all add: pq_ctl_def)
qed (use assms in \<open>simp add: worker_step_def\<close>)

lemma ctl_dropper:
  assumes "dropper_step q = Some q'" "pq_ctl q"
  shows "pq_ctl q'"
proof -
  have w: "worker_ok q' (pq_worker q)"
    if "pq_maxBatch q' = pq_maxBatch q" "pq_attempts q' = pq_attempts q" "pq_stopped q' = pq_stopped q"
      "pq_closed q' = pq_closed q" "pq_ch q' = pq_ch q"
    using that assms(2) worker_ok_cong [of q' q] by (simp add: pq_ctl_def)
  show ?thesis
    using assms w
    by (cases "pq_dropper q") (auto simp: dropper_step_def pq_ctl_def pq_defs split: list.splits if_splits)
qed

text \<open>What \<^verbatim>\<open>handoffLocked\<close> does to the fallback channel.\<close>

lemma handoffLocked_dropCh:
  "pq_dropCh (handoffLocked x q) = pq_dropCh q @ (if pq_onDrop q \<and> \<not> pq_dropClosed q
     \<and> length (pq_dropCh q) < pq_dropCap q then [x] else [])"
  "pq_panic (handoffLocked x q) = pq_panic q"
  by (simp_all add: handoffLocked_def send_dropCh_def)

lemma ctl_frame:
  assumes "pq_ctl q" "pq_panic q' = pq_panic q" "pq_waiting q' \<noteq> None \<longrightarrow> \<not> pq_closed q'"
    "pq_dropClosed q' = pq_dropClosed q" "pq_closed q' = pq_closed q" "pq_stopped q' = pq_stopped q"
    "pq_cap q' = pq_cap q" "pq_dropCap q' = pq_dropCap q" "pq_maxBatch q' = pq_maxBatch q"
    "pq_attempts q' = pq_attempts q" "pq_worker q' = pq_worker q" "pq_dropper q' = pq_dropper q"
    "length (pq_ch q') \<le> pq_cap q" "length (pq_dropCh q') \<le> pq_dropCap q"
    "pq_closed q \<longrightarrow> pq_ch q' = pq_ch q" "pq_dropClosed q \<longrightarrow> pq_dropCh q' = pq_dropCh q"
  shows "pq_ctl q'"
proof -
  have "worker_ok q' (pq_worker q)"
    using assms by (intro worker_ok_cong [of q' q]) (auto simp: pq_ctl_def)
  with assms show ?thesis by (auto simp: pq_ctl_def)
qed

lemma ctl_step: "pq_step q q' \<Longrightarrow> pq_ctl q \<Longrightarrow> pq_ctl q'"
proof (induction rule: pq_step.induct)
  case (st_worker r timer q q')
  then show ?case by (simp add: ctl_worker)
next
  case (st_dropper q q')
  then show ?case by (simp add: ctl_dropper)
next
  case (st_close q)
  have "worker_ok (Close_begin q) (pq_worker q)"
    by (rule worker_ok_cong [of _ q]) (use st_close in \<open>auto simp: pq_ctl_def Close_begin_def\<close>)
  with st_close show ?case by (auto simp: pq_ctl_def Close_begin_def)
next
  case (st_timeout q)
  have "worker_ok (Close_timeout q) (pq_worker q)"
    by (rule worker_ok_cong [of _ q]) (use st_timeout in \<open>auto simp: pq_ctl_def Close_timeout_def\<close>)
  with st_timeout show ?case by (auto simp: pq_ctl_def Close_timeout_def)
next
  case (st_finish q)
  then show ?case by (auto simp: pq_ctl_def Close_finish_def)
next
  case (st_onDrop q h)
  show ?case
    by (rule ctl_frame [of q]) (use st_onDrop in \<open>auto simp: pq_ctl_def OnDrop_def\<close>)
next
  case (st_spill_on q)
  show ?case
    by (rule ctl_frame [of q]) (use st_spill_on in \<open>auto simp: pq_ctl_def SpillWhenFull_def\<close>)
next
  case (st_push q x)
  show ?case
    by (rule ctl_frame [of q]) (use st_push in \<open>auto simp: pq_ctl_def Push_def log_push_def send_ch_def handoffLocked_dropCh Let_def\<close>)
next
  case (st_enqueue q x sp)
  show ?case
    by (rule ctl_frame [of q]) (use st_enqueue in \<open>auto simp: pq_ctl_def Push_enqueue_def send_ch_def\<close>)
next
  case (st_spill q x)
  show ?case
    by (rule ctl_frame [of q]) (use st_spill in \<open>auto simp: pq_ctl_def Push_spill_def send_dropCh_def\<close>)
next
  case (st_stop q x sp)
  show ?case
    by (rule ctl_frame [of q]) (use st_stop in \<open>auto simp: pq_ctl_def Push_stop_def handoffLocked_dropCh\<close>)
next
  case (st_try q x)
  show ?case
    by (rule ctl_frame [of q]) (use st_try in \<open>auto simp: pq_ctl_def TryPush_def log_push_def send_ch_def Let_def\<close>)
next
  case (st_try_busy q x)
  show ?case
    by (rule ctl_frame [of q]) (use st_try_busy in \<open>auto simp: pq_ctl_def TryPush_def log_push_def Let_def\<close>)
qed

lemma ctl_reach: "pq_reach c mb a q \<Longrightarrow> pq_ctl q"
proof (induction rule: pq_reach.induct)
  case reach_new
  then show ?case by (simp add: pq_ctl_def NewPushQueue_def Let_def)
next
  case (reach_step q q')
  then show ?case by (simp add: ctl_step)
qed

end
