(* ===== verification/Push_Flow.thy ===== *)
theory Push_Flow
  imports Push_Queue
begin

section \<open>Conservation and order in the push queue\<close>

text \<open>
  The accounting of \<open>Push_Queue\<close>: every pushed item is in exactly one place and both counters
  are exact, in every reachable state, together with the order of delivery.
\<close>

subsection \<open>Flow: where every item is\<close>

text \<open>The main line, in order, and everything that left it.\<close>

definition main_line :: "'a pq \<Rightarrow> 'a list" where
  "main_line q = pq_acked q @ in_batch (pq_worker q) @ pq_ch q @ waiting_items q"

definition aside :: "'a pq \<Rightarrow> 'a multiset" where
  "aside q = mset (pq_dropCh q) + mset (in_drop (pq_dropper q)) + mset (pq_handed q) + mset (pq_lostItems q)"

definition pq_flow :: "'a pq \<Rightarrow> bool" where
  "pq_flow q = (mset (pq_pushed q) = mset (main_line q) + aside q
     \<and> pq_lost q = int (length (pq_lostItems q)) \<and> pq_dropped q = int (size (aside q))
     \<and> subseq (main_line q) (pq_pushed q))"

lemma line_frame [simp]:
  "main_line (add_lost xs q) = main_line q" "main_line (add_dropped n q) = main_line q"
  "main_line (fanOutDrop b q) = main_line q" "main_line (handoffLocked x q) = main_line q"
  by (simp_all add: main_line_def waiting_items_def)

lemma lost_frame [simp]:
  "pq_lost (add_lost xs q) = pq_lost q + int (length xs)"
  "pq_lostItems (add_lost xs q) = pq_lostItems q @ xs"
  "pq_dropped (add_dropped n q) = pq_dropped q + int n"
  "pq_dropped (give_up b q) = pq_dropped q + int (length b)"
  by (simp_all add: add_lost_def add_dropped_def give_up_def)

lemma aside_frame [simp]:
  "aside (add_lost xs q) = aside q + mset xs" "aside (add_dropped n q) = aside q"
  "aside (fanOutDrop b q) = aside q + mset b" "aside (handoffLocked x q) = aside q + {#x#}"
  by (simp_all add: aside_def) (simp_all add: fanOutDrop_def add_lost_def handoffLocked_def send_dropCh_def)

lemma lost_exact [simp]:
  "pq_lost q = int (length (pq_lostItems q)) \<Longrightarrow>
     pq_lost (fanOutDrop b q) = int (length (pq_lostItems (fanOutDrop b q)))"
  "pq_lost q = int (length (pq_lostItems q)) \<Longrightarrow>
     pq_lost (handoffLocked x q) = int (length (pq_lostItems (handoffLocked x q)))"
  by (simp_all add: fanOutDrop_def handoffLocked_def send_dropCh_def)

lemma flow_same:
  assumes "pq_flow q" "main_line q' = main_line q" "aside q' = aside q" "pq_pushed q' = pq_pushed q"
    "pq_lost q' = int (length (pq_lostItems q'))" "pq_dropped q' = pq_dropped q"
  shows "pq_flow q'"
  using assms by (simp add: pq_flow_def)

lemma flow_aside:
  assumes "pq_flow q" "main_line q = xs @ b @ ys" "main_line q' = xs @ ys" "aside q' = aside q + mset b"
    "pq_pushed q' = pq_pushed q" "pq_lost q' = int (length (pq_lostItems q'))"
    "pq_dropped q' = pq_dropped q + int (length b)"
  shows "pq_flow q'"
proof -
  have "subseq (xs @ ys) (xs @ b @ ys)" by (simp add: list_emb_append2 list_emb_append_mono)
  with assms show ?thesis by (auto simp: pq_flow_def intro: subseq_order.trans)
qed

lemma flow_push:
  assumes "pq_flow q" "pq_pushed q' = pq_pushed q @ [x]" "pq_lost q' = int (length (pq_lostItems q'))"
    and "main_line q' = main_line q @ [x] \<and> aside q' = aside q \<and> pq_dropped q' = pq_dropped q
       \<or> main_line q' = main_line q \<and> aside q' = aside q + {#x#} \<and> pq_dropped q' = pq_dropped q + 1"
  shows "pq_flow q'"
  using assms by (auto simp: pq_flow_def subseq_rev_drop_many)

lemma flow_worker:
  assumes "worker_step r timer q = Some q'" "pq_flow q"
  shows "pq_flow q'"
proof -
  have l: "pq_lost q = int (length (pq_lostItems q))" using assms(2) by (simp add: pq_flow_def)
  note line = main_line_def waiting_items_def aside_def
  have up: "pq_flow (give_up b (q\<lparr>pq_worker := w\<rparr>))"
    if "in_batch (pq_worker q) = b" "in_batch w = []" for b w
    using that l
    by (intro flow_aside [OF assms(2), of "pq_acked q" b "pq_ch q @ waiting_items q"])
       (simp_all add: give_up_def, simp_all add: line)
  show ?thesis
  proof (cases "pq_worker q")
    case WIdle
    with assms(1) l show ?thesis
      by (intro flow_same [OF assms(2)])
         (auto simp: worker_step_def line split: list.splits if_splits)
  next
    case (WCollect b)
    with assms(1) l show ?thesis
      by (intro flow_same [OF assms(2)])
         (auto simp: worker_step_def line split: list.splits if_splits)
  next
    case (WDeliver b n)
    with assms(1) have q': "q' = deliver_result b n r q" by (simp add: worker_step_def)
    show ?thesis
    proof (cases "r = DeliveryOK \<or> r = DeliveryRetry \<and> n < pq_attempts q")
      case True
      with q' WDeliver l show ?thesis
        by (intro flow_same [OF assms(2)]) (auto simp: deliver_result_def line)
    next
      case False
      with q' WDeliver have "q' = give_up b (q\<lparr>pq_worker := WIdle\<rparr>)"
        by (cases r) (simp_all add: deliver_result_def)
      with up [of b WIdle] WDeliver show ?thesis by simp
    qed
  next
    case (WBackoff b n)
    with assms(1) have q': "q' = (if timer then q\<lparr>pq_worker := WDeliver b (n + 1)\<rparr>
        else give_up b (q\<lparr>pq_worker := WIdle\<rparr>))"
      by (simp add: worker_step_def split: if_splits)
    have "pq_flow (q\<lparr>pq_worker := WDeliver b (n + 1)\<rparr>)"
      using WBackoff l by (intro flow_same [OF assms(2)]) (simp_all add: line)
    with q' up [of b WIdle] WBackoff show ?thesis by simp
  next
    case (WFlush b)
    with assms(1) have q': "q' = (case pq_ch q of x # xs \<Rightarrow> q\<lparr>pq_ch := xs, pq_worker := WFlush (b @ [x])\<rparr>
        | [] \<Rightarrow> give_up b (q\<lparr>pq_worker := WDone\<rparr>))"
      by (simp add: worker_step_def)
    have "pq_flow (q\<lparr>pq_ch := xs, pq_worker := WFlush (b @ [x])\<rparr>)" if "pq_ch q = x # xs" for x xs
      using WFlush l that by (intro flow_same [OF assms(2)]) (simp_all add: line)
    with q' up [of b WDone] WFlush show ?thesis by (cases "pq_ch q") simp_all
  qed (use assms in \<open>simp add: worker_step_def\<close>)
qed

lemma flow_dropper:
  assumes "dropper_step q = Some q'" "pq_flow q"
  shows "pq_flow q'"
proof -
  have l: "pq_lost q = int (length (pq_lostItems q))" using assms(2) by (simp add: pq_flow_def)
  have fan: "pq_flow (fanOutDrop b (q\<lparr>pq_dropper := DIdle\<rparr>))" if "pq_dropper q = DCollect b" for b
    using that l by (intro flow_same [OF assms(2)]) (simp_all, simp_all add: main_line_def waiting_items_def aside_def)
  have more: "pq_flow (q\<lparr>pq_dropCh := xs, pq_dropper := d\<rparr>)"
    if "mset xs + mset (in_drop d) = mset (pq_dropCh q) + mset (in_drop (pq_dropper q))" for xs d
    using that l by (intro flow_same [OF assms(2)]) (simp_all add: main_line_def waiting_items_def aside_def)
  have idle: "pq_flow (q\<lparr>pq_dropper := DDone\<rparr>)" if "pq_dropper q = DIdle"
    using that l by (intro flow_same [OF assms(2)]) (simp_all add: main_line_def waiting_items_def aside_def)
  show ?thesis
    using assms(1)
    by (cases "pq_dropper q"; cases "pq_dropCh q")
       (auto simp: dropper_step_def intro: fan more idle split: if_splits)
qed

lemma log_push_sel [simp]:
  "pq_pushed (log_push x q) = pq_pushed q @ [x]" "main_line (log_push x q) = main_line q"
  "aside (log_push x q) = aside q" "pq_lost (log_push x q) = pq_lost q"
  "pq_lostItems (log_push x q) = pq_lostItems q" "pq_dropped (log_push x q) = pq_dropped q"
  "pq_closed (log_push x q) = pq_closed q" "pq_ch (log_push x q) = pq_ch q" "pq_cap (log_push x q) = pq_cap q"
  "pq_waiting (log_push x q) = pq_waiting q"
  by (simp_all add: log_push_def main_line_def waiting_items_def aside_def)

text \<open>An item that enters the channel or starts to wait joins the end of the main line.\<close>

lemma send_ch_sel:
  assumes "\<not> pq_closed q" "pq_waiting q = None"
  shows "main_line (send_ch x q) = main_line q @ [x]" "aside (send_ch x q) = aside q"
    "pq_pushed (send_ch x q) = pq_pushed q" "pq_lost (send_ch x q) = pq_lost q"
    "pq_lostItems (send_ch x q) = pq_lostItems q" "pq_dropped (send_ch x q) = pq_dropped q"
  using assms by (simp_all add: send_ch_def main_line_def waiting_items_def aside_def)

lemma wait_sel:
  assumes "pq_waiting q = None"
  shows "main_line (q\<lparr>pq_waiting := Some (x, b)\<rparr>) = main_line q @ [x]"
    "aside (q\<lparr>pq_waiting := Some (x, b)\<rparr>) = aside q"
  using assms by (simp_all add: main_line_def waiting_items_def aside_def)

lemma unwait_sel:
  assumes "pq_waiting q = Some (x, b)"
  shows "main_line q = main_line (q\<lparr>pq_waiting := None\<rparr>) @ [x]"
    "aside (q\<lparr>pq_waiting := None\<rparr>) = aside q"
  using assms by (simp_all add: main_line_def waiting_items_def aside_def)

lemma flow_Push: "pq_waiting q = None \<Longrightarrow> pq_flow q \<Longrightarrow> pq_flow (Push x q)"
proof (rule flow_push [of q _ x])
  assume q: "pq_waiting q = None" "pq_flow q"
  then have l: "pq_lost q = int (length (pq_lostItems q))" by (simp add: pq_flow_def)
  show "pq_pushed (Push x q) = pq_pushed q @ [x]"
    using q by (simp add: Push_def Let_def send_ch_sel)
  show "pq_lost (Push x q) = int (length (pq_lostItems (Push x q)))"
    using q l by (simp add: Push_def Let_def send_ch_sel)
  show "main_line (Push x q) = main_line q @ [x] \<and> aside (Push x q) = aside q
        \<and> pq_dropped (Push x q) = pq_dropped q
      \<or> main_line (Push x q) = main_line q \<and> aside (Push x q) = aside q + {#x#}
        \<and> pq_dropped (Push x q) = pq_dropped q + 1"
    using q by (simp add: Push_def Let_def send_ch_sel wait_sel)
qed

lemma flow_TryPush:
  assumes "locked \<longrightarrow> pq_waiting q = None" "pq_flow q"
  shows "pq_flow (snd (TryPush locked x q))"
proof (rule flow_push [of q _ x])
  have l: "pq_lost q = int (length (pq_lostItems q))" using assms(2) by (simp add: pq_flow_def)
  show "pq_pushed (snd (TryPush locked x q)) = pq_pushed q @ [x]"
    using assms(1) by (simp add: TryPush_def Let_def send_ch_sel)
  show "pq_lost (snd (TryPush locked x q)) = int (length (pq_lostItems (snd (TryPush locked x q))))"
    using assms(1) l by (simp add: TryPush_def Let_def send_ch_sel)
  show "main_line (snd (TryPush locked x q)) = main_line q @ [x]
        \<and> aside (snd (TryPush locked x q)) = aside q
        \<and> pq_dropped (snd (TryPush locked x q)) = pq_dropped q
      \<or> main_line (snd (TryPush locked x q)) = main_line q
        \<and> aside (snd (TryPush locked x q)) = aside q + {#x#}
        \<and> pq_dropped (snd (TryPush locked x q)) = pq_dropped q + 1"
    using assms(1) by (simp add: TryPush_def Let_def send_ch_sel)
qed fact

lemma flow_blocked:
  assumes "pq_waiting q = Some (x, b)" "pq_ctl q" "pq_flow q"
  shows "pq_flow (Push_enqueue x q)" "pq_flow (Push_spill x q)" "pq_flow (Push_stop x q)"
proof -
  let ?q = "q\<lparr>pq_waiting := None\<rparr>"
  note un = unwait_sel [OF assms(1)]
  from assms(1,2) have cl: "\<not> pq_closed q" "\<not> pq_dropClosed q" by (auto simp: pq_ctl_def)
  have l: "pq_lost q = int (length (pq_lostItems q))" using assms(3) by (simp add: pq_flow_def)
  have drop: "main_line (send_dropCh x ?q) = main_line ?q" "aside (send_dropCh x ?q) = aside ?q + {#x#}"
    "pq_pushed (send_dropCh x ?q) = pq_pushed q" "pq_lost (send_dropCh x ?q) = pq_lost q"
    "pq_lostItems (send_dropCh x ?q) = pq_lostItems q" "pq_dropped (send_dropCh x ?q) = pq_dropped q"
    using cl by (simp_all add: send_dropCh_def main_line_def waiting_items_def aside_def)
  show "pq_flow (Push_enqueue x q)"
    by (rule flow_same [OF assms(3)]) (use cl l un in \<open>simp_all add: Push_enqueue_def send_ch_sel\<close>)
  show "pq_flow (Push_spill x q)"
    by (rule flow_aside [OF assms(3), of "main_line ?q" "[x]" "[]"])
       (use l un drop in \<open>simp_all add: Push_spill_def\<close>)
  show "pq_flow (Push_stop x q)"
    by (rule flow_aside [OF assms(3), of "main_line ?q" "[x]" "[]"])
       (use l un in \<open>simp_all add: Push_stop_def\<close>)
qed

lemma flow_step: "pq_step q q' \<Longrightarrow> pq_ctl q \<Longrightarrow> pq_flow q \<Longrightarrow> pq_flow q'"
proof (induction rule: pq_step.induct)
  case (st_worker r timer q q')
  then show ?case by (simp add: flow_worker)
next
  case (st_dropper q q')
  then show ?case by (simp add: flow_dropper)
qed (auto simp: flow_Push flow_TryPush flow_blocked,
     auto simp: OnDrop_def SpillWhenFull_def Close_begin_def Close_timeout_def Close_finish_def
      pq_flow_def main_line_def waiting_items_def aside_def)

lemma flow_reach: "pq_reach c mb a q \<Longrightarrow> pq_flow q"
proof (induction rule: pq_reach.induct)
  case reach_new
  then show ?case
    by (simp add: pq_flow_def NewPushQueue_def Let_def main_line_def waiting_items_def aside_def)
next
  case (reach_step q q')
  then show ?case using ctl_reach flow_step by blast
qed

subsection \<open>The configuration does not change\<close>

definition pq_config :: "'a pq \<Rightarrow> nat \<times> nat \<times> nat" where
  "pq_config q = (pq_cap q, pq_maxBatch q, pq_attempts q)"

lemma config_frame [simp]:
  "pq_config (give_up b q) = pq_config q" "pq_config (fanOutDrop b q) = pq_config q"
  "pq_config (handoffLocked x q) = pq_config q" "pq_config (add_dropped n q) = pq_config q"
  "pq_config (add_lost xs q) = pq_config q" "pq_config (send_ch x q) = pq_config q"
  "pq_config (send_dropCh x q) = pq_config q" "pq_config (log_push x q) = pq_config q"
  "pq_config (q\<lparr>pq_waiting := w\<rparr>) = pq_config q" "pq_config (q\<lparr>pq_worker := wk\<rparr>) = pq_config q"
  "pq_config (q\<lparr>pq_dropper := d\<rparr>) = pq_config q" "pq_config (q\<lparr>pq_ch := xs\<rparr>) = pq_config q"
  "pq_config (q\<lparr>pq_dropCh := xs\<rparr>) = pq_config q" "pq_config (q\<lparr>pq_acked := xs\<rparr>) = pq_config q"
  by (simp_all add: pq_config_def send_ch_def send_dropCh_def log_push_def)

lemma config_step: "pq_step q q' \<Longrightarrow> pq_config q' = pq_config q"
proof (induction rule: pq_step.induct)
  case (st_worker r timer q q')
  then show ?case
    by (cases "pq_worker q"; cases "pq_ch q"; cases r)
       (auto simp: worker_step_def deliver_result_def split: if_splits)
next
  case (st_dropper q q')
  then show ?case
    by (cases "pq_dropper q"; cases "pq_dropCh q") (auto simp: dropper_step_def split: if_splits)
next
  case (st_push q x)
  then show ?case by (simp add: Push_def Let_def)
next
  case (st_try q x)
  then show ?case by (simp add: TryPush_def Let_def)
next
  case (st_try_busy q x)
  then show ?case by (simp add: TryPush_def Let_def)
qed (simp_all add: Push_enqueue_def Push_spill_def Push_stop_def, simp_all add: pq_config_def OnDrop_def
      SpillWhenFull_def Close_begin_def Close_timeout_def Close_finish_def)

lemma config_reach: "pq_reach c mb a q \<Longrightarrow> pq_config q = (c, mb, a)"
proof (induction rule: pq_reach.induct)
  case reach_new
  then show ?case by (simp add: pq_config_def NewPushQueue_def)
next
  case (reach_step q q')
  then show ?case using config_step by metis
qed

text \<open>C5. Nothing disappears without being counted. In every reachable state of the queue, under
  any interleaving of producers, delivery, fallback and shutdown, each pushed item is in exactly
  one place: acknowledged, in the batch being delivered, queued, held by a waiting producer, in
  the fallback, handed to the drop handler, or among the \<^verbatim>\<open>lost\<close> ones; \<^verbatim>\<open>lost\<close> and
  \<^verbatim>\<open>dropped\<close> count exactly. After shutdown every pushed item was acknowledged or is counted in
  \<^verbatim>\<open>dropped\<close>.\<close>

theorem push_queue_conserves_items:
  assumes "pq_reach capacity maxBatch attempts q"
  shows "mset (pq_pushed q) = mset (pq_acked q) + mset (in_batch (pq_worker q)) + mset (pq_ch q)
      + mset (waiting_items q) + mset (pq_dropCh q) + mset (in_drop (pq_dropper q))
      + mset (pq_handed q) + mset (pq_lostItems q)
    \<and> pq_lost q = int (length (pq_lostItems q))
    \<and> pq_dropped q = int (length (pq_dropCh q) + length (in_drop (pq_dropper q)) + length (pq_handed q)) + pq_lost q
    \<and> (pq_worker q = WDone \<and> pq_dropper q = DDone \<longrightarrow>
         int (length (pq_pushed q)) = int (length (pq_acked q)) + pq_dropped q)"
proof -
  from flow_reach [OF assms] have f: "mset (pq_pushed q) = mset (main_line q) + aside q"
    "pq_lost q = int (length (pq_lostItems q))" "pq_dropped q = int (size (aside q))"
    by (simp_all add: pq_flow_def)
  have "int (length (pq_pushed q)) = int (length (pq_acked q)) + pq_dropped q"
    if "pq_worker q = WDone" "pq_dropper q = DDone"
  proof -
    from ctl_reach [OF assms] that have "pq_ch q = []" "waiting_items q = []"
      by (auto simp: pq_ctl_def waiting_items_def split: option.splits)
    with that have "main_line q = pq_acked q" by (simp add: main_line_def)
    moreover have "length (pq_pushed q) = size (mset (pq_pushed q))" by simp
    ultimately show ?thesis using f(1,3) by (metis of_nat_add size_mset size_union)
  qed
  moreover have "mset (main_line q) = mset (pq_acked q) + mset (in_batch (pq_worker q)) + mset (pq_ch q)
      + mset (waiting_items q)" by (simp add: main_line_def)
  ultimately show ?thesis using f by (simp add: aside_def)
qed

text \<open>A run: one alert is pushed, batched and acknowledged; the queue then shuts down.\<close>

definition run_one :: "string pq" where
  "run_one = (NewPushQueue 4 10 3)\<lparr>pq_pushed := [''a''], pq_acked := [''a''], pq_closed := True,
     pq_stopped := True, pq_dropClosed := True, pq_worker := WDone, pq_dropper := DDone\<rparr>"

lemma run_one_reach: "pq_reach 4 10 3 run_one"
proof -
  let ?n = "NewPushQueue 4 10 3 :: string pq"
  note ev = Push_def log_push_def send_ch_def Let_def NewPushQueue_def worker_step_def
    deliver_result_def Close_begin_def Close_finish_def dropper_step_def
  have 1: "pq_reach 4 10 3 (?n\<lparr>pq_pushed := [''a''], pq_ch := [''a'']\<rparr>)"
    using reach_step [OF reach_new st_push [of ?n "''a''"]] by (simp add: ev)
  have 2: "pq_reach 4 10 3 (?n\<lparr>pq_pushed := [''a''], pq_worker := WCollect [''a'']\<rparr>)"
    by (rule reach_step [OF 1], rule st_worker) (simp add: ev)
  have 3: "pq_reach 4 10 3 (?n\<lparr>pq_pushed := [''a''], pq_worker := WDeliver [''a''] 1\<rparr>)"
    by (rule reach_step [OF 2], rule st_worker) (simp add: ev)
  have 4: "pq_reach 4 10 3 (?n\<lparr>pq_pushed := [''a''], pq_acked := [''a'']\<rparr>)"
    by (rule reach_step [OF 3], rule st_worker [of DeliveryOK]) (simp add: ev)
  have 5: "pq_reach 4 10 3 (?n\<lparr>pq_pushed := [''a''], pq_acked := [''a''], pq_closed := True\<rparr>)"
    using reach_step [OF 4 st_close] by (simp add: ev)
  have 6: "pq_reach 4 10 3 (?n\<lparr>pq_pushed := [''a''], pq_acked := [''a''], pq_closed := True, pq_worker := WDone\<rparr>)"
    by (rule reach_step [OF 5], rule st_worker) (simp add: ev)
  have 7: "pq_reach 4 10 3 (?n\<lparr>pq_pushed := [''a''], pq_acked := [''a''], pq_closed := True, pq_worker := WDone,
      pq_stopped := True, pq_dropClosed := True\<rparr>)"
    using reach_step [OF 6 st_finish] by (simp add: ev)
  show ?thesis
    by (rule reach_step [OF 7], rule st_dropper) (simp add: ev run_one_def)
qed

theorem push_queue_conserves_items_witness:
  "int (length (pq_pushed run_one)) = int (length (pq_acked run_one)) + pq_dropped run_one \<and> pq_acked run_one = [''a'']"
  using push_queue_conserves_items [OF run_one_reach] by (simp add: run_one_def)

text \<open>C19. Order and bounds. In every reachable state what was acknowledged, what is being
  delivered and what is queued, in this order, is a subsequence of what was pushed: alerts are
  delivered in order and none twice. The channel keeps its capacity, a batch is never
  empty nor larger than \<^verbatim>\<open>maxBatch\<close>, it is tried at most \<^verbatim>\<open>attempts\<close> times, and no send ever meets
  a closed channel.\<close>

theorem push_queue_in_order:
  assumes "pq_reach capacity maxBatch attempts q"
  shows "subseq (pq_acked q @ in_batch (pq_worker q) @ pq_ch q) (pq_pushed q)
    \<and> length (pq_ch q) \<le> capacity \<and> \<not> pq_panic q
    \<and> (pq_worker q = WDeliver b n \<longrightarrow>
         b \<noteq> [] \<and> length b \<le> max 1 maxBatch \<and> 1 \<le> n \<and> n \<le> max 1 attempts)"
proof -
  from flow_reach [OF assms] have "subseq (main_line q) (pq_pushed q)" by (simp add: pq_flow_def)
  moreover have "subseq (pq_acked q @ in_batch (pq_worker q) @ pq_ch q) (main_line q)"
    unfolding main_line_def by (metis append.assoc prefixI prefix_imp_subseq)
  ultimately have "subseq (pq_acked q @ in_batch (pq_worker q) @ pq_ch q) (pq_pushed q)"
    using subseq_order.trans by blast
  moreover have "pq_cap q = capacity" "pq_maxBatch q = maxBatch" "pq_attempts q = attempts"
    using config_reach [OF assms] by (simp_all add: pq_config_def)
  ultimately show ?thesis using ctl_reach [OF assms] by (auto simp: pq_ctl_def)
qed

theorem push_queue_in_order_witness: "\<not> pq_panic run_one \<and> subseq (pq_acked run_one) (pq_pushed run_one)"
  using push_queue_in_order [OF run_one_reach] by (simp add: run_one_def)

end
