(* ===== verification/Disk_Spool.thy ===== *)
theory Disk_Spool
  imports Go_Json "HOL-Library.AList"
begin

section \<open>The durable spool of the audit sender (pkg/alerts/spool.go)\<close>

text \<open>
  Records are written in batches to numbered files, sent in order from the head, quarantined when
  the receiver refuses them for good, and merged into compressed segments when many files wait.
  The model keeps both the fields of \<^verbatim>\<open>DiskSpool\<close> and the two directories it works on; a file
  carries what decoding it gives, the length of the decoded text and its size on disk. The
  answers of the operating system and of the receiver are arguments, so every error path is
  there. The output of the compressor is only used through its length, the argument \<open>zlen\<close>.
\<close>

subsection \<open>Sizes, names and encoding\<close>

definition spoolBlock :: int where "spoolBlock = 4096"
definition segmentMaxRecords :: nat where "segmentMaxRecords = 4000"
definition segmentMaxBytes :: nat where "segmentMaxBytes = 8 * 2 ^ 20"
definition compactMinFiles :: nat where "compactMinFiles = 16"
definition compactEagerFiles :: nat where "compactEagerFiles = 256"

definition blocks :: "int \<Rightarrow> int" where
  "blocks n = (n + spoolBlock - 1) div spoolBlock * spoolBlock"

text \<open>\<^verbatim>\<open>%020d.json\<close>\<close>

definition pad20 :: "nat \<Rightarrow> string" where
  "pad20 n = (let ds = nat_str n in replicate (20 - length ds) (CHR ''0'') @ ds)"

definition spool_name :: "nat \<Rightarrow> string" where
  "spool_name n = pad20 n @ ''.json''"

text \<open>What \<^verbatim>\<open>json.Marshal\<close> writes for a raw message: no white space outside strings, HTML characters escaped.\<close>

definition is_line_sep :: "char \<Rightarrow> string \<Rightarrow> bool" where
  "is_line_sep c s = (c = CHR 0xE2 \<and> (case s of a # b # _ \<Rightarrow> a = CHR 0x80 \<and> (b = CHR 0xA8 \<or> b = CHR 0xA9) | _ \<Rightarrow> False))"

definition html_escape :: "char \<Rightarrow> string option" where
  "html_escape c = (if c = CHR ''<'' then Some (CHR 0x5C # ''u003c'')
     else if c = CHR ''>'' then Some (CHR 0x5C # ''u003e'')
     else if c = CHR ''&'' then Some (CHR 0x5C # ''u0026'') else None)"

function compact_raw :: "bool \<Rightarrow> string \<Rightarrow> string" where
  "compact_raw in_str [] = []"
| "compact_raw in_str (c # s) =
     (case html_escape c of Some e \<Rightarrow> e @ compact_raw in_str s
      | None \<Rightarrow>
        if is_line_sep c s
        then (CHR 0x5C # ''u202'') @ (if s ! 1 = CHR 0xA8 then ''8'' else ''9'') @ compact_raw in_str (drop 2 s)
        else if \<not> in_str \<and> json_ws c then compact_raw in_str s
        else if in_str \<and> c = CHR 0x5C then c # (case s of [] \<Rightarrow> [] | e # t \<Rightarrow> e # compact_raw in_str t)
        else if c = CHR 0x22 then c # compact_raw (\<not> in_str) s
        else c # compact_raw in_str s)"
  by pat_completeness auto
termination by (relation "measure (\<lambda>(b, s). length s)") auto

declare compact_raw.simps [simp del]

definition json_valid :: "string \<Rightarrow> bool" where
  "json_valid raw = (parse_json raw \<noteq> None)"

definition marshal_raws :: "string list \<Rightarrow> string option" where
  "marshal_raws raws =
     (if list_all json_valid raws
      then Some (''['' @ join '','' (map (compact_raw False) raws) @ '']'') else None)"

subsection \<open>State\<close>

datatype fcontent = Records "string list" | Corrupt

record dfile =
  df_content :: fcontent
  df_len :: nat
  df_size :: nat

type_synonym dir = "(string \<times> dfile) list"

record spool =
  sp_limit :: int
  sp_files :: "(string \<times> int) list"
  sp_bytes :: int
  sp_deadFiles :: nat
  sp_deadBytes :: int
  sp_quarantined :: nat
  sp_sequence :: nat
  sp_lastError :: string
  sp_rejected :: nat
  sp_late :: nat
  sp_compacted :: nat
  sp_closed :: bool
  sp_jobs :: "string list"
  sp_wake :: bool
  sp_pressure :: bool
  sp_main :: dir
  sp_dead :: dir

datatype spool_err =
    ErrSpoolFull
  | ErrInvalidRecord
  | ErrClosed
  | ErrMarshal
  | ErrChanged
  | ErrIO string

fun err_text :: "spool_err \<Rightarrow> string" where
  "err_text ErrSpoolFull = ''audit spool capacity exhausted''"
| "err_text ErrInvalidRecord = ''invalid or oversized spool record''"
| "err_text ErrClosed = ''spool closed''"
| "err_text ErrMarshal = ''json: error calling MarshalJSON''"
| "err_text ErrChanged = ''spool changed during compaction''"
| "err_text (ErrIO e) = e"

subsection \<open>Opening: the directory scan\<close>

text \<open>
  One entry of the directory. \<open>Inl\<close> is the error of a strict scan; otherwise the file it
  adds, if any, with its sequence number. Temporary files are skipped here and removed from the directory.
\<close>

definition scan_entry :: "bool \<Rightarrow> string \<Rightarrow> dfile \<Rightarrow> string + ((string \<times> int) \<times> int) option" where
  "scan_entry strict name f =
     (if has_suffix name ''.tmp'' then Inr None
      else if \<not> has_suffix name ''.json'' \<and> \<not> has_suffix name ''.json.gz'' then Inr None
      else case parse_int64 (trim_suffix (trim_suffix name ''.gz'') ''.json'') of
             None \<Rightarrow> if strict then Inl name else Inr None
           | Some seq \<Rightarrow> Inr (Some ((name, blocks (int (df_size f))), seq)))"

fun scan_loop :: "bool \<Rightarrow> dir \<Rightarrow> nat \<Rightarrow> string + (string \<times> int) list \<times> int \<times> nat" where
  "scan_loop strict [] seq = Inr ([], 0, seq)"
| "scan_loop strict ((name, f) # rest) seq =
     (case scan_entry strict name f of
        Inl e \<Rightarrow> Inl e
      | Inr None \<Rightarrow> scan_loop strict rest seq
      | Inr (Some (fl, n)) \<Rightarrow>
          (case scan_loop strict rest (if int seq < n then nat n else seq) of
             Inl e \<Rightarrow> Inl e
           | Inr (fs, tot, seq') \<Rightarrow> Inr (fl # fs, tot + snd fl, seq')))"

text \<open>\<^verbatim>\<open>os.ReadDir\<close> lists a directory by name; the result is sorted by name once more.\<close>

definition scan :: "bool \<Rightarrow> dir \<Rightarrow> nat \<Rightarrow> string + (string \<times> int) list \<times> int \<times> nat" where
  "scan strict d seq =
     (case scan_loop strict (sort_key fst d) seq of
        Inl e \<Rightarrow> Inl e
      | Inr (fs, tot, seq') \<Rightarrow> Inr (sort_key fst fs, tot, seq'))"

definition without_tmp :: "dir \<Rightarrow> dir" where
  "without_tmp d = filter (\<lambda>(n, f). \<not> has_suffix n ''.tmp'') d"

definition NewDiskSpool :: "int \<Rightarrow> nat \<Rightarrow> dir \<Rightarrow> dir \<Rightarrow> string + spool" where
  "NewDiskSpool limit now main dead =
     (if limit \<le> 0 then Inl ''invalid spool configuration''
      else case scan True main now of
        Inl e \<Rightarrow> Inl (''invalid spool file '' @ e)
      | Inr (pending, sz, seq) \<Rightarrow>
          (case scan False dead seq of
             Inl e \<Rightarrow> Inl e
           | Inr (deadFiles, deadSize, seq') \<Rightarrow>
               Inr \<lparr>sp_limit = limit, sp_files = pending, sp_bytes = sz,
                    sp_deadFiles = length deadFiles, sp_deadBytes = deadSize, sp_quarantined = 0,
                    sp_sequence = seq', sp_lastError = [], sp_rejected = 0, sp_late = 0,
                    sp_compacted = 0, sp_closed = False, sp_jobs = [], sp_wake = False,
                    sp_pressure = False, sp_main = without_tmp main, sp_dead = without_tmp dead\<rparr>))"

subsection \<open>Writing\<close>

definition reject :: "spool_err \<Rightarrow> nat \<Rightarrow> spool \<Rightarrow> spool" where
  "reject e n s = s\<lparr>sp_rejected := sp_rejected s + n, sp_lastError := err_text e\<rparr>"

text \<open>\<^verbatim>\<open>Enqueue\<close> up to the wait for the writer; \<open>None\<close> when the job is in the channel.\<close>

definition jobsCap :: nat where "jobsCap = 256"

definition Enqueue :: "string \<Rightarrow> spool \<Rightarrow> spool_err option \<times> spool" where
  "Enqueue raw s =
     (if \<not> json_valid raw \<or> 2 ^ 20 < length raw then (Some ErrInvalidRecord, s)
      else if sp_closed s then (Some ErrClosed, s)
      else if length (sp_jobs s) < jobsCap then (None, s\<lparr>sp_jobs := sp_jobs s @ [raw]\<rparr>)
      else (Some ErrSpoolFull, reject ErrSpoolFull 1 s))"

definition Enqueue_late :: "spool \<Rightarrow> spool" where
  "Enqueue_late s = s\<lparr>sp_late := sp_late s + 1\<rparr>"

text \<open>The jobs that one round of \<^verbatim>\<open>writeLoop\<close> takes together, from what the channel holds.\<close>

fun take_jobs :: "string list \<Rightarrow> nat \<Rightarrow> string list \<Rightarrow> string list \<times> string list" where
  "take_jobs jobs sz [] = (jobs, [])"
| "take_jobs jobs sz (j # js) =
     (if length jobs < 64 \<and> sz < 512 * 2 ^ 10 then take_jobs (jobs @ [j]) (sz + length j) js
      else (jobs, j # js))"

text \<open>\<open>wr\<close> and \<open>sy\<close> are the errors of \<^verbatim>\<open>writeSynced\<close> and \<^verbatim>\<open>syncSpoolDir\<close>.\<close>

definition persist :: "string option \<Rightarrow> string option \<Rightarrow> string list \<Rightarrow> spool \<Rightarrow> spool_err option \<times> spool" where
  "persist wr sy raws s =
     (case marshal_raws raws of None \<Rightarrow> (Some ErrMarshal, s)
      | Some data \<Rightarrow>
        (let sz = blocks (int (length data)) in
         if sp_limit s < sp_bytes s + sp_deadBytes s + sz then (Some ErrSpoolFull, s)
         else
           let seq = sp_sequence s + 1; name = spool_name seq in
           (case wr of Some e \<Rightarrow> (Some (ErrIO e), s\<lparr>sp_sequence := seq\<rparr>)
            | None \<Rightarrow>
              (None, s\<lparr>sp_sequence := seq,
                 sp_files := sp_files s @ [(name, sz)],
                 sp_bytes := sp_bytes s + sz,
                 sp_main := AList.update name
                   \<lparr>df_content = Records (map (compact_raw False) raws), df_len = length data,
                    df_size = length data\<rparr> (sp_main s),
                 sp_lastError := (case sy of Some e \<Rightarrow> ''sync spool directory: '' @ e | None \<Rightarrow> sp_lastError s),
                 sp_wake := True,
                 sp_pressure := (sp_pressure s \<or> sp_limit s div 2 \<le> sp_bytes s + sz + sp_deadBytes s)\<rparr>))))"

text \<open>One round of \<^verbatim>\<open>writeLoop\<close>.\<close>

definition write_round :: "string option \<Rightarrow> string option \<Rightarrow> spool \<Rightarrow> spool" where
  "write_round wr sy s =
     (case sp_jobs s of [] \<Rightarrow> s
      | first # rest \<Rightarrow>
        (let (jobs, left) = take_jobs [first] (length first) rest in
         case persist wr sy jobs (s\<lparr>sp_jobs := left\<rparr>) of
           (None, s') \<Rightarrow> s'
         | (Some e, s') \<Rightarrow> reject e (length jobs) s'))"

subsection \<open>Sending\<close>

datatype dresult = DOk | DPermanent | DError string

datatype read_result = RNotExist | RCorrupt | RIO string | ROk "string list" nat

text \<open>\<^verbatim>\<open>readSpoolFile\<close>; \<open>io\<close> is an error of the read itself.\<close>

definition readSpoolFile :: "string option \<Rightarrow> dir \<Rightarrow> string \<Rightarrow> read_result" where
  "readSpoolFile io d name =
     (case map_of d name of None \<Rightarrow> RNotExist
      | Some f \<Rightarrow>
        (case io of Some e \<Rightarrow> RIO e
         | None \<Rightarrow> (case df_content f of Corrupt \<Rightarrow> RCorrupt | Records rs \<Rightarrow> ROk rs (df_len f))))"

definition head_file :: "spool \<Rightarrow> string" where
  "head_file s = (case sp_files s of [] \<Rightarrow> [] | (n, _) # _ \<Rightarrow> n)"

definition dropHead :: "string \<Rightarrow> spool \<Rightarrow> int \<times> spool" where
  "dropHead name s =
     (case sp_files s of [] \<Rightarrow> (0, s)
      | (n, sz) # fs \<Rightarrow>
          if n \<noteq> name then (0, s)
          else (sz, s\<lparr>sp_files := fs, sp_bytes := sp_bytes s - sz\<rparr>))"

definition forget :: "string option \<Rightarrow> string \<Rightarrow> spool \<Rightarrow> spool" where
  "forget sy name s = (snd (dropHead name s))\<lparr>sp_lastError := (case sy of None \<Rightarrow> [] | Some e \<Rightarrow> e)\<rparr>"

definition quarantineRecords :: "string option \<Rightarrow> string option \<Rightarrow> string \<Rightarrow> string list \<Rightarrow> spool \<Rightarrow> spool_err option \<times> spool" where
  "quarantineRecords wr sy name dead s =
     (if dead = [] then (None, s)
      else case marshal_raws dead of None \<Rightarrow> (Some ErrMarshal, s)
      | Some data \<Rightarrow>
        (let deadName = trim_suffix name ''.gz'' in
         if map_of (sp_dead s) deadName \<noteq> None then (None, s)
         else case wr of Some e \<Rightarrow> (Some (ErrIO e), s)
         | None \<Rightarrow>
           (let s1 = s\<lparr>sp_dead := AList.update deadName
                \<lparr>df_content = Records (map (compact_raw False) dead), df_len = length data, df_size = length data\<rparr>
                (sp_dead s)\<rparr> in
            case sy of Some e \<Rightarrow> (Some (ErrIO e), s1)
            | None \<Rightarrow> (None, s1\<lparr>sp_deadFiles := sp_deadFiles s + 1,
                  sp_deadBytes := sp_deadBytes s + blocks (int (length data)),
                  sp_quarantined := sp_quarantined s + length dead\<rparr>))))"

text \<open>\<open>mv\<close>, \<open>sy1\<close> and \<open>sy2\<close> are the errors of the rename and of the two directory syncs.\<close>

definition quarantineFile :: "string option \<Rightarrow> string option \<Rightarrow> string option \<Rightarrow> string \<Rightarrow> spool \<Rightarrow> spool_err option \<times> spool" where
  "quarantineFile mv sy1 sy2 name s =
     (case mv of Some e \<Rightarrow> (Some (ErrIO e), s)
      | None \<Rightarrow>
        (let s1 = s\<lparr>sp_main := AList.delete name (sp_main s),
             sp_dead := (case map_of (sp_main s) name of None \<Rightarrow> sp_dead s
                         | Some f \<Rightarrow> AList.update name f (sp_dead s))\<rparr> in
         case sy1 of Some e \<Rightarrow> (Some (ErrIO e), s1)
         | None \<Rightarrow>
           (let (sz, s2) = dropHead name s1 in
            (map_option ErrIO sy2, s2\<lparr>sp_deadFiles := sp_deadFiles s2 + 1,
               sp_deadBytes := sp_deadBytes s2 + sz, sp_quarantined := sp_quarantined s2 + 1\<rparr>))))"

text \<open>
  The deliveries of the records one by one: the records delivered, the records refused for good,
  and the error that stopped the loop, if any. \<open>rs\<close> are the receiver's answers.
\<close>

fun deliver_each :: "string list \<Rightarrow> dresult list \<Rightarrow> string list \<times> string list \<times> string option" where
  "deliver_each [] rs = ([], [], None)"
| "deliver_each (raw # raws) rs =
     (case rs of [] \<Rightarrow> ([], [], Some ''context canceled'')
      | r # rs' \<Rightarrow>
        (case r of
           DError e \<Rightarrow> ([], [], Some e)
         | DOk \<Rightarrow> (let (ok, dead, er) = deliver_each raws rs' in (raw # ok, dead, er))
         | DPermanent \<Rightarrow> (let (ok, dead, er) = deliver_each raws rs' in (ok, raw # dead, er))))"

text \<open>The answers that one call of \<^verbatim>\<open>send\<close> meets.\<close>

record send_env =
  se_read :: "string option"
  se_batch :: dresult
  se_single :: "dresult list"
  se_write :: "string option"
  se_sync1 :: "string option"
  se_sync2 :: "string option"
  se_move :: "string option"
  se_remove :: "string option"

text \<open>The end of \<^verbatim>\<open>send\<close>: remove the file and forget it.\<close>

definition finish_send :: "send_env \<Rightarrow> string \<Rightarrow> spool \<Rightarrow> spool_err option \<times> spool" where
  "finish_send v name s =
     (case se_remove v of Some e \<Rightarrow> (Some (ErrIO e), s)
      | None \<Rightarrow> (None, forget (se_sync2 v) name (s\<lparr>sp_main := AList.delete name (sp_main s)\<rparr>)))"

text \<open>\<^verbatim>\<open>send\<close>: its error, the records it delivered, and the new state.\<close>

definition send_file :: "send_env \<Rightarrow> string \<Rightarrow> spool \<Rightarrow> spool_err option \<times> string list \<times> spool" where
  "send_file v name s =
     (case readSpoolFile (se_read v) (sp_main s) name of
        RNotExist \<Rightarrow> (None, [], forget (se_sync2 v) name s)
      | RCorrupt \<Rightarrow> (let (e, s') = quarantineFile (se_move v) (se_sync1 v) (se_sync2 v) name s in (e, [], s'))
      | RIO e \<Rightarrow> (Some (ErrIO e), [], s)
      | ROk raws n \<Rightarrow>
        (case se_batch v of
           DError e \<Rightarrow> (Some (ErrIO e), [], s)
         | DOk \<Rightarrow> (let (e, s') = finish_send v name s in (e, raws, s'))
         | DPermanent \<Rightarrow>
             (let (ok, dead, er) = (if 1 < length raws then deliver_each raws (se_single v) else ([], raws, None)) in
              case er of Some e \<Rightarrow> (Some (ErrIO e), ok, s)
              | None \<Rightarrow>
                (case quarantineRecords (se_write v) (se_sync1 v) name dead s of
                   (Some e, s') \<Rightarrow> (Some e, ok, s')
                 | (None, s') \<Rightarrow> (let (e, s'') = finish_send v name s' in (e, ok, s''))))))"

subsection \<open>Compaction\<close>

text \<open>
  \<^verbatim>\<open>collectRun\<close>: files from the front whose records fit into one segment; \<open>ios\<close> answers for
  the reads.
\<close>

fun collect_loop :: "(string \<Rightarrow> string option) \<Rightarrow> dir \<Rightarrow> (string \<times> int) list \<Rightarrow> string list \<Rightarrow> nat
    \<Rightarrow> (string \<times> int) list \<Rightarrow> (string \<times> int) list \<times> string list" where
  "collect_loop ios d run records sz [] = (run, records)"
| "collect_loop ios d run records sz (f # fs) =
     (case readSpoolFile (ios (fst f)) d (fst f) of
        ROk raws n \<Rightarrow>
          (if run \<noteq> [] \<and> (segmentMaxRecords < length records + length raws \<or> segmentMaxBytes < sz + n)
           then (run, records)
           else if segmentMaxRecords \<le> length (records @ raws) \<or> segmentMaxBytes \<le> sz + n
           then (run @ [f], records @ raws)
           else collect_loop ios d (run @ [f]) (records @ raws) (sz + n) fs)
      | _ \<Rightarrow> if run = [] then ([f], []) else (run, records))"

definition collectRun :: "(string \<Rightarrow> string option) \<Rightarrow> dir \<Rightarrow> (string \<times> int) list \<Rightarrow> (string \<times> int) list \<times> string list" where
  "collectRun ios d files = collect_loop ios d [] [] 0 files"

definition segment_name :: "string \<Rightarrow> string" where
  "segment_name n = trim_suffix (trim_suffix n ''.gz'') ''.json'' @ ''.json.gz''"

text \<open>The position of the run in \<^verbatim>\<open>q.files\<close>.\<close>

fun find_at :: "string \<Rightarrow> (string \<times> int) list \<Rightarrow> nat option" where
  "find_at n [] = None"
| "find_at n (f # fs) = (if fst f = n then Some 0 else map_option Suc (find_at n fs))"

record seg_env =
  sg_write :: "string option"
  sg_sync1 :: "string option"
  sg_removed :: "string \<Rightarrow> bool"
  sg_sync2 :: "string option"

definition remove_run :: "(string \<Rightarrow> bool) \<Rightarrow> string \<Rightarrow> (string \<times> int) list \<Rightarrow> dir \<Rightarrow> dir" where
  "remove_run removed name run d =
     fold (\<lambda>f d. if fst f \<noteq> name \<and> removed (fst f) then AList.delete (fst f) d else d) run d"

definition writeSegment :: "(string list \<Rightarrow> nat) \<Rightarrow> seg_env \<Rightarrow> (string \<times> int) list \<Rightarrow> string list \<Rightarrow> spool \<Rightarrow> spool_err option \<times> spool" where
  "writeSegment zlen v run records s =
     (case marshal_raws records of None \<Rightarrow> (Some ErrMarshal, s)
      | Some data \<Rightarrow>
        (let name = segment_name (fst (hd run)); len = zlen records in
         case sg_write v of Some e \<Rightarrow> (Some (ErrIO e), s)
         | None \<Rightarrow>
           (let s1 = s\<lparr>sp_main := AList.update name
                \<lparr>df_content = Records (map (compact_raw False) records), df_len = length data, df_size = len\<rparr>
                (sp_main s)\<rparr> in
            case sg_sync1 v of Some e \<Rightarrow> (Some (ErrIO e), s1)
            | None \<Rightarrow>
              (case find_at (fst (hd run)) (sp_files s) of
                 None \<Rightarrow> (Some ErrChanged, s1)
               | Some at \<Rightarrow>
                 if length (sp_files s) < at + length run then (Some ErrChanged, s1)
                 else if map fst (take (length run) (drop at (sp_files s))) \<noteq> map fst run then (Some ErrChanged, s1)
                 else
                   let seg = (name, blocks (int len));
                       removed = sum_list (map snd (take (length run) (drop at (sp_files s))))
                   in (map_option ErrIO (sg_sync2 v),
                       s1\<lparr>sp_files := take at (sp_files s) @ seg # drop (at + length run) (sp_files s),
                          sp_bytes := sp_bytes s + (snd seg - removed),
                          sp_compacted := sp_compacted s + length run,
                          sp_main := remove_run (sg_removed v) name run (sp_main s1)\<rparr>)))))"

text \<open>
  The loop of \<^verbatim>\<open>compact\<close> over the snapshot. A run of one file, or none, is stepped over; the
  answers for the successive segments are \<open>vs\<close>, and running out of them is the cancelled context.
\<close>

function compact_loop :: "(string list \<Rightarrow> nat) \<Rightarrow> (string \<Rightarrow> string option) \<Rightarrow> seg_env list \<Rightarrow> (string \<times> int) list \<Rightarrow> spool \<Rightarrow> spool" where
  "compact_loop zlen ios vs [] s = s"
| "compact_loop zlen ios vs (f # fs) s =
     (let (run, records) = collectRun ios (sp_main s) (f # fs) in
      if length run < 2 then compact_loop zlen ios vs fs s
      else case vs of [] \<Rightarrow> s
      | v # vs' \<Rightarrow>
          (case writeSegment zlen v run records s of
             (Some e, s') \<Rightarrow> s'\<lparr>sp_lastError := ''compact: '' @ err_text e\<rparr>
           | (None, s') \<Rightarrow> compact_loop zlen ios vs' (drop (length run) (f # fs)) s'))"
  by pat_completeness auto
termination
  by (relation "measure (\<lambda>(z, i, v, fs, s). length fs)") auto

definition compact :: "(string list \<Rightarrow> nat) \<Rightarrow> (string \<Rightarrow> string option) \<Rightarrow> seg_env list \<Rightarrow> nat \<Rightarrow> spool \<Rightarrow> spool" where
  "compact zlen ios vs minFiles s =
     (if length (sp_files s) < minFiles then s else compact_loop zlen ios vs (sp_files s) s)"

text \<open>The retry delay of \<^verbatim>\<open>sendLoop\<close> after a failure.\<close>

definition next_retry :: "duration \<Rightarrow> duration" where
  "next_retry retry = min (2 * retry) (30 * second)"

text \<open>
  One round of \<^verbatim>\<open>sendLoop\<close> that finds a file: the name is taken before an eager compaction may
  merge that file, then the file is sent; after a failure the error is recorded, the spool is
  compacted and the delay before the next round doubles. \<open>ios\<close>, \<open>vs\<close> and \<open>ios'\<close>, \<open>vs'\<close> answer
  for the two compactions. Without a file the loop waits for \<^verbatim>\<open>wake\<close>.
\<close>

definition sendLoop_round :: "(string list \<Rightarrow> nat) \<Rightarrow> (string \<Rightarrow> string option) \<Rightarrow> seg_env list \<Rightarrow> send_env
    \<Rightarrow> (string \<Rightarrow> string option) \<Rightarrow> seg_env list \<Rightarrow> duration \<Rightarrow> spool \<Rightarrow> duration \<times> spool" where
  "sendLoop_round zlen ios vs v ios' vs' retry s =
     (let name = head_file s in
      if name = [] then (retry, s\<lparr>sp_wake := False\<rparr>)
      else
        let s1 = (if compactEagerFiles \<le> length (sp_files s) then compact zlen ios vs compactMinFiles s else s) in
        case send_file v name s1 of
          (None, _, s2) \<Rightarrow> (second, s2)
        | (Some e, _, s2) \<Rightarrow>
            (next_retry retry, compact zlen ios' vs' compactMinFiles (s2\<lparr>sp_lastError := err_text e\<rparr>)))"


text \<open>\<^verbatim>\<open>Status\<close>, field by field, and \<^verbatim>\<open>Close\<close>: the writer drains its channel, one answer per round.\<close>

record SpoolStatus =
  st_Durable :: bool
  st_Pending :: nat
  st_Bytes :: int
  st_Capacity :: int
  st_Rejected :: nat
  st_Late :: nat
  st_Quarantined :: nat
  st_DeadFiles :: nat
  st_DeadBytes :: int
  st_Compacted :: nat
  st_LastError :: string

definition Status :: "spool \<Rightarrow> SpoolStatus" where
  "Status s = \<lparr>st_Durable = True, st_Pending = length (sp_files s), st_Bytes = sp_bytes s, st_Capacity = sp_limit s,
     st_Rejected = sp_rejected s, st_Late = sp_late s, st_Quarantined = sp_quarantined s,
     st_DeadFiles = sp_deadFiles s, st_DeadBytes = sp_deadBytes s, st_Compacted = sp_compacted s,
     st_LastError = sp_lastError s\<rparr>"

fun drain_jobs :: "nat \<Rightarrow> (nat \<Rightarrow> string option \<times> string option) \<Rightarrow> spool \<Rightarrow> spool" where
  "drain_jobs 0 io s = s"
| "drain_jobs (Suc k) io s = (if sp_jobs s = [] then s else drain_jobs k io (write_round (fst (io k)) (snd (io k)) s))"

definition Close :: "(nat \<Rightarrow> string option \<times> string option) \<Rightarrow> spool \<Rightarrow> spool" where
  "Close io s =
     (if sp_closed s then s
      else drain_jobs (length (sp_jobs s)) io (s\<lparr>sp_closed := True\<rparr>))"

end
