(* ===== verification/Spool_Names.thy ===== *)
theory Spool_Names
  imports Disk_Spool
begin

section \<open>Names of spool files: order and round trip\<close>

text \<open>
  The spool relies on the order of file names being the order of their sequence numbers, on the
  scan reading the number back, and on a segment sorting right after the file it is named
  after. These facts are proved for the names the spool writes, from the decimal rendering up.
\<close>

subsection \<open>Fixed-width decimals compare as numbers\<close>

lemma append_less_append:
  fixes a b :: string
  shows "length a = length b \<Longrightarrow> a @ u < b @ v \<longleftrightarrow> a < b \<or> a = b \<and> u < v"
  by (induction a b rule: list_induct2) auto

lemma append_less_same: "(a :: string) @ u < a @ v \<longleftrightarrow> u < v"
  using append_less_append [of a a u v] by simp

lemma digits_val_bounds:
  "digits_val a s = Some m \<Longrightarrow> a * 10 ^ length s \<le> m \<and> m < (a + 1) * 10 ^ length s"
proof (induction s arbitrary: a)
  case (Cons c s)
  then obtain d where d: "digit_val c = Some d" "digits_val (10 * a + d) s = Some m"
    by (auto split: option.splits)
  from d(1) have "d < 10" by (auto simp: digit_val_def Let_def split: if_splits)
  from Cons.IH [OF d(2)] have lo: "(10 * a + d) * 10 ^ length s \<le> m" and hi: "m < (10 * a + d + 1) * 10 ^ length s"
    by simp_all
  have A: "a * 10 ^ length (c # s) \<le> (10 * a + d) * 10 ^ length s" by simp
  have B: "(10 * a + d + 1) * 10 ^ length s \<le> (10 * (a + 1)) * 10 ^ length s"
    using \<open>d < 10\<close> by (intro mult_le_mono1) simp
  have C: "(a + 1) * 10 ^ length (c # s) = (10 * (a + 1)) * 10 ^ length s"
    by (simp add: algebra_simps)
  show ?case unfolding C using le_trans [OF A lo] less_le_trans [OF hi B] by (rule conjI)
qed simp

lemma digit_char_order:
  "digit_val c = Some d \<Longrightarrow> digit_val e = Some f \<Longrightarrow> (c < e \<longleftrightarrow> d < f) \<and> (c = e \<longleftrightarrow> d = f)"
proof -
  assume "digit_val c = Some d" "digit_val e = Some f"
  then have "(of_char c :: nat) = 48 + d" "(of_char e :: nat) = 48 + f"
    by (auto simp: digit_val_def Let_def split: if_splits)
  moreover have "c = e \<longleftrightarrow> (of_char c :: nat) = of_char e" by simp
  ultimately show ?thesis by (simp add: less_char_def)
qed

lemma digits_order:
  "length s = length t \<Longrightarrow> digits_val a s = Some m \<Longrightarrow> digits_val a t = Some n \<Longrightarrow> s < t \<longleftrightarrow> m < n"
proof (induction s t arbitrary: a rule: list_induct2)
  case (Cons c s e t)
  then obtain d f where d: "digit_val c = Some d" "digits_val (10 * a + d) s = Some m"
    and f: "digit_val e = Some f" "digits_val (10 * a + f) t = Some n"
    by (auto split: option.splits)
  note ord = digit_char_order [OF d(1) f(1)]
  have far: "k < l \<Longrightarrow> (10 * a + k + 1) * 10 ^ length s \<le> (10 * a + l) * 10 ^ length s" for k l
    by (intro mult_le_mono1) simp
  from digits_val_bounds [OF d(2)] digits_val_bounds [OF f(2)] Cons.hyps
  have b: "(10 * a + d) * 10 ^ length s \<le> m" "m < (10 * a + d + 1) * 10 ^ length s"
    "(10 * a + f) * 10 ^ length s \<le> n" "n < (10 * a + f + 1) * 10 ^ length s"
    by simp_all
  show ?case
  proof (cases d f rule: linorder_cases)
    case less
    with b far [OF less] ord show ?thesis by simp
  next
    case equal
    with d f ord Cons.IH [of "10 * a + d"] show ?thesis by simp
  next
    case greater
    with b far [OF greater] ord show ?thesis by auto
  qed
qed simp

lemma length_nat_str: "n < 10 ^ k \<Longrightarrow> 0 < k \<Longrightarrow> length (nat_str n) \<le> k"
proof (induction n arbitrary: k rule: nat_str.induct)
  case (1 n)
  show ?case
  proof (cases "n < 10")
    case False
    then have k: "1 < k" using "1.prems" by (cases "k = 1") auto
    then obtain j where j: "k = Suc j" "0 < j" by (cases k) auto
    have "n div 10 < 10 ^ j" using "1.prems" j by (simp add: less_mult_imp_div_less mult.commute)
    with "1.IH" [OF False] j False show ?thesis by (simp add: nat_str.simps [of n])
  qed (use "1.prems" in \<open>simp add: nat_str.simps [of n]\<close>)
qed

lemma digit_val_zero: "digit_val (CHR ''0'') = Some 0"
  by (simp add: digit_val_def)

lemma digits_val_zeros: "digits_val 0 (replicate k (CHR ''0'') @ s) = digits_val 0 s"
  by (induction k) (simp_all add: digit_val_zero)

lemma pad20_val: "digits_val 0 (pad20 n) = Some n"
  by (simp add: pad20_def Let_def digits_val_zeros digits_val_nat_str)

lemma pad20_length: "n < 10 ^ 20 \<Longrightarrow> length (pad20 n) = 20"
  using length_nat_str [of n 20] by (simp add: pad20_def Let_def)

lemma pad20_less: "m < 10 ^ 20 \<Longrightarrow> n < 10 ^ 20 \<Longrightarrow> pad20 m < pad20 n \<longleftrightarrow> m < n"
  using digits_order [of "pad20 m" "pad20 n" 0 m n] by (simp add: pad20_length pad20_val)

lemma pad20_inj: "pad20 m = pad20 n \<longleftrightarrow> m = n"
  by (metis option.inject pad20_val)

subsection \<open>The names the spool writes\<close>

definition canonical :: "string \<Rightarrow> bool" where
  "canonical x = (\<exists>n < 10 ^ 20. x = spool_name n \<or> x = spool_name n @ ''.gz'')"

lemma trim_suffix_append [simp]: "trim_suffix (s @ p) p = s"
  by (simp add: trim_suffix_def has_suffix_def suffix_def)

lemma no_gz_suffix: "\<not> has_suffix (s @ ''.json'') ''.gz''"
  by (auto simp: has_suffix_def suffix_def append_eq_append_conv2 Cons_eq_append_conv append_eq_Cons_conv)

lemma spool_name_trim:
  "trim_suffix (spool_name n) ''.gz'' = spool_name n" "trim_suffix (spool_name n) ''.json'' = pad20 n"
  using no_gz_suffix [of "pad20 n"] by (simp_all add: spool_name_def) (simp add: trim_suffix_def)

lemma segment_name_eq:
  "segment_name (spool_name n) = spool_name n @ ''.gz''" "segment_name (spool_name n @ ''.gz'') = spool_name n @ ''.gz''"
  by (simp_all add: segment_name_def spool_name_trim) (simp_all add: spool_name_def)

lemma spool_name_less:
  assumes "m < 10 ^ 20" "n < 10 ^ 20"
  shows "spool_name m @ u < spool_name n @ v \<longleftrightarrow> m < n \<or> m = n \<and> u < v"
proof -
  have "spool_name m @ u < spool_name n @ v \<longleftrightarrow> pad20 m @ (''.json'' @ u) < pad20 n @ (''.json'' @ v)"
    by (simp add: spool_name_def)
  also have "\<dots> \<longleftrightarrow> pad20 m < pad20 n \<or> pad20 m = pad20 n \<and> ''.json'' @ u < ''.json'' @ v"
    using assms by (intro append_less_append) (simp add: pad20_length)
  finally show ?thesis using assms by (simp add: pad20_less pad20_inj append_less_same)
qed

lemma spool_name_gz: "spool_name m @ u = spool_name n @ v \<Longrightarrow> m < 10 ^ 20 \<Longrightarrow> n < 10 ^ 20 \<Longrightarrow> m = n \<and> u = v"
  by (metis append_eq_append_conv append_same_eq pad20_inj pad20_length spool_name_def length_append same_append_eq)

text \<open>Nothing the spool writes sorts between a file and the segment named after it.\<close>

lemma segment_follows:
  assumes "canonical x" "canonical y" "x < y"
  shows "segment_name x \<le> y" "canonical (segment_name x)" "x \<le> segment_name x"
proof -
  from assms(1) obtain m u where m: "m < 10 ^ 20" "x = spool_name m @ u" "u = [] \<or> u = ''.gz''"
    by (auto simp: canonical_def)
  from assms(2) obtain n v where n: "n < 10 ^ 20" "y = spool_name n @ v" "v = [] \<or> v = ''.gz''"
    by (auto simp: canonical_def)
  have seg: "segment_name x = spool_name m @ ''.gz''" using m by (auto simp: segment_name_eq)
  from assms(3) m n have "m < n \<or> m = n \<and> u < v" by (simp add: spool_name_less)
  then show "segment_name x \<le> y"
    unfolding seg le_less using m n by (auto simp: spool_name_less)
  show "canonical (segment_name x)" using m seg by (auto simp: canonical_def)
  show "x \<le> segment_name x" unfolding seg le_less using m by (auto simp: spool_name_less)
qed

lemma parse_int64_digits:
  "digits_val 0 s = Some n \<Longrightarrow> s \<noteq> [] \<Longrightarrow> n < 2 ^ 63 \<Longrightarrow> parse_int64 s = Some (int n)"
proof (cases s)
  case (Cons c t)
  assume s: "digits_val 0 s = Some n" "n < 2 ^ 63"
  have "c \<noteq> CHR ''-''" "c \<noteq> CHR ''+''" using s(1) Cons by (auto simp: digit_val_def)
  moreover have "parse_uint 64 s = Some n" using s Cons by (simp add: parse_uint_def)
  ultimately show ?thesis using s(2) Cons by (simp add: parse_int64_def Let_def)
qed simp

lemma has_suffix_append [simp]: "has_suffix (s @ p) p"
  by (simp add: has_suffix_def suffix_def)

lemma no_tmp_suffix: "\<not> has_suffix (s @ ''.json'') ''.tmp''" "\<not> has_suffix (s @ ''.json.gz'') ''.tmp''"
  by (auto simp: has_suffix_def suffix_def append_eq_append_conv2 Cons_eq_append_conv append_eq_Cons_conv)

lemma scan_entry_canonical:
  assumes "n < 2 ^ 63" "u = [] \<or> u = ''.gz''"
  shows "scan_entry strict (spool_name n @ u) f =
    Inr (Some ((spool_name n @ u, blocks (int (df_size f))), int n))"
proof -
  have p: "parse_int64 (pad20 n) = Some (int n)"
    using assms(1) pad20_val [of n] by (intro parse_int64_digits) (auto simp: pad20_def Let_def)
  have e: "spool_name n @ ''.gz'' = pad20 n @ ''.json.gz''" "spool_name n = pad20 n @ ''.json''"
    by (simp_all add: spool_name_def)
  have t: "trim_suffix (trim_suffix (spool_name n @ u) ''.gz'') ''.json'' = pad20 n"
    using assms(2) by (auto simp: spool_name_trim)
  have s: "\<not> has_suffix (spool_name n @ u) ''.tmp''"
    "has_suffix (spool_name n @ u) ''.json'' \<or> has_suffix (spool_name n @ u) ''.json.gz''"
    using assms(2) no_tmp_suffix [of "pad20 n"] has_suffix_append [of "pad20 n" "''.json''"]
      has_suffix_append [of "pad20 n" "''.json.gz''"]
    by (auto simp: e)
  from s p t show ?thesis by (auto simp: scan_entry_def)
qed

text \<open>The order of spool file names is the order of their sequence numbers, whatever the
  numbers of digits, and scanning a name reads its number back, for plain files and for
  compressed segments alike.\<close>

theorem spool_names_ordered:
  assumes "m < 2 ^ 63" "n < 2 ^ 63" "u = [] \<or> u = ''.gz''" "v = [] \<or> v = ''.gz''"
  shows "(m < n \<longrightarrow> spool_name m @ u < spool_name n @ v)
    \<and> scan_entry strict (spool_name n @ v) f = Inr (Some ((spool_name n @ v, blocks (int (df_size f))), int n))"
proof -
  have "m < 10 ^ 20" "n < 10 ^ 20" using assms(1,2) by simp_all
  then show ?thesis
    using scan_entry_canonical [OF assms(2,4), of strict f] by (simp add: spool_name_less)
qed

theorem spool_names_ordered_witness:
  "spool_name 9 @ ''.gz'' < spool_name 10 \<and> scan_entry True (spool_name 10)
     \<lparr>df_content = Corrupt, df_len = 0, df_size = 1\<rparr> = Inr (Some ((spool_name 10, 4096), 10))"
  using spool_names_ordered [of 9 10 "''.gz''" "[]" True "\<lparr>df_content = Corrupt, df_len = 0, df_size = 1\<rparr>"]
  by (simp add: blocks_def spoolBlock_def)

end
