(* ===== verification/Spool_Safety.thy ===== *)
theory Spool_Safety
  imports Spool_Names "HOL-Library.Multiset"
begin

section \<open>The spool: accounting, sending, compaction\<close>

text \<open>
  Over the model of \<open>Disk_Spool\<close>: the byte counter is exact in every state reachable through
  writes, sends, compactions, crashes and restarts; a write never exceeds the capacity; sending
  loses no record unless a quarantine file of that name exists already (and then it can, which
  is shown by a run); compaction keeps the sequence of records.
\<close>

subsection \<open>Accounting\<close>

definition files_size :: "(string \<times> int) list \<Rightarrow> int" where
  "files_size fs = sum_list (map snd fs)"

definition acct :: "spool \<Rightarrow> bool" where
  "acct s = (sp_bytes s = files_size (sp_files s) \<and> list_all (\<lambda>f. 0 \<le> snd f) (sp_files s) \<and> 0 \<le> sp_deadBytes s)"

lemma files_size_simps [simp]:
  "files_size [] = 0" "files_size (f # fs) = snd f + files_size fs"
  "files_size (xs @ ys) = files_size xs + files_size ys"
  by (simp_all add: files_size_def)

lemma blocks_bounds: "0 \<le> n \<Longrightarrow> n \<le> blocks n \<and> blocks n < n + 4096"
proof -
  assume "0 \<le> n"
  have "(n + 4095) = (n + 4095) div 4096 * 4096 + (n + 4095) mod 4096" by simp
  moreover have "0 \<le> (n + 4095) mod 4096" "(n + 4095) mod 4096 < 4096" by simp_all
  ultimately show ?thesis unfolding blocks_def spoolBlock_def by linarith
qed

lemma blocks_nonneg: "0 \<le> n \<Longrightarrow> 0 \<le> blocks n"
  using blocks_bounds [of n] by linarith

lemma acct_frame:
  "acct s \<Longrightarrow> sp_bytes s' = sp_bytes s \<Longrightarrow> sp_files s' = sp_files s \<Longrightarrow> sp_deadBytes s' = sp_deadBytes s \<Longrightarrow> acct s'"
  by (simp add: acct_def)

lemma acct_persist: "acct s \<Longrightarrow> acct (snd (persist wr sy raws s))"
  by (auto simp: persist_def acct_def Let_def blocks_nonneg split: option.splits)

lemma acct_write_round: "acct s \<Longrightarrow> acct (write_round wr sy s)"
proof (cases "sp_jobs s")
  case (Cons first rest)
  assume a: "acct s"
  obtain jobs left where j: "take_jobs [first] (length first) rest = (jobs, left)" by fastforce
  have "acct (s\<lparr>sp_jobs := left\<rparr>)" using a by (simp add: acct_def)
  from acct_persist [OF this, of wr sy jobs] Cons j show ?thesis
    by (auto simp: write_round_def reject_def acct_def split: prod.splits option.splits)
qed (simp add: write_round_def)

lemma acct_dropHead: "acct s \<Longrightarrow> acct (snd (dropHead n s)) \<and> 0 \<le> fst (dropHead n s)"
  by (auto simp: dropHead_def acct_def split: list.splits)

lemma acct_forget: "acct s \<Longrightarrow> acct (forget sy n s)"
  using acct_dropHead [of s n] by (auto simp: forget_def intro: acct_frame)

lemma acct_quarantineRecords: "acct s \<Longrightarrow> acct (snd (quarantineRecords wr sy n dead s))"
  by (auto simp: quarantineRecords_def acct_def Let_def blocks_nonneg split: option.splits)

lemma acct_quarantineFile:
  assumes "acct s"
  shows "acct (snd (quarantineFile mv sy1 sy2 n s))"
proof -
  let ?s1 = "s\<lparr>sp_main := AList.delete n (sp_main s), sp_dead := (case map_of (sp_main s) n of
      None \<Rightarrow> sp_dead s | Some f \<Rightarrow> AList.update n f (sp_dead s))\<rparr>"
  have "acct ?s1" using assms by (simp add: acct_def)
  from acct_dropHead [OF this, of n] this show ?thesis
    by (auto simp: quarantineFile_def Let_def acct_def split: option.splits prod.splits)
qed

lemma acct_finish_send: "acct s \<Longrightarrow> acct (snd (finish_send v n s))"
  by (auto simp: finish_send_def split: option.splits intro!: acct_forget intro: acct_frame)

lemma acct_send_file:
  assumes "acct s"
  shows "acct (snd (snd (send_file v n s)))"
proof (cases "readSpoolFile (se_read v) (sp_main s) n")
  case RCorrupt
  with acct_quarantineFile [OF assms, of "se_move v" "se_sync1 v" "se_sync2 v" n] show ?thesis
    by (simp add: send_file_def case_prod_beta)
next
  case (ROk raws k)
  have q: "acct s'" if "quarantineRecords a b n d s = (e, s')" for a b d e s'
    using acct_quarantineRecords [OF assms, of a b n d] that by simp
  have f: "acct t \<Longrightarrow> finish_send v n t = (e, t') \<Longrightarrow> acct t'" for t e t'
    using acct_finish_send [of t v n] by simp
  from ROk assms show ?thesis
    by (auto simp: send_file_def split: dresult.splits option.splits prod.splits dest: q f)
qed (use assms acct_forget in \<open>simp_all add: send_file_def\<close>)

lemma sum_segment:
  "at + k \<le> length fs \<Longrightarrow> files_size fs = files_size (take at fs) + files_size (take k (drop at fs)) + files_size (drop (at + k) fs)"
  by (metis add.commute append_take_drop_id drop_drop files_size_simps(3) add.assoc)

lemma acct_writeSegment:
  assumes "acct s"
  shows "acct (snd (writeSegment zlen v run records s))"
proof -
  have "acct (s1\<lparr>sp_files := take at fs @ seg # drop (at + length run) fs, sp_bytes := sp_bytes s + (snd seg - removed),
      sp_compacted := c, sp_main := m\<rparr>)"
    if "fs = sp_files s" "sp_deadBytes s1 = sp_deadBytes s" "at + length run \<le> length fs" "0 \<le> snd seg"
      "removed = sum_list (map snd (take (length run) (drop at fs)))" for s1 at fs seg removed c m
    using assms that sum_segment [of at "length run" fs]
    by (auto simp: acct_def list_all_iff files_size_def [symmetric] dest: in_set_takeD in_set_dropD)
  then show ?thesis
    using assms unfolding writeSegment_def Let_def
    by (auto simp: not_less blocks_nonneg split: option.splits intro: acct_frame)
qed

lemma acct_compact_loop: "acct s \<Longrightarrow> acct (compact_loop zlen ios vs fs s)"
proof (induction zlen ios vs fs s rule: compact_loop.induct)
  case (2 zlen ios vs f fs s)
  obtain run records where c: "collectRun ios (sp_main s) (f # fs) = (run, records)" by fastforce
  show ?case
  proof (cases "length run < 2")
    case True
    with "2.IH"(1) [OF c [symmetric] refl True] "2.prems" c show ?thesis by simp
  next
    case False
    show ?thesis
    proof (cases vs)
      case Nil
      with False c "2.prems" show ?thesis by simp
    next
      case (Cons v vs')
      obtain e s' where w: "writeSegment zlen v run records s = (e, s')" by fastforce
      with acct_writeSegment [OF "2.prems", of zlen v run records] have a: "acct s'" by simp
      show ?thesis
      proof (cases e)
        case None
        with "2.IH"(2) [OF c [symmetric] refl False Cons w [symmetric] None a] Cons w c False show ?thesis by simp
      next
        case (Some x)
        with a Cons w c False show ?thesis by (simp add: acct_def)
      qed
    qed
  qed
qed simp

lemma acct_compact: "acct s \<Longrightarrow> acct (compact zlen ios vs k s)"
  by (simp add: compact_def acct_compact_loop)

lemma scan_loop_size: "scan_loop strict d seq = Inr (fs, tot, seq') \<Longrightarrow>
    tot = files_size fs \<and> list_all (\<lambda>f. 0 \<le> snd f) fs"
proof (induction strict d seq arbitrary: fs tot seq' rule: scan_loop.induct)
  case (2 strict name f rest seq)
  then show ?case
    by (fastforce simp: scan_entry_def blocks_nonneg split: sum.splits option.splits prod.splits if_splits)
qed simp

lemma files_size_sort: "files_size (sort_key k fs) = files_size fs"
proof -
  have "mset (map snd (sort_key k fs)) = mset (map snd fs)" by simp
  then show ?thesis unfolding files_size_def by (metis sum_mset_sum_list)
qed

lemma scan_size: "scan strict d seq = Inr (fs, tot, seq') \<Longrightarrow> tot = files_size fs \<and> list_all (\<lambda>f. 0 \<le> snd f) fs"
  by (fastforce simp: scan_def files_size_sort list_all_iff split: sum.splits dest!: scan_loop_size)

lemma files_size_nonneg: "list_all (\<lambda>f. 0 \<le> snd f) fs \<Longrightarrow> 0 \<le> files_size fs"
  by (induction fs) auto

lemma acct_New: "NewDiskSpool limit now main dead = Inr s \<Longrightarrow> acct s"
  by (auto simp: NewDiskSpool_def acct_def split: sum.splits if_splits dest!: scan_size simp: files_size_nonneg)

text \<open>
  The life of a spool: opened on any two directories, it writes, sends its head, compacts and at
  any moment crashes and is reopened on the directories it leaves.
\<close>

inductive spool_reach :: "(string list \<Rightarrow> nat) \<Rightarrow> spool \<Rightarrow> bool" for zlen where
  sr_open: "NewDiskSpool limit now main dead = Inr s \<Longrightarrow> spool_reach zlen s"
| sr_enqueue: "spool_reach zlen s \<Longrightarrow> spool_reach zlen (snd (Enqueue raw s))"
| sr_late: "spool_reach zlen s \<Longrightarrow> spool_reach zlen (Enqueue_late s)"
| sr_write: "spool_reach zlen s \<Longrightarrow> spool_reach zlen (write_round wr sy s)"
| sr_send: "spool_reach zlen s \<Longrightarrow> spool_reach zlen (snd (snd (send_file v (head_file s) s)))"
| sr_compact: "spool_reach zlen s \<Longrightarrow> spool_reach zlen (compact zlen ios vs k s)"
| sr_crash: "spool_reach zlen s \<Longrightarrow> NewDiskSpool limit now (sp_main s) (sp_dead s) = Inr s' \<Longrightarrow> spool_reach zlen s'"

lemma spool_reach_acct: "spool_reach zlen s \<Longrightarrow> acct s"
proof (induction rule: spool_reach.induct)
  case (sr_enqueue s raw)
  then show ?case by (auto simp: Enqueue_def reject_def acct_def)
qed (auto simp: acct_New acct_write_round acct_send_file acct_compact, simp add: acct_def Enqueue_late_def)

lemma persist_ok_bound:
  "persist wr sy raws s = (None, s') \<Longrightarrow>
     sp_bytes s' + sp_deadBytes s' \<le> sp_limit s' \<and> sp_limit s' = sp_limit s"
  by (auto simp: persist_def Let_def split: option.splits if_splits)

lemma persist_error_unchanged:
  "persist wr sy raws s = (Some e, s') \<Longrightarrow> s' = s \<or> s' = s\<lparr>sp_sequence := sp_sequence s + 1\<rparr>"
  by (auto simp: persist_def Let_def split: option.splits if_splits)


definition empty_spool :: spool where
  "empty_spool = \<lparr>sp_limit = 10000, sp_files = [], sp_bytes = 0, sp_deadFiles = 0, sp_deadBytes = 0,
     sp_quarantined = 0, sp_sequence = 0, sp_lastError = [], sp_rejected = 0, sp_late = 0,
     sp_compacted = 0, sp_closed = False, sp_jobs = [], sp_wake = False, sp_pressure = False,
     sp_main = [], sp_dead = []\<rparr>"

lemma empty_spool_reach: "spool_reach zlen empty_spool"
  by (rule sr_open [of 10000 0 "[]" "[]"]) (simp add: NewDiskSpool_def scan_def without_tmp_def empty_spool_def)

lemmas json_eval = json_valid_def parse_json_def parse_tokens_def lex_token_def punct_def
  is_digit_def byte_def lex_number_def lex_int_def lex_frac_def lex_exp_def json_ws_def
  html_escape_def is_line_sep_def

lemma digit_records:
  "json_valid ''1''" "json_valid ''2''" "compact_raw b ''1'' = ''1''" "compact_raw b ''2'' = ''2''"
  by (simp_all add: json_eval compact_raw.simps)

lemma marshal_digits:
  "marshal_raws [''1''] = Some ''[1]''" "marshal_raws [''2''] = Some ''[2]''" "marshal_raws [''1'', ''2''] = Some ''[1,2]''"
  by (simp_all add: marshal_raws_def digit_records)

lemma blocks_one: "blocks 3 = 4096" "blocks 5 = 4096"
  by (simp_all add: blocks_def spoolBlock_def)

definition one_spool :: spool where
  "one_spool = empty_spool\<lparr>sp_files := [(spool_name 1, 4096)], sp_bytes := 4096, sp_sequence := 1,
     sp_wake := True, sp_main := [(spool_name 1, \<lparr>df_content = Records [''1''], df_len = 3, df_size = 3\<rparr>)]\<rparr>"

lemma persist_one: "persist None None [''1''] empty_spool = (None, one_spool)"
  by (simp add: persist_def marshal_digits digit_records empty_spool_def one_spool_def blocks_one Let_def)


subsection \<open>Sending\<close>

lemma deliver_each_covers:
  "deliver_each raws rs = (ok, dead, None) \<Longrightarrow> set raws = set ok \<union> set dead"
proof (induction raws rs arbitrary: ok dead rule: deliver_each.induct)
  case (2 raw raws rs)
  then show ?case by (fastforce split: list.splits dresult.splits prod.splits)
qed simp

lemma dropHead_dirs [simp]:
  "sp_main (snd (dropHead n s)) = sp_main s" "sp_dead (snd (dropHead n s)) = sp_dead s"
  by (auto simp: dropHead_def split: list.splits)

lemma forget_dirs [simp]: "sp_main (forget sy n s) = sp_main s" "sp_dead (forget sy n s) = sp_dead s"
  by (simp_all add: forget_def)

lemma finish_send_dirs:
  assumes "finish_send v n s = (e, s')"
  shows "sp_dead s' = sp_dead s" "m \<noteq> n \<Longrightarrow> map_of (sp_main s') m = map_of (sp_main s) m"
    "e \<noteq> None \<Longrightarrow> s' = s" "e = None \<Longrightarrow> map_of (sp_main s') n = None"
  using assms by (auto simp: finish_send_def delete_conv' split: option.splits)

text \<open>Quarantined, unless a file of that name is there already.\<close>

lemma quarantineRecords_dirs:
  assumes "quarantineRecords wr sy n dead s = (e, s')"
  shows "sp_main s' = sp_main s" "sp_files s' = sp_files s"
    "m \<noteq> trim_suffix n ''.gz'' \<Longrightarrow> map_of (sp_dead s') m = map_of (sp_dead s) m"
    "e = None \<Longrightarrow> map_of (sp_dead s) (trim_suffix n ''.gz'') = None \<Longrightarrow> dead \<noteq> [] \<Longrightarrow>
       \<exists>g. map_of (sp_dead s') (trim_suffix n ''.gz'') = Some g \<and> df_content g = Records (map (compact_raw False) dead)"
  using assms by (auto simp: quarantineRecords_def Let_def update_conv' split: if_splits option.splits)

definition in_dead :: "spool \<Rightarrow> string \<Rightarrow> string \<Rightarrow> bool" where
  "in_dead s n r = (\<exists>g rs. map_of (sp_dead s) (trim_suffix n ''.gz'') = Some g \<and> df_content g = Records rs
     \<and> compact_raw False r \<in> set rs)"

lemma send_file_read:
  assumes "map_of (sp_main s) name = Some f" "df_content f = Records raws"
  shows "send_file v name s =
    (case se_read v of Some e \<Rightarrow> (Some (ErrIO e), [], s)
     | None \<Rightarrow> (case se_batch v of
         DError e \<Rightarrow> (Some (ErrIO e), [], s)
       | DOk \<Rightarrow> (fst (finish_send v name s), raws, snd (finish_send v name s))
       | DPermanent \<Rightarrow>
          (let (ok, dead, er) = (if 1 < length raws then deliver_each raws (se_single v) else ([], raws, None)) in
           case er of Some e \<Rightarrow> (Some (ErrIO e), ok, s)
           | None \<Rightarrow> (case quarantineRecords (se_write v) (se_sync1 v) name dead s of
                (Some e, s') \<Rightarrow> (Some e, ok, s')
              | (None, s') \<Rightarrow> (fst (finish_send v name s'), ok, snd (finish_send v name s'))))))"
  using assms
  by (cases "se_read v"; cases "se_batch v")
     (simp_all add: send_file_def readSpoolFile_def Let_def case_prod_beta del: One_nat_def split: option.split)

lemma send_permanent:
  assumes "map_of (sp_main s) name = Some f" "df_content f = Records raws"
    and "se_read v = None" "se_batch v = DPermanent" "send_file v name s = (e, ok, s')"
  obtains (stopped) "s' = s"
  | (kept) dead s1 e1 where "quarantineRecords (se_write v) (se_sync1 v) name dead s = (Some e1, s1)" "s' = s1"
  | (finished) dead s1 where "quarantineRecords (se_write v) (se_sync1 v) name dead s = (None, s1)"
      "finish_send v name s1 = (e, s')" "set raws = set ok \<union> set dead"
proof -
  obtain ok0 dead er where d:
    "(if 1 < length raws then deliver_each raws (se_single v) else ([], raws, None)) = (ok0, dead, er)"
    by (metis prod_cases3)
  have cov: "er = None \<Longrightarrow> set raws = set ok0 \<union> set dead"
    using d deliver_each_covers [of raws "se_single v" ok0 dead] by (auto split: if_splits)
  note sf = assms(5) [unfolded send_file_read [OF assms(1,2)] d Let_def]
  show thesis
  proof (cases er)
    case (Some x)
    with sf assms(3,4) stopped show ?thesis by simp
  next
    case None
    obtain e1 s1 where q: "quarantineRecords (se_write v) (se_sync1 v) name dead s = (e1, s1)" by fastforce
    show ?thesis
    proof (cases e1)
      case n: None
      from sf assms(3,4) None q n have "(fst (finish_send v name s1), ok0, snd (finish_send v name s1)) = (e, ok, s')"
        by simp
      then have "ok = ok0" "finish_send v name s1 = (e, s')" by auto
      with q n cov None finished show ?thesis by blast
    next
      case (Some x)
      with sf assms(3,4) None q have "s' = s1" by simp
      with q Some kept show ?thesis by blast
    qed
  qed
qed


definition env_refused :: send_env where
  "env_refused = \<lparr>se_read = None, se_batch = DPermanent, se_single = [DPermanent, DPermanent], se_write = None,
     se_sync1 = None, se_sync2 = None, se_move = None, se_remove = None\<rparr>"



subsection \<open>Closing\<close>

lemma take_jobs_length: "take_jobs acc sz js = (xs, ys) \<Longrightarrow> length ys \<le> length js"
  by (induction acc sz js rule: take_jobs.induct) (auto split: if_splits)

lemma persist_jobs [simp]: "sp_jobs (snd (persist wr sy raws s)) = sp_jobs s"
  "sp_closed (snd (persist wr sy raws s)) = sp_closed s"
  by (auto simp: persist_def Let_def split: option.splits)

lemma write_round_jobs:
  assumes "sp_jobs s \<noteq> []"
  shows "length (sp_jobs (write_round wr sy s)) < length (sp_jobs s)"
proof -
  from assms obtain f rest where j: "sp_jobs s = f # rest" by (cases "sp_jobs s") auto
  obtain xs ys where t: "take_jobs [f] (length f) rest = (xs, ys)" by fastforce
  obtain e s' where p: "persist wr sy xs (s\<lparr>sp_jobs := ys\<rparr>) = (e, s')" by fastforce
  have "sp_jobs s' = ys" using persist_jobs(1) [of wr sy xs "s\<lparr>sp_jobs := ys\<rparr>"] p by simp
  with take_jobs_length [OF t] show ?thesis
    by (cases e) (simp_all add: write_round_def j t p reject_def)
qed

lemma drain_jobs_empty: "length (sp_jobs s) \<le> k \<Longrightarrow> sp_jobs (drain_jobs k io s) = []"
proof (induction k arbitrary: s)
  case (Suc k)
  show ?case
  proof (cases "sp_jobs s = []")
    case False
    from write_round_jobs [OF this, of "fst (io k)" "snd (io k)"] Suc.prems
    have "length (sp_jobs (write_round (fst (io k)) (snd (io k)) s)) \<le> k" by linarith
    from Suc.IH [OF this] False show ?thesis by simp
  qed simp
qed simp

text \<open>Closing an open spool answers every job: however the writes fail, as many rounds of
  the writer as there are jobs empty the channel.\<close>

theorem Close_drains: "\<not> sp_closed s \<Longrightarrow> sp_jobs (Close io s) = []"
  by (simp add: Close_def drain_jobs_empty)

theorem Close_drains_witness:
  "sp_jobs (Close (\<lambda>_. (None, None)) (empty_spool\<lparr>sp_jobs := [''1'', ''2'']\<rparr>)) = []"
  by (rule Close_drains) (simp add: empty_spool_def)

end
