(* ===== verification/Spool_Compaction.thy ===== *)
theory Spool_Compaction
  imports Spool_Safety
begin

section \<open>The spool: compaction keeps the records, and a quarantine that can lose one\<close>

text \<open>
  Compaction replaces runs of files by segments. Whatever fails on the way, the records that the
  listed files hold, read in order, stay the same up to re-encoding. The second part is a run of
  the spool that ends with an accepted record being nowhere.
\<close>

definition recs_of :: "dir \<Rightarrow> string \<Rightarrow> string list" where
  "recs_of d n = (case map_of d n of
     Some f \<Rightarrow> (case df_content f of Records rs \<Rightarrow> rs | Corrupt \<Rightarrow> []) | None \<Rightarrow> [])"

text \<open>The records waiting in the spool, in the order in which they will be sent.\<close>

definition run_records :: "dir \<Rightarrow> (string \<times> int) list \<Rightarrow> string list" where
  "run_records d fs = concat (map (\<lambda>f. recs_of d (fst f)) fs)"

definition waiting :: "spool \<Rightarrow> string list" where
  "waiting s = run_records (sp_main s) (sp_files s)"

text \<open>The same record, written by the JSON encoder any number of times.\<close>

definition reencoded :: "string \<Rightarrow> string \<Rightarrow> bool" where
  "reencoded x y = (\<exists>k. y = (compact_raw False ^^ k) x)"

lemma reencoded_refl [simp]: "reencoded x x"
  unfolding reencoded_def by (rule exI [of _ 0]) simp

lemma reencoded_step: "reencoded x (compact_raw False x)"
  unfolding reencoded_def by (rule exI [of _ 1]) simp

lemma reencoded_trans: "reencoded x y \<Longrightarrow> reencoded y z \<Longrightarrow> reencoded x z"
  unfolding reencoded_def by (metis comp_apply funpow_add)

lemma same_records: "list_all2 reencoded xs xs"
  by (rule list.rel_refl) simp

lemma same_records_trans:
  "list_all2 reencoded xs ys \<Longrightarrow> list_all2 reencoded ys zs \<Longrightarrow> list_all2 reencoded xs zs"
  by (rule list_all2_trans [OF reencoded_trans])

lemma same_records_compact: "list_all2 reencoded xs (map (compact_raw False) xs)"
  by (simp add: list_all2_conv_all_nth reencoded_step)

lemma run_records_simps [simp]:
  "run_records d [] = []" "run_records d (f # fs) = recs_of d (fst f) @ run_records d fs"
  "run_records d (xs @ ys) = run_records d xs @ run_records d ys"
  by (simp_all add: run_records_def)

lemma run_records_cong:
  "(\<And>f. f \<in> set fs \<Longrightarrow> map_of d' (fst f) = map_of d (fst f)) \<Longrightarrow> run_records d' fs = run_records d fs"
  unfolding run_records_def recs_of_def by (intro arg_cong [of _ _ concat] map_cong) simp_all

subsection \<open>Runs\<close>

lemma collect_loop_run:
  assumes "collect_loop ios d run records sz fs = (run', records')"
  shows "\<exists>k \<le> length fs. run' = run @ take k fs \<and>
    (records' = records @ run_records d (take k fs) \<or> length run' = 1)"
  using assms
proof (induction ios d run records sz fs rule: collect_loop.induct)
  case (1 ios d run records sz)
  then show ?case by simp
next
  case (2 ios d run records sz f fs)
  let ?rd = "readSpoolFile (ios (fst f)) d (fst f)"
  show ?case
  proof (cases ?rd)
    case (ROk raws n)
    then have raws: "recs_of d (fst f) = raws"
      by (auto simp: readSpoolFile_def recs_of_def split: option.splits fcontent.splits)
    show ?thesis
    proof (cases "run \<noteq> [] \<and> (segmentMaxRecords < length records + length raws \<or> segmentMaxBytes < sz + n)")
      case True
      with ROk "2.prems" show ?thesis by (intro exI [of _ 0]) simp
    next
      case no: False
      show ?thesis
      proof (cases "segmentMaxRecords \<le> length (records @ raws) \<or> segmentMaxBytes \<le> sz + n")
        case True
        with ROk no "2.prems" raws show ?thesis by (intro exI [of _ 1]) auto
      next
        case False
        from ROk no False "2.prems" have "collect_loop ios d (run @ [f]) (records @ raws) (sz + n) fs = (run', records')"
          by simp
        from "2.IH" [OF ROk no False this] obtain k where "k \<le> length fs" "run' = (run @ [f]) @ take k fs"
          "records' = (records @ raws) @ run_records d (take k fs) \<or> length run' = 1" by blast
        with raws show ?thesis by (intro exI [of _ "Suc k"]) auto
      qed
    qed
  next
    case RNotExist
    with "2.prems" show ?thesis
      by (cases "run = []") (auto intro: exI [of _ "1 :: nat"] exI [of _ "0 :: nat"])
  next
    case RCorrupt
    with "2.prems" show ?thesis
      by (cases "run = []") (auto intro: exI [of _ "1 :: nat"] exI [of _ "0 :: nat"])
  next
    case (RIO e)
    with "2.prems" show ?thesis
      by (cases "run = []") (auto intro: exI [of _ "1 :: nat"] exI [of _ "0 :: nat"])
  qed
qed

lemma collectRun_long:
  assumes "collectRun ios d fs = (run, records)" "\<not> length run < 2"
  shows "run = take (length run) fs" "records = run_records d run" "length run \<le> length fs"
  using collect_loop_run [of ios d "[]" "[]" 0 fs run records] assms
  by (auto simp: collectRun_def min_def)

lemma map_of_remove_run:
  "n = name \<or> n \<notin> fst ` set run \<Longrightarrow> map_of (remove_run removed name run d) n = map_of d n"
  unfolding remove_run_def by (induction run arbitrary: d) (auto simp: delete_conv')

lemma find_at_append: "fst f \<notin> fst ` set dn \<Longrightarrow> find_at (fst f) (dn @ f # fs) = Some (length dn)"
  by (induction dn) auto

subsection \<open>One segment\<close>

definition names_ok :: "(string \<times> int) list \<Rightarrow> bool" where
  "names_ok fs = (sorted_wrt (<) (map fst fs) \<and> list_all (\<lambda>f. canonical (fst f)) fs)"

lemma names_ok_append:
  "names_ok (xs @ ys) \<longleftrightarrow> names_ok xs \<and> names_ok ys \<and> (\<forall>x\<in>set xs. \<forall>y\<in>set ys. fst x < fst y)"
  by (auto simp: names_ok_def sorted_wrt_append)

lemma names_ok_Cons:
  "names_ok (f # ys) \<longleftrightarrow> canonical (fst f) \<and> names_ok ys \<and> (\<forall>y\<in>set ys. fst f < fst y)"
  by (auto simp: names_ok_def)

lemma segment_between:
  assumes "names_ok (dn @ run @ rest)" "\<not> length run < 2"
  shows "names_ok (dn @ (segment_name (fst (hd run)), b) # rest)"
    "segment_name (fst (hd run)) \<notin> fst ` set dn" "segment_name (fst (hd run)) \<notin> fst ` set rest"
proof -
  from assms(2) obtain f g run' where run: "run = f # g # run'" by (cases run; cases "tl run") auto
  let ?n = "segment_name (fst f)"
  from assms(1) run have cf: "canonical (fst f)" "canonical (fst g)" "fst f < fst g"
    and d: "\<forall>x\<in>set dn. fst x < fst f" and r: "\<forall>y\<in>set rest. fst g < fst y"
    and ok: "names_ok dn" "names_ok rest" "\<forall>x\<in>set dn. \<forall>y\<in>set rest. fst x < fst y"
    by (auto simp: names_ok_append names_ok_Cons)
  note seg = segment_follows [OF cf]
  have dl: "\<forall>x\<in>set dn. fst x < ?n" using d seg(3) by fastforce
  have rl: "\<forall>y\<in>set rest. ?n < fst y" using r seg(1) by fastforce
  show "names_ok (dn @ (segment_name (fst (hd run)), b) # rest)"
    using ok dl rl seg(2) run by (simp add: names_ok_append names_ok_Cons)
  show "segment_name (fst (hd run)) \<notin> fst ` set dn" "segment_name (fst (hd run)) \<notin> fst ` set rest"
    using dl rl run by fastforce+
qed

lemma names_disjoint:
  assumes "names_ok (xs @ ys)" "f \<in> set xs"
  shows "fst f \<notin> fst ` set ys"
  using assms by (fastforce simp: names_ok_append)

lemma names_distinct: "names_ok fs \<Longrightarrow> distinct (map fst fs)"
  by (simp add: names_ok_def strict_sorted_iff)

lemma same_records_emb: "list_all2 reencoded xs ys \<Longrightarrow> list_emb reencoded xs ys"
  by (induction rule: list_all2_induct) auto

lemma emb_refl: "list_emb reencoded xs xs"
  by (rule same_records_emb [OF same_records])

lemma emb_trans: "list_emb reencoded xs ys \<Longrightarrow> list_emb reencoded ys zs \<Longrightarrow> list_emb reencoded xs zs"
  using list_emb_trans [of xs ys zs reencoded] reencoded_trans by blast

text \<open>The segment, once written, holds the records of its run; the other listed files are as before.\<close>

lemma update_main_records:
  assumes "n \<notin> fst ` set fs"
  shows "run_records (AList.update n f d) fs = run_records d fs"
  using assms by (intro run_records_cong) (auto simp: update_conv')

lemma segment_written:
  assumes "n \<in> fst ` set run" "df_content f = Records (map (compact_raw False) (run_records d run))"
  shows "list_emb reencoded (run_records d run) (run_records (AList.update n f d) run)"
proof -
  from assms(1) obtain r1 g r2 where r: "run = r1 @ g # r2" "fst g = n" by (auto dest: split_list)
  have "recs_of (AList.update n f d) n = map (compact_raw False) (run_records d run)"
    using assms(2) by (simp add: recs_of_def update_conv')
  then obtain X Y where "run_records (AList.update n f d) run = X @ map (compact_raw False) (run_records d run) @ Y"
    using r by (auto simp: run_records_def)
  with same_records_emb [OF same_records_compact] show ?thesis
    by (simp add: list_emb_append2 list_emb_prefix)
qed

lemma writeSegment_cases:
  assumes files: "sp_files s = dn @ run @ rest" and run: "\<not> length run < 2" and ok: "names_ok (sp_files s)"
    and w: "writeSegment zlen v run records s = (e, s')"
  obtains (unchanged) "e \<noteq> None" "s' = s"
  | (written) f where "e \<noteq> None" "sg_sync1 v \<noteq> None" "df_content f = Records (map (compact_raw False) records)"
      "s' = s\<lparr>sp_main := AList.update (segment_name (fst (hd run))) f (sp_main s)\<rparr>"
  | (merged) f b removed where "df_content f = Records (map (compact_raw False) records)"
      "sp_files s' = dn @ (segment_name (fst (hd run)), b) # rest"
      "sp_main s' = remove_run removed (segment_name (fst (hd run))) run
         (AList.update (segment_name (fst (hd run))) f (sp_main s))"
proof -
  from run obtain f run' where rf: "run = f # run'" by (cases run) auto
  have "fst f \<notin> fst ` set dn"
    using names_disjoint [of dn "run @ rest"] ok files rf by (force simp: names_ok_append)
  then have at: "find_at (fst (hd run)) (sp_files s) = Some (length dn)"
    using find_at_append [of f dn "run' @ rest"] files rf by simp
  show thesis
  proof (cases "marshal_raws records")
    case None
    with w unchanged show ?thesis by (auto simp: writeSegment_def)
  next
    case (Some data)
    show ?thesis
    proof (cases "sg_write v")
      case (Some x)
      with w \<open>marshal_raws records = Some data\<close> unchanged show ?thesis by (auto simp: writeSegment_def)
    next
      case None
      show ?thesis
      proof (cases "sg_sync1 v")
        case (Some x)
        with w \<open>marshal_raws records = Some data\<close> None show ?thesis
          by (intro written) (auto simp: writeSegment_def Let_def)
      next
        case n: None
        with w \<open>marshal_raws records = Some data\<close> None at files show ?thesis
          by (intro merged) (auto simp: writeSegment_def Let_def)
      qed
    qed
  qed
qed

lemma writeSegment_waiting:
  assumes files: "sp_files s = dn @ run @ rest" and run: "\<not> length run < 2" and ok: "names_ok (sp_files s)"
    and w: "writeSegment zlen v run (run_records (sp_main s) run) s = (e, s')"
  shows "names_ok (sp_files s')" "list_emb reencoded (waiting s) (waiting s')"
    "sg_sync1 v = None \<Longrightarrow> list_all2 reencoded (waiting s) (waiting s')"
    "e = None \<Longrightarrow> \<exists>b. sp_files s' = dn @ (segment_name (fst (hd run)), b) # rest"
proof -
  let ?n = "segment_name (fst (hd run))" and ?R = "run_records (sp_main s) run"
  note okc = ok [unfolded files]
  note between = segment_between [OF okc run]
  have W: "waiting s = run_records (sp_main s) dn @ ?R @ run_records (sp_main s) rest"
    by (simp add: waiting_def files)
  from files run ok w
  have "names_ok (sp_files s') \<and> list_emb reencoded (waiting s) (waiting s')
    \<and> (sg_sync1 v = None \<longrightarrow> list_all2 reencoded (waiting s) (waiting s'))
    \<and> (e = None \<longrightarrow> (\<exists>b. sp_files s' = dn @ (?n, b) # rest))"
  proof (cases rule: writeSegment_cases)
    case unchanged
    with ok emb_refl same_records show ?thesis by auto
  next
    case (written f)
    have "list_emb reencoded ?R (run_records (AList.update ?n f (sp_main s)) run)"
    proof (cases "?n \<in> fst ` set run")
      case True
      then show ?thesis using written(3) by (rule segment_written)
    next
      case False
      then show ?thesis by (simp add: update_main_records emb_refl)
    qed
    moreover have "waiting s' = run_records (sp_main s) dn @ run_records (AList.update ?n f (sp_main s)) run
        @ run_records (sp_main s) rest"
      using written between by (simp add: waiting_def files update_main_records)
    ultimately have "list_emb reencoded (waiting s) (waiting s')"
      by (simp only: W list_emb_append_mono emb_refl)
    with ok written show ?thesis by auto
  next
    case (merged f b removed)
    let ?m = "AList.update ?n f (sp_main s)"
    have other: "run_records (sp_main s') fs = run_records (sp_main s) fs"
      if "?n \<notin> fst ` set fs" "fst ` set fs \<inter> fst ` set run = {}" for fs
    proof (rule run_records_cong)
      fix g assume "g \<in> set fs"
      then have "fst g \<in> fst ` set fs" by (rule imageI)
      with that have "fst g \<notin> fst ` set run" "fst g \<noteq> ?n" by (blast, metis)
      then show "map_of (sp_main s') (fst g) = map_of (sp_main s) (fst g)"
        by (simp add: merged(3) map_of_remove_run update_conv')
    qed
    have dj: "fst ` set dn \<inter> fst ` set run = {}" "fst ` set rest \<inter> fst ` set run = {}"
      using names_distinct [OF okc] by auto
    have "recs_of (sp_main s') ?n = map (compact_raw False) ?R"
      using merged(1) by (simp add: recs_of_def merged(3) map_of_remove_run update_conv')
    then have "waiting s' = run_records (sp_main s) dn @ map (compact_raw False) ?R @ run_records (sp_main s) rest"
      using other [OF between(2) dj(1)] other [OF between(3) dj(2)] by (simp add: waiting_def merged(2))
    then have "list_all2 reencoded (waiting s) (waiting s')"
      using W by (simp add: list_all2_appendI same_records same_records_compact)
    then show ?thesis using merged(2) between(1) same_records_emb by auto
  qed
  then show "names_ok (sp_files s')" "list_emb reencoded (waiting s) (waiting s')"
    "sg_sync1 v = None \<Longrightarrow> list_all2 reencoded (waiting s) (waiting s')"
    "e = None \<Longrightarrow> \<exists>b. sp_files s' = dn @ (?n, b) # rest"
    by simp_all
qed

subsection \<open>The whole compaction\<close>

lemma compact_loop_waiting:
  assumes "sp_files s = dn @ fs" "names_ok (sp_files s)"
  shows "list_emb reencoded (waiting s) (waiting (compact_loop zlen ios vs fs s))
    \<and> (list_all (\<lambda>v. sg_sync1 v = None) vs \<longrightarrow>
         list_all2 reencoded (waiting s) (waiting (compact_loop zlen ios vs fs s)))
    \<and> names_ok (sp_files (compact_loop zlen ios vs fs s))"
  using assms
proof (induction zlen ios vs fs s arbitrary: dn rule: compact_loop.induct)
  case (1 zlen ios vs s)
  then show ?case by (simp add: emb_refl same_records)
next
  case (2 zlen ios vs f fs s)
  obtain run records where c: "collectRun ios (sp_main s) (f # fs) = (run, records)" by fastforce
  show ?case
  proof (cases "length run < 2")
    case True
    have "sp_files s = (dn @ [f]) @ fs" using "2.prems" by simp
    from "2.IH"(1) [OF c [symmetric] refl True this "2.prems"(2)] c True show ?thesis by simp
  next
    case False
    note long = collectRun_long [OF c False]
    let ?rest = "drop (length run) (f # fs)"
    have files: "sp_files s = dn @ run @ ?rest" using "2.prems"(1) long by (metis append_take_drop_id)
    show ?thesis
    proof (cases vs)
      case Nil
      with c False "2.prems"(2) show ?thesis by (simp add: emb_refl same_records)
    next
      case (Cons v vs')
      obtain e s' where w: "writeSegment zlen v run records s = (e, s')" by fastforce
      note ws = writeSegment_waiting [OF files False "2.prems"(2) w [unfolded long(2)]]
      show ?thesis
      proof (cases e)
        case None
        from ws(4) [OF None] obtain b where f': "sp_files s' = (dn @ [(segment_name (fst (hd run)), b)]) @ ?rest" by auto
        from "2.IH"(2) [OF c [symmetric] refl False Cons w [symmetric] None f' ws(1)] ws(2,3) Cons c False w None
        show ?thesis by (auto intro: emb_trans same_records_trans)
      next
        case (Some x)
        with ws(1-3) Cons c False w show ?thesis by (simp add: waiting_def)
      qed
    qed
  qed
qed

text \<open>C12. Compaction loses no record and keeps the order. For a spool whose file names are its
  own and listed in order, whatever fails while files are read, segments written, old files
  removed and directories synced, the records waiting before occur, in the same order and up to
  JSON re-encoding, among the records waiting after; and unless the sync after writing a segment
  failed they are exactly the same sequence.\<close>

theorem compact_keeps_records:
  assumes "names_ok (sp_files s)"
  shows "list_emb reencoded (waiting s) (waiting (compact zlen ios vs minFiles s))
    \<and> (list_all (\<lambda>v. sg_sync1 v = None) vs \<longrightarrow>
         list_all2 reencoded (waiting s) (waiting (compact zlen ios vs minFiles s)))
    \<and> names_ok (sp_files (compact zlen ios vs minFiles s))"
  using compact_loop_waiting [of s "[]" "sp_files s" zlen ios vs] assms
  by (simp add: compact_def emb_refl same_records)

definition seg_fine :: seg_env where
  "seg_fine = \<lparr>sg_write = None, sg_sync1 = None, sg_removed = (\<lambda>_. True), sg_sync2 = None\<rparr>"

text \<open>Two files, each with one record.\<close>

definition two_spool :: spool where
  "two_spool = one_spool\<lparr>sp_files := [(spool_name 1, 4096), (spool_name 2, 4096)], sp_bytes := 8192,
     sp_sequence := 2, sp_pressure := True,
     sp_main := [(spool_name 1, \<lparr>df_content = Records [''1''], df_len = 3, df_size = 3\<rparr>),
                 (spool_name 2, \<lparr>df_content = Records [''2''], df_len = 3, df_size = 3\<rparr>)]\<rparr>"

lemma spool_names_12: "spool_name 1 < spool_name 2" "spool_name 1 \<noteq> spool_name 2" "canonical (spool_name 1)"
  "canonical (spool_name 2)"
  using spool_name_less [of 1 2 "[]" "[]"] unfolding canonical_def
  by (auto intro: exI [of _ 1] exI [of _ 2])

theorem compact_keeps_records_witness:
  "list_all2 reencoded [''1'', ''2''] (waiting (compact (\<lambda>_. 30) (\<lambda>_. None) [seg_fine] 2 two_spool))"
proof -
  have ok: "names_ok (sp_files two_spool)"
    using spool_names_12 by (simp add: two_spool_def names_ok_def)
  have "waiting two_spool = [''1'', ''2'']"
    using spool_names_12(2) by (simp add: waiting_def two_spool_def recs_of_def)
  with compact_keeps_records [OF ok, of "\<lambda>_. 30" "\<lambda>_. None" "[seg_fine]" 2]
  show ?thesis by (simp add: seg_fine_def)
qed


subsection \<open>A record lost by a name collision\<close>

definition env_remove_fails :: send_env where
  "env_remove_fails = env_refused\<lparr>se_remove := Some ''remove: input/output error''\<rparr>"

text \<open>The receiver refuses the only record for good; it is quarantined, but its file cannot be removed.\<close>

definition lost_1 :: spool where
  "lost_1 = snd (snd (send_file env_remove_fails (spool_name 1) (one_spool\<lparr>sp_limit := 20000\<rparr>)))"

text \<open>A second record arrives, and compaction under pressure merges both files.\<close>

definition lost_2 :: spool where
  "lost_2 = snd (persist None None [''2''] lost_1)"

definition lost_3 :: spool where
  "lost_3 = compact (\<lambda>_. 30) (\<lambda>_. None) [seg_fine] 2 lost_2"

text \<open>The receiver refuses both records.\<close>

definition lost_4 :: spool where
  "lost_4 = snd (snd (send_file env_refused (head_file lost_3) lost_3))"

lemma lost_1_state:
  "lost_1 = (one_spool\<lparr>sp_limit := 20000, sp_deadFiles := 1, sp_deadBytes := 4096, sp_quarantined := 1,
     sp_dead := [(spool_name 1, \<lparr>df_content = Records [''1''], df_len = 3, df_size = 3\<rparr>)]\<rparr>)"
proof -
  have "trim_suffix (spool_name 1) ''.gz'' = spool_name 1"
    by (simp add: spool_name_trim del: One_nat_def)
  then show ?thesis
    by (simp add: lost_1_def env_remove_fails_def env_refused_def one_spool_def empty_spool_def send_file_def
      readSpoolFile_def quarantineRecords_def marshal_digits digit_records Let_def finish_send_def blocks_one
      del: One_nat_def)
qed


lemma lost_2_state:
  "lost_2 = lost_1\<lparr>sp_sequence := 2, sp_files := [(spool_name 1, 4096), (spool_name 2, 4096)], sp_bytes := 8192,
     sp_wake := True, sp_pressure := True,
     sp_main := [(spool_name 1, \<lparr>df_content = Records [''1''], df_len = 3, df_size = 3\<rparr>),
                 (spool_name 2, \<lparr>df_content = Records [''2''], df_len = 3, df_size = 3\<rparr>)]\<rparr>"
  using spool_names_12(2)
  by (simp add: lost_2_def lost_1_state persist_def marshal_digits digit_records one_spool_def empty_spool_def
    blocks_one Let_def del: One_nat_def)

lemma blocks_30: "blocks 30 = 4096"
  by (simp add: blocks_def spoolBlock_def)

lemma segment_name_1: "segment_name (spool_name 1) = spool_name 1 @ ''.gz''"
  by (simp add: segment_name_def spool_name_trim del: One_nat_def) (simp add: spool_name_def)

lemma spool_name_1_gz: "spool_name n \<noteq> spool_name m @ ''.gz''"
  using arg_cong [of "spool_name n" "spool_name m @ ''.gz''" last] by (auto simp: spool_name_def)

lemma lost_run:
  "collectRun (\<lambda>_. None) (sp_main lost_2) (sp_files lost_2)
     = ([(spool_name 1, 4096), (spool_name 2, 4096)], [''1'', ''2''])"
  using spool_names_12(2)
  by (simp add: collectRun_def lost_2_state readSpoolFile_def segmentMaxRecords_def segmentMaxBytes_def
    del: One_nat_def)

lemma lost_3_state:
  "sp_files lost_3 = [(spool_name 1 @ ''.gz'', 4096)]" "sp_dead lost_3 = sp_dead lost_1"
  "sp_main lost_3 = [(spool_name 1 @ ''.gz'', \<lparr>df_content = Records [''1'', ''2''], df_len = 5, df_size = 30\<rparr>)]"
  "sp_quarantined lost_3 = 1"
proof -
  have f: "sp_files lost_2 = (spool_name 1, 4096) # [(spool_name 2, 4096)]"
    by (simp add: lost_2_state)
  obtain e s where w: "writeSegment (\<lambda>_. 30) seg_fine [(spool_name 1, 4096), (spool_name 2, 4096)] [''1'', ''2''] lost_2
      = (e, s)" by fastforce
  have s: "e = None" "sp_files s = [(spool_name 1 @ ''.gz'', 4096)]" "sp_dead s = sp_dead lost_1" "sp_quarantined s = 1"
    "sp_main s = [(spool_name 1 @ ''.gz'', \<lparr>df_content = Records [''1'', ''2''], df_len = 5, df_size = 30\<rparr>)]"
    using w spool_names_12(2) spool_name_1_gz [of 1 1] spool_name_1_gz [of 2 1]
    by (auto simp add: writeSegment_def seg_fine_def marshal_digits segment_name_1 lost_2_state lost_1_state Let_def
      remove_run_def digit_records blocks_30 simp del: One_nat_def)
  have "lost_3 = s"
    using lost_run w s(1) by (simp add: lost_3_def compact_def f del: One_nat_def)
  with s show "sp_files lost_3 = [(spool_name 1 @ ''.gz'', 4096)]" "sp_dead lost_3 = sp_dead lost_1"
    "sp_main lost_3 = [(spool_name 1 @ ''.gz'', \<lparr>df_content = Records [''1'', ''2''], df_len = 5, df_size = 30\<rparr>)]"
    "sp_quarantined lost_3 = 1" by simp_all
qed



subsection \<open>Rounds of the sender\<close>

lemma acct_lastError: "acct (s\<lparr>sp_lastError := e\<rparr>) = acct s"
  by (simp add: acct_def)

text \<open>Every round of the sender keeps the byte count of the spool equal to the sum of its
  files, and keeps the delay before the next attempt between one and thirty seconds; after a
  successful round it is one second again.\<close>

theorem sendLoop_round_bounds:
  assumes "acct s" "second \<le> retry" "retry \<le> 30 * second"
    and "sendLoop_round zlen ios vs v ios' vs' retry s = (retry', s')"
  shows "acct s' \<and> second \<le> retry' \<and> retry' \<le> 30 * second \<and> (retry' = second \<or> retry' = retry \<or> retry' = next_retry retry)"
proof (cases "head_file s = []")
  case True
  with assms show ?thesis by (auto simp: sendLoop_round_def acct_def)
next
  case False
  define s1 where "s1 = (if compactEagerFiles \<le> length (sp_files s) then compact zlen ios vs compactMinFiles s else s)"
  obtain e ok s2 where s2: "send_file v (head_file s) s1 = (e, ok, s2)" by (metis prod_cases3)
  have "acct s1" using assms(1) by (simp add: s1_def acct_compact)
  then have "acct s2" using acct_send_file [of s1 v "head_file s"] s2 by simp
  with assms(2-4) False s2 show ?thesis
    by (cases e) (auto simp: sendLoop_round_def s1_def [symmetric] Let_def acct_compact acct_lastError next_retry_def)
qed

theorem sendLoop_round_bounds_witness:
  "fst (sendLoop_round (\<lambda>_. 30) (\<lambda>_. None) [] env_remove_fails (\<lambda>_. None) [] (20 * second) one_spool) \<le> 30 * second"
proof -
  have "acct one_spool" by (simp add: acct_def one_spool_def empty_spool_def)
  from sendLoop_round_bounds [OF this, of "20 * second" "\<lambda>_. 30" "\<lambda>_. None" "[]" env_remove_fails "\<lambda>_. None" "[]"]
  show ?thesis by (cases "sendLoop_round (\<lambda>_. 30) (\<lambda>_. None) [] env_remove_fails (\<lambda>_. None) [] (20 * second) one_spool") simp
qed

end
