(* ===== verification/Go_Value.thy ===== *)
theory Go_Value
  imports Go_Strings Complex_Main
begin

section \<open>Decoded JSON values (Go's interface values)\<close>

text \<open>
  The values that \<^verbatim>\<open>json.Unmarshal\<close> puts behind an \<^verbatim>\<open>interface{}\<close>, as the runtime components
  read them. A number is a \<^verbatim>\<open>float64\<close>; the code looks at its value and at the text that
  \<^verbatim>\<open>fmt.Sprintf("%v")\<close> prints for it, and both are part of the constructor. An object is the
  list of its entries; where the code ranges over a map, it does so in the order of this list.
\<close>

datatype govalue =
    VNull
  | VBool bool
  | VNum rat string
  | VStr string
  | VArr "govalue list"
  | VObj "(string \<times> govalue) list"

type_synonym gomap = "(string \<times> govalue) list"

text \<open>The UTF-8 bytes of the em dash that the services print.\<close>

definition em_dash :: string where "em_dash = [CHR 0xE2, CHR 0x80, CHR 0x94]"

text \<open>An integral number, whose text is its decimal numeral.\<close>

definition vint :: "int \<Rightarrow> govalue" where
  "vint n = VNum (of_int n) (int_str n)"

lemma size_entry [termination_simp]: "kv \<in> set kvs \<Longrightarrow> size (snd kv) < Suc (size_list (size_prod (\<lambda>_. 0) size) kvs)"
  by (induction kvs) auto

text \<open>\<^verbatim>\<open>fmt.Sprintf("%v", v)\<close>: maps print with sorted keys.\<close>

fun fmt_v :: "govalue \<Rightarrow> string" where
  "fmt_v VNull = ''<nil>''"
| "fmt_v (VBool b) = (if b then ''true'' else ''false'')"
| "fmt_v (VNum x t) = t"
| "fmt_v (VStr s) = s"
| "fmt_v (VArr vs) = ''['' @ join '' '' (map fmt_v vs) @ '']''"
| "fmt_v (VObj kvs) = ''map['' @ join '' '' (map (\<lambda>(k, t). k @ '':'' @ t)
     (sort_key fst (map (\<lambda>kv. (fst kv, fmt_v (snd kv))) kvs))) @ '']''"

text \<open>Type assertions: \<^verbatim>\<open>v.(string)\<close> of a missing or other value is the empty string.\<close>

fun as_str :: "govalue option \<Rightarrow> string option" where
  "as_str (Some (VStr s)) = Some s"
| "as_str _ = None"

fun as_obj :: "govalue option \<Rightarrow> gomap option" where
  "as_obj (Some (VObj m)) = Some m"
| "as_obj _ = None"

definition str_or :: "govalue option \<Rightarrow> string" where
  "str_or v = (case as_str v of Some s \<Rightarrow> s | None \<Rightarrow> [])"

lemma str_or_simps [simp]:
  "str_or None = []" "str_or (Some (VStr s)) = s" "str_or (Some (VNum x t)) = []" "str_or (Some VNull) = []"
  "str_or (Some (VObj m)) = []" "str_or (Some (VArr vs)) = []" "str_or (Some (VBool b)) = []" "str_or (Some (vint n)) = []"
  by (simp_all add: str_or_def vint_def)

text \<open>\<^verbatim>\<open>int(x)\<close> of a floating-point number truncates towards zero.\<close>

definition trunc_int :: "rat \<Rightarrow> int" where
  "trunc_int x = (if 0 \<le> x then floor x else ceiling x)"

lemma trunc_of_int [simp]: "trunc_int (of_int n) = n"
  by (simp add: trunc_int_def)

lemma trunc_numeral [simp]: "trunc_int (numeral n) = numeral n" "trunc_int 0 = 0" "trunc_int 1 = 1"
  by (simp_all add: trunc_int_def)

end
