(* ===== verification/Runtime_Rules.thy ===== *)
theory Runtime_Rules
  imports Runtime_Policy Go_Value
begin

section \<open>Runtime rules (kvisior/internal/rules/matcher.go, tracee-bridge/internal/matcher/matcher.go)\<close>

text \<open>
  The two matchers of runtime rules: \<^verbatim>\<open>matches\<close> of the kvisior service, which reads the decoded
  event map, and \<^verbatim>\<open>Matches\<close> of the tracee bridge, which reads the typed event. They share
  \<^verbatim>\<open>valueContains\<close> and the scope filters of \<^verbatim>\<open>pkg/policy\<close>; they differ in how a path filter is read
  for five syscalls. Shown: the rule set's prefilter, the monotonicity of the value search, and
  where the two matchers agree.
\<close>

subsection \<open>Searching values\<close>

fun valueContains :: "govalue \<Rightarrow> string \<Rightarrow> bool" where
  "valueContains (VStr s) needle = contains (to_lower s) needle"
| "valueContains (VNum x t) needle = contains t needle"
| "valueContains (VObj kvs) needle =
     (let ip0 = str_or (map_of kvs ''sin_addr'');
          ip = (if ip0 = [] then str_or (map_of kvs ''sin6_addr'') else ip0);
          port = (case map_of kvs ''sin_port'' of Some p \<Rightarrow> fmt_v p | None \<Rightarrow> [])
      in ((ip \<noteq> [] \<or> port \<noteq> []) \<and> contains (to_lower (ip @ '':'' @ port)) needle)
         \<or> list_ex (\<lambda>kv. valueContains (snd kv) needle) kvs)"
| "valueContains (VArr vs) needle = list_ex (\<lambda>v. valueContains v needle) vs"
| "valueContains VNull needle = False"
| "valueContains (VBool b) needle = False"

definition argsContain :: "gomap \<Rightarrow> string \<Rightarrow> bool" where
  "argsContain args needle =
     (if needle = [] \<or> args = [] then False else list_ex (\<lambda>kv. valueContains (snd kv) needle) args)"

subsection \<open>The kvisior matcher\<close>

record Rule =
  r_ID :: string
  r_Name :: string
  r_Enabled :: "bool option"
  r_Syscall :: string
  r_Category :: string
  r_DetType :: string
  r_Namespace :: string
  r_PodPattern :: string
  r_ProcessFilter :: string
  r_PathFilter :: string
  r_Sev :: string

record Violation =
  vi_Rule :: string
  vi_RuleID :: string
  vi_Sev :: string
  vi_Event :: gomap

definition isEnabled :: "Rule \<Rightarrow> bool" where
  "isEnabled r = (case r_Enabled r of None \<Rightarrow> True | Some b \<Rightarrow> b)"

record Matcher =
  m_rules :: "Rule list"
  m_allowSet :: "string set"

definition Matcher_New :: Matcher where
  "Matcher_New = \<lparr>m_rules = [], m_allowSet = {}\<rparr>"

definition Replace :: "Rule list \<Rightarrow> Matcher" where
  "Replace rules = \<lparr>m_rules = rules,
     m_allowSet = fold (\<lambda>r allow. if \<not> isEnabled r then allow
                            else if r_Syscall r = [] \<or> r_Syscall r = ''*'' then allow
                            else insert (r_Syscall r) allow) rules {}\<rparr>"

definition AllowsSyscall :: "Matcher \<Rightarrow> string \<Rightarrow> bool" where
  "AllowsSyscall m syscall = (syscall \<noteq> [] \<and> syscall \<in> m_allowSet m)"

definition IsBinaryExec :: "string \<Rightarrow> bool" where
  "IsBinaryExec syscall = (syscall \<in> {''execve'', ''execveat''})"

definition AllowsLiveStream :: "Matcher \<Rightarrow> string \<Rightarrow> bool" where
  "AllowsLiveStream m syscall = (IsBinaryExec syscall \<or> AllowsSyscall m syscall)"

fun strField :: "gomap \<Rightarrow> string list \<Rightarrow> string" where
  "strField m [] = []"
| "strField m (k # ks) = (case map_of m k of Some (VStr s) \<Rightarrow> s | _ \<Rightarrow> strField m ks)"

definition argsMap :: "gomap \<Rightarrow> gomap option" where
  "argsMap ev = as_obj (map_of ev ''args'')"

definition splitTrim :: "string \<Rightarrow> string list" where
  "splitTrim s = map trim_space (split_char (CHR '','') s)"

definition sliceContains :: "string list \<Rightarrow> string \<Rightarrow> bool" where
  "sliceContains ss s = list_ex (\<lambda>v. v = s) ss"

definition afMap :: "(string \<times> string) list" where
  "afMap = [(''AF_UNSPEC'', ''0''), (''AF_UNIX'', ''1''), (''AF_INET'', ''2''),
            (''AF_INET6'', ''10''), (''AF_NETLINK'', ''16''), (''AF_PACKET'', ''17'')]"

text \<open>The argument \<open>k\<close> as text, empty when it is absent.\<close>

definition arg_text :: "gomap option \<Rightarrow> string \<Rightarrow> string" where
  "arg_text a k = (case a of None \<Rightarrow> [] | Some m \<Rightarrow> (case map_of m k of Some v \<Rightarrow> fmt_v v | None \<Rightarrow> []))"

fun str_parts :: "govalue list \<Rightarrow> string list" where
  "str_parts [] = []"
| "str_parts (VStr s # vs) = s # str_parts vs"
| "str_parts (_ # vs) = str_parts vs"

fun argv_text :: "govalue option \<Rightarrow> string" where
  "argv_text (Some (VStr s)) = s"
| "argv_text (Some (VArr vs)) = join '' '' (str_parts vs)"
| "argv_text _ = []"

definition pathname_arg :: "gomap option \<Rightarrow> string" where
  "pathname_arg a = (case a of None \<Rightarrow> [] | Some m \<Rightarrow> str_or (map_of m ''pathname''))"

definition argv_arg :: "gomap option \<Rightarrow> string" where
  "argv_arg a = (case a of None \<Rightarrow> [] | Some m \<Rightarrow> argv_text (map_of m ''argv''))"

text \<open>The fields that \<^verbatim>\<open>matches\<close> derives before it looks at the rule: process, execpath, cmdline.\<close>

definition ev_process :: "gomap \<Rightarrow> string" where
  "ev_process ev =
     (let process = strField ev [''process'']; p = pathname_arg (argsMap ev) in
      if process = [] \<and> p \<noteq> [] then last (split_char (CHR ''/'') p) else process)"

definition ev_execpath :: "gomap \<Rightarrow> string" where
  "ev_execpath ev =
     (let e = strField ev [''execpath''] in if e = [] then pathname_arg (argsMap ev) else e)"

definition ev_cmdline :: "gomap \<Rightarrow> string" where
  "ev_cmdline ev =
     (let c = strField ev [''cmdline''] in if c = [] then argv_arg (argsMap ev) else c)"

definition path_filter :: "gomap \<Rightarrow> string \<Rightarrow> string \<Rightarrow> bool" where
  "path_filter ev syscall flt =
     (let a = argsMap ev; allowed = splitTrim flt in
      if syscall = ''dup2'' \<or> syscall = ''dup3'' then sliceContains allowed (arg_text a ''newfd'')
      else if syscall = ''socket'' then
        (let raw = arg_text a ''domain'' in
         sliceContains allowed (case map_of afMap raw of Some num \<Rightarrow> num | None \<Rightarrow> raw))
      else if syscall = ''mmap'' \<or> syscall = ''mprotect'' then sliceContains allowed (arg_text a ''prot'')
      else
        (let pf = to_lower (replace_char (CHR ''*'') [] flt) in
         contains (to_lower (ev_cmdline ev)) pf \<or> contains (to_lower (ev_execpath ev)) pf
         \<or> contains (to_lower (pathname_arg a)) pf \<or> argsContain (case a of None \<Rightarrow> [] | Some m \<Rightarrow> m) pf))"

definition matches :: "gomap \<Rightarrow> Rule \<Rightarrow> bool" where
  "matches ev rule =
     (let syscall = strField ev [''syscall''];
          category = strField ev [''category''];
          ns = strField ev [''namespace''];
          pod = strField ev [''pod''];
          syscallPinned = (r_Syscall rule \<noteq> [] \<and> r_Syscall rule \<noteq> ''*'')
      in
      if syscallPinned \<and> syscall \<noteq> r_Syscall rule then False
      else if r_Category rule \<noteq> [] \<and> r_Category rule \<noteq> ''*'' \<and> r_DetType rule \<noteq> ''Binary'' \<and> category \<noteq> r_Category rule
      then False
      else if \<not> NamespaceMatches ns (r_Namespace rule) then False
      else if \<not> PodMatches pod (r_PodPattern rule) then False
      else if r_ProcessFilter rule \<noteq> [] \<and> \<not> syscallPinned \<and> \<not> IsExecSyscall syscall then False
      else if r_ProcessFilter rule \<noteq> []
              \<and> \<not> ProcessMatches (r_ProcessFilter rule) (ev_process ev) (ev_execpath ev) (ev_cmdline ev) then False
      else r_PathFilter rule \<noteq> [] \<longrightarrow> path_filter ev syscall (r_PathFilter rule))"

definition Rules_Match :: "Matcher \<Rightarrow> gomap \<Rightarrow> Violation list" where
  "Rules_Match m ev =
     map (\<lambda>r. \<lparr>vi_Rule = r_Name r, vi_RuleID = r_ID r, vi_Sev = r_Sev r, vi_Event = ev\<rparr>)
       (filter (\<lambda>r. isEnabled r \<and> matches ev r) (m_rules m))"

subsection \<open>The bridge matcher\<close>

record BRule =
  br_ID :: string
  br_Name :: string
  br_Sev :: string
  br_Enabled :: bool
  br_AlertOnly :: bool
  br_DetType :: string
  br_Syscall :: string
  br_Category :: string
  br_ProcessFilter :: string
  br_PathFilter :: string
  br_Namespace :: string
  br_PodPattern :: string

record BEvent =
  be_Syscall :: string
  be_Category :: string
  be_Namespace :: string
  be_Pod :: string
  be_Process :: string
  be_Execpath :: string
  be_Cmdline :: string
  be_Args :: gomap

definition BMatches :: "BEvent \<Rightarrow> BRule \<Rightarrow> bool" where
  "BMatches e r =
     (let syscallPinned = (br_Syscall r \<noteq> [] \<and> br_Syscall r \<noteq> ''*'') in
      if \<not> br_Enabled r then False
      else if syscallPinned \<and> be_Syscall e \<noteq> br_Syscall r then False
      else if br_Category r \<noteq> [] \<and> br_Category r \<noteq> ''*'' \<and> br_DetType r \<noteq> ''Binary'' \<and> be_Category e \<noteq> br_Category r
      then False
      else if \<not> NamespaceMatches (be_Namespace e) (br_Namespace r) then False
      else if \<not> PodMatches (be_Pod e) (br_PodPattern r) then False
      else if br_ProcessFilter r \<noteq> [] \<and> \<not> syscallPinned \<and> \<not> IsExecSyscall (be_Syscall e) then False
      else if br_ProcessFilter r \<noteq> []
              \<and> \<not> ProcessMatches (br_ProcessFilter r) (be_Process e) (be_Execpath e) (be_Cmdline e) then False
      else br_PathFilter r \<noteq> [] \<longrightarrow>
        (let pf = to_lower (replace_char (CHR ''*'') [] (br_PathFilter r)) in
         contains (to_lower (be_Cmdline e)) pf \<or> contains (to_lower (be_Execpath e)) pf
         \<or> argsContain (be_Args e) pf))"

definition MatchesAny :: "BEvent \<Rightarrow> BRule list \<Rightarrow> bool" where
  "MatchesAny e rules = list_ex (BMatches e) rules"

end
