(* ===== verification/Bridge_Mapper.thy ===== *)
theory Bridge_Mapper
  imports Runtime_Rules "HOL-Library.AList"
begin

section \<open>From tracee events to UI events (tracee-bridge/internal/mapper, internal/events)\<close>

text \<open>
  \<^verbatim>\<open>Map\<close> turns an event of the tracee agent into the event the rest of the system sees: pod and
  container identity from either of two places, the argument list as a map, and process, execpath
  and cmdline per syscall. \<open>event_map\<close> is what the consumers of the Kafka topic decode from it.
\<close>

datatype Kind = KSyscall | KLSMHook | KTracepoint

fun kind_text :: "Kind \<Rightarrow> string" where
  "kind_text KSyscall = ''syscall''"
| "kind_text KLSMHook = ''lsm_hook''"
| "kind_text KTracepoint = ''tracepoint''"

definition tracepoints :: "string list" where
  "tracepoints = [''sched_process_exec'', ''sched_process_fork'', ''sched_process_exit'',
     ''task_rename'', ''sched_switch'', ''module_load'', ''module_free'',
     ''cgroup_mkdir'', ''cgroup_rmdir'', ''cgroup_attach_task'']"

definition KindFor :: "string \<Rightarrow> Kind" where
  "KindFor name =
     (if has_prefix name ''security_'' then KLSMHook
      else if name \<in> set tracepoints then KTracepoint else KSyscall)"

record TraceeArg =
  ta_Name :: string
  ta_Type :: string
  ta_Value :: govalue

record TraceeContainerContext =
  tc_ID :: string
  tc_Name :: string
  tc_Image :: string

record TraceeK8sContext =
  tk_PodName :: string
  tk_PodNamespace :: string
  tk_PodUID :: string

record TraceeEvent =
  te_Timestamp :: gotime
  te_HostProcessID :: int
  te_UserID :: int
  te_ProcessName :: string
  te_HostName :: string
  te_ContainerID :: string
  te_ContainerImage :: string
  te_ContainerName :: string
  te_Container :: "TraceeContainerContext option"
  te_PodName :: string
  te_PodNamespace :: string
  te_PodUID :: string
  te_Kubernetes :: "TraceeK8sContext option"
  te_EventName :: string
  te_Args :: "TraceeArg list"
  te_Data :: "TraceeArg list"

record UIEvent =
  ui_ID :: int
  ui_Ts :: gotime
  ui_Syscall :: string
  ui_EventKind :: Kind
  ui_Namespace :: string
  ui_Pod :: string
  ui_PodUID :: string
  ui_PodIP :: string
  ui_Node :: string
  ui_Container :: string
  ui_ContainerID :: string
  ui_Image :: string
  ui_PID :: int
  ui_UID :: int
  ui_Process :: string
  ui_Execpath :: string
  ui_Cmdline :: string
  ui_Args :: gomap
  ui_Severity :: string
  ui_Category :: string

definition systemNamespaces :: "string list" where
  "systemNamespaces = [''kube-system'', ''kube-public'', ''kube-node-lease'', ''calico-system'',
     ''calico-apiserver'', ''cilium'', ''cert-manager'', ''monitoring'', ''ingress-nginx'']"

text \<open>The last argument of a name wins.\<close>

definition args_map :: "TraceeArg list \<Rightarrow> gomap" where
  "args_map args = fold (\<lambda>a m. AList.update (ta_Name a) (ta_Value a) m) args []"

fun stringArg :: "TraceeArg list \<Rightarrow> string \<Rightarrow> string" where
  "stringArg [] name = []"
| "stringArg (a # as) name =
     (case ta_Value a of
        VStr s \<Rightarrow> if ta_Name a = name \<and> ta_Type a = ''string'' then s else stringArg as name
      | _ \<Rightarrow> stringArg as name)"

text \<open>\<^verbatim>\<open>fmt.Sprintf("%.0f", p)\<close> rounds half to even.\<close>

definition fmt_0f :: "rat \<Rightarrow> string" where
  "fmt_0f p = (let n = floor p; d = p - of_int n in
     int_str (if d < 1/2 then n else if d > 1/2 then n + 1 else if even n then n else n + 1))"

definition sock_text :: "gomap \<Rightarrow> string" where
  "sock_text v =
     (let ip0 = str_or (map_of v ''sin_addr'');
          ip = (if ip0 = [] then str_or (map_of v ''sin6_addr'') else ip0);
          port = (case map_of v ''sin_port'' of Some (VNum p t) \<Rightarrow> if 0 < p then fmt_0f p else [] | _ \<Rightarrow> [])
      in if ip \<noteq> [] \<and> port \<noteq> [] then ip @ '':'' @ port else ip)"

fun anyStringArg :: "TraceeArg list \<Rightarrow> string \<Rightarrow> string" where
  "anyStringArg [] name = []"
| "anyStringArg (a # as) name =
     (if ta_Name a \<noteq> name then anyStringArg as name
      else (case ta_Value a of
              VStr s \<Rightarrow> s
            | VObj v \<Rightarrow> if sock_text v \<noteq> [] then sock_text v else anyStringArg as name
            | _ \<Rightarrow> anyStringArg as name))"

definition isNumeric :: "string \<Rightarrow> bool" where
  "isNumeric s = (list_all (\<lambda>c. CHR ''0'' \<le> c \<and> c \<le> CHR ''9'') s \<and> s \<noteq> [])"

definition basename :: "string \<Rightarrow> string" where
  "basename p = rev (takeWhile (\<lambda>c. c \<noteq> CHR ''/'') (rev p))"

definition afToNum :: "string \<Rightarrow> string" where
  "afToNum af =
     (if af = ''AF_UNSPEC'' then ''0'' else if af = ''AF_UNIX'' then ''1'' else if af = ''AF_INET'' then ''2''
      else if af = ''AF_INET6'' then ''10'' else if af = ''AF_NETLINK'' then ''16'' else if af = ''AF_PACKET'' then ''17''
      else if af = ''AF_BLUETOOTH'' then ''31'' else af)"

subsection \<open>The per-syscall fields\<close>

text \<open>The state the cases of the \<^verbatim>\<open>switch\<close> assign: process, execpath, cmdline.\<close>

fun exec_path :: "TraceeArg list \<Rightarrow> string list \<Rightarrow> string \<Rightarrow> string \<times> string" where
  "exec_path args [] process = (process, [])"
| "exec_path args (name # names) process =
     (let p = anyStringArg args name in
      if p \<noteq> [] then (basename p, p) else exec_path args names process)"

fun socket_cmd :: "TraceeArg list \<Rightarrow> string \<Rightarrow> string" where
  "socket_cmd [] cmd = cmd"
| "socket_cmd (a # as) cmd =
     socket_cmd as (if ta_Name a = ''domain'' then
         (case ta_Value a of VNum v t \<Rightarrow> int_str (trunc_int v) | VStr s \<Rightarrow> afToNum s | _ \<Rightarrow> cmd)
       else cmd)"

text \<open>\<open>None\<close>: the event is dropped; a value that is not a map ends the loop.\<close>

fun connect_cmd :: "TraceeArg list \<Rightarrow> string \<Rightarrow> string option" where
  "connect_cmd [] cmd = Some cmd"
| "connect_cmd (a # as) cmd =
     (if ta_Name a \<noteq> ''addr'' then connect_cmd as cmd
      else (case ta_Value a of
              VObj addr \<Rightarrow>
                (let sa = str_or (map_of addr ''sa_family'') in
                 if sa \<noteq> ''AF_INET'' \<and> sa \<noteq> ''AF_INET6'' then None
                 else
                   let ip0 = str_or (map_of addr ''sin_addr'');
                       ip = (if ip0 = [] then str_or (map_of addr ''sin6_addr'') else ip0)
                   in connect_cmd as (if ip \<noteq> [] then ip else cmd))
            | _ \<Rightarrow> Some cmd))"

text \<open>The UTF-8 bytes of the arrow between source and target.\<close>

definition arrow :: string where
  "arrow = [CHR 0xE2, CHR 0x86, CHR 0x92]"

definition mount_text :: "string \<Rightarrow> string \<Rightarrow> string \<Rightarrow> string" where
  "mount_text src tgt fs =
     (if src \<noteq> [] \<and> fs \<noteq> [] then src @ arrow @ tgt @ '' ('' @ fs @ '')''
      else if src \<noteq> [] then src @ arrow @ tgt else tgt)"

definition fallback_parts :: "TraceeArg list \<Rightarrow> string list" where
  "fallback_parts args = filter (\<lambda>s. s \<noteq> [] \<and> \<not> isNumeric s) (str_parts (map ta_Value args))"

definition exec_names :: "string list" where
  "exec_names = [''execve'', ''execveat'', ''sched_process_exec'']"

definition event_fields :: "string \<Rightarrow> TraceeArg list \<Rightarrow> string \<Rightarrow> (string \<times> string \<times> string) option" where
  "event_fields name args processName =
     (if name \<in> set exec_names then
        (let (process, execpath) = exec_path args [''pathname'', ''cmdpath'', ''filepath''] processName;
             cmdline = (case map_of (args_map args) ''argv'' of Some (VArr argv) \<Rightarrow> join '' '' (str_parts argv) | _ \<Rightarrow> [])
         in Some (process, execpath, cmdline))
      else if name = ''openat'' \<or> name = ''open'' then
        (let p = stringArg args ''pathname'' in
         if p \<noteq> [] \<and> \<not> isNumeric p then Some (processName, p, p) else Some (processName, [], []))
      else if name = ''socket'' then Some (processName, [], socket_cmd args [])
      else if name = ''connect'' then map_option (\<lambda>cmd. (processName, [], cmd)) (connect_cmd args [])
      else if name = ''mount'' \<or> name = ''security_sb_mount'' then
        (let src = stringArg args ''source''; tgt = stringArg args ''target''; fs = stringArg args ''filesystemtype'' in
         if tgt \<noteq> [] then Some (processName, tgt, mount_text src tgt fs) else Some (processName, [], []))
      else if name = ''umount2'' then
        (let tgt = stringArg args ''target'' in
         if tgt \<noteq> [] then Some (processName, tgt, tgt) else Some (processName, [], []))
      else Some (processName, [], []))"

definition or_else :: "string \<Rightarrow> string \<Rightarrow> string" where
  "or_else a b = (if a \<noteq> [] then a else b)"

text \<open>The counters: the last identifier given out and the events dropped for their namespace.\<close>

record mapper_state =
  ms_id :: int
  ms_dropped :: nat

definition Map :: "TraceeEvent \<Rightarrow> mapper_state \<Rightarrow> UIEvent option \<times> mapper_state" where
  "Map t st =
     (let targs = (if te_Args t = [] \<and> te_Data t \<noteq> [] then te_Data t else te_Args t);
          podName = (case te_Kubernetes t of None \<Rightarrow> te_PodName t | Some k \<Rightarrow> or_else (tk_PodName k) (te_PodName t));
          podNS = (case te_Kubernetes t of None \<Rightarrow> te_PodNamespace t | Some k \<Rightarrow> or_else (tk_PodNamespace k) (te_PodNamespace t));
          podUID = (case te_Kubernetes t of None \<Rightarrow> te_PodUID t | Some k \<Rightarrow> or_else (tk_PodUID k) (te_PodUID t));
          containerName = (case te_Container t of None \<Rightarrow> te_ContainerName t | Some c \<Rightarrow> or_else (tc_Name c) (te_ContainerName t));
          containerID = (case te_Container t of None \<Rightarrow> te_ContainerID t | Some c \<Rightarrow> or_else (tc_ID c) (te_ContainerID t));
          containerImage = (case te_Container t of None \<Rightarrow> te_ContainerImage t | Some c \<Rightarrow> or_else (tc_Image c) (te_ContainerImage t))
      in
      if podNS \<noteq> [] \<and> podNS \<in> set systemNamespaces then (None, st\<lparr>ms_dropped := ms_dropped st + 1\<rparr>)
      else case event_fields (te_EventName t) targs (te_ProcessName t) of None \<Rightarrow> (None, st)
      | Some (process, execpath, cmd) \<Rightarrow>
        (let cmdline = (if cmd = [] \<and> fallback_parts targs \<noteq> [] then join '' '' (fallback_parts targs) else cmd) in
         (Some \<lparr>ui_ID = ms_id st + 1, ui_Ts = te_Timestamp t, ui_Syscall = te_EventName t,
                ui_EventKind = KindFor (te_EventName t), ui_Namespace = podNS, ui_Pod = podName, ui_PodUID = podUID,
                ui_PodIP = [], ui_Node = te_HostName t, ui_Container = containerName, ui_ContainerID = containerID,
                ui_Image = containerImage, ui_PID = te_HostProcessID t, ui_UID = te_UserID t, ui_Process = process,
                ui_Execpath = execpath, ui_Cmdline = cmdline, ui_Args = args_map targs,
                ui_Severity = [], ui_Category = []\<rparr>,
          st\<lparr>ms_id := ms_id st + 1\<rparr>)))"

subsection \<open>The event on the wire\<close>

text \<open>
  What \<^verbatim>\<open>json.Unmarshal\<close> into a map gives for the marshalled event: the fields under their JSON
  names, without the empty ones marked \<^verbatim>\<open>omitempty\<close>. \<open>ts\<close> is the RFC 3339 text of the time. The
  identifier is kept exact; no consumer reads it.
\<close>

definition omitempty :: "string \<Rightarrow> string \<Rightarrow> gomap" where
  "omitempty k v = (if v = [] then [] else [(k, VStr v)])"

definition event_map :: "string \<Rightarrow> UIEvent \<Rightarrow> gomap" where
  "event_map ts e =
     [(''id'', vint (ui_ID e)), (''ts'', VStr ts), (''syscall'', VStr (ui_Syscall e)),
      (''event_kind'', VStr (kind_text (ui_EventKind e))), (''namespace'', VStr (ui_Namespace e)),
      (''pod'', VStr (ui_Pod e))]
     @ omitempty ''podUID'' (ui_PodUID e) @ omitempty ''podIP'' (ui_PodIP e)
     @ [(''node'', VStr (ui_Node e)), (''container'', VStr (ui_Container e)),
        (''containerId'', VStr (ui_ContainerID e)), (''image'', VStr (ui_Image e)),
        (''pid'', vint (ui_PID e)), (''uid'', vint (ui_UID e)), (''process'', VStr (ui_Process e)),
        (''execpath'', VStr (ui_Execpath e)), (''cmdline'', VStr (ui_Cmdline e))]
     @ (if ui_Args e = [] then [] else [(''args'', VObj (ui_Args e))])
     @ omitempty ''severity'' (ui_Severity e) @ omitempty ''category'' (ui_Category e)"

text \<open>The event the bridge's alerter matches.\<close>

definition bridge_event :: "UIEvent \<Rightarrow> BEvent" where
  "bridge_event ev = \<lparr>be_Syscall = ui_Syscall ev, be_Category = ui_Category ev, be_Namespace = ui_Namespace ev,
     be_Pod = ui_Pod ev, be_Process = ui_Process ev, be_Execpath = ui_Execpath ev, be_Cmdline = ui_Cmdline ev,
     be_Args = ui_Args ev\<rparr>"

lemma omitempty_get [simp]:
  "map_of (omitempty k v) k' = (if k = k' \<and> v \<noteq> [] then Some (VStr v) else None)"
  by (simp add: omitempty_def)

lemma event_map_get [simp]:
  "map_of (event_map ts e) ''syscall'' = Some (VStr (ui_Syscall e))"
  "map_of (event_map ts e) ''namespace'' = Some (VStr (ui_Namespace e))"
  "map_of (event_map ts e) ''pod'' = Some (VStr (ui_Pod e))"
  "map_of (event_map ts e) ''process'' = Some (VStr (ui_Process e))"
  "map_of (event_map ts e) ''execpath'' = Some (VStr (ui_Execpath e))"
  "map_of (event_map ts e) ''cmdline'' = Some (VStr (ui_Cmdline e))"
  "map_of (event_map ts e) ''pid'' = Some (vint (ui_PID e))"
  "map_of (event_map ts e) ''category'' = (if ui_Category e = [] then None else Some (VStr (ui_Category e)))"
  "map_of (event_map ts e) ''args'' = (if ui_Args e = [] then None else Some (VObj (ui_Args e)))"
  by (simp_all add: event_map_def map_add_def)

end
