(* ===== verification/Runtime_Agreement.thy ===== *)
theory Runtime_Agreement
  imports Bridge_Mapper
begin

section \<open>The two rule matchers on the same event\<close>

text \<open>
  A tracee event reaches two matchers: the bridge's own, on the mapped event, and kvisior's, on the
  map decoded from the Kafka record. Shown: the prefilter of the kvisior rule set is complete, the
  two matchers agree on every exec event the mapper produces, and they disagree on a \<^verbatim>\<open>socket\<close>
  rule with a list of address families.
\<close>

subsection \<open>The allow set\<close>

lemma Replace_allowSet:
  "s \<in> m_allowSet (Replace rules) \<longleftrightarrow> s \<noteq> [] \<and> s \<noteq> ''*'' \<and> (\<exists>r\<in>set rules. isEnabled r \<and> r_Syscall r = s)"
proof -
  let ?f = "\<lambda>r allow. if \<not> isEnabled r then allow
      else if r_Syscall r = [] \<or> r_Syscall r = ''*'' then allow else insert (r_Syscall r) allow"
  have "s \<in> fold ?f rules A \<longleftrightarrow>
      s \<in> A \<or> (s \<noteq> [] \<and> s \<noteq> ''*'' \<and> (\<exists>r\<in>set rules. isEnabled r \<and> r_Syscall r = s))" for A
    by (induction rules arbitrary: A) auto
  then show ?thesis by (simp add: Replace_def)
qed

lemma matches_pinned:
  "matches ev r \<Longrightarrow> r_Syscall r \<noteq> [] \<Longrightarrow> r_Syscall r \<noteq> ''*'' \<Longrightarrow> strField ev [''syscall''] = r_Syscall r"
  by (auto simp: matches_def Let_def split: if_splits)

text \<open>The prefilter of the live stream is complete for rules that name a syscall: after a rule
  set is installed, an event that any enabled rule reports passes the prefilter, unless every
  reporting rule leaves the syscall open; and the prefilter lets a syscall through only if it is a
  binary exec or an enabled rule names it.\<close>

theorem live_prefilter_complete:
  assumes "v \<in> set (Rules_Match (Replace rules) ev)"
  shows "\<exists>r\<in>set rules. isEnabled r \<and> matches ev r \<and> vi_RuleID v = r_ID r
    \<and> (AllowsLiveStream (Replace rules) (strField ev [''syscall'']) \<or> r_Syscall r = [] \<or> r_Syscall r = ''*'')
    \<and> (AllowsLiveStream (Replace rules) s \<longrightarrow> IsBinaryExec s \<or> (\<exists>r'\<in>set rules. isEnabled r' \<and> r_Syscall r' = s))"
proof -
  from assms obtain r where r: "r \<in> set rules" "isEnabled r" "matches ev r" "vi_RuleID v = r_ID r"
    by (auto simp: Rules_Match_def Replace_def)
  moreover have "AllowsLiveStream (Replace rules) (strField ev [''syscall''])"
    if "r_Syscall r \<noteq> []" "r_Syscall r \<noteq> ''*''"
    using matches_pinned [OF r(3) that] that r(1,2) by (auto simp: AllowsLiveStream_def AllowsSyscall_def Replace_allowSet)
  moreover have "IsBinaryExec s \<or> (\<exists>r'\<in>set rules. isEnabled r' \<and> r_Syscall r' = s)"
    if "AllowsLiveStream (Replace rules) s"
    using that by (auto simp: AllowsLiveStream_def AllowsSyscall_def Replace_allowSet)
  ultimately show ?thesis by blast
qed

definition rule_any :: Rule where
  "rule_any = \<lparr>r_ID = ''r1'', r_Name = ''n'', r_Enabled = Some True, r_Syscall = [], r_Category = [], r_DetType = [],
     r_Namespace = [], r_PodPattern = [], r_ProcessFilter = [], r_PathFilter = [], r_Sev = ''high''\<rparr>"

lemma scope_open: "NamespaceMatches ns []" "PodMatches p []"
  by (simp_all add: NamespaceMatches_def PodMatches_def trim_space_def)

theorem live_prefilter_complete_witness:
  "let r = rule_any\<lparr>r_Syscall := ''ptrace''\<rparr>; ev = [(''syscall'', VStr ''ptrace'')] in
   AllowsLiveStream (Replace [r]) ''ptrace''"
proof -
  let ?r = "rule_any\<lparr>r_Syscall := ''ptrace''\<rparr>" and ?ev = "[(''syscall'', VStr ''ptrace'')]"
  let ?v = "\<lparr>vi_Rule = ''n'', vi_RuleID = ''r1'', vi_Sev = ''high'', vi_Event = ?ev\<rparr>"
  have "?v \<in> set (Rules_Match (Replace [?r]) ?ev)"
    by (simp add: Rules_Match_def Replace_def rule_any_def isEnabled_def matches_def scope_open)
  from live_prefilter_complete [OF this, of "[]"] show ?thesis by (simp add: rule_any_def)
qed

subsection \<open>Agreement\<close>

text \<open>The same stored rule as the bridge decodes it.\<close>

definition bridge_rule :: "bool \<Rightarrow> Rule \<Rightarrow> BRule" where
  "bridge_rule alertOnly r = \<lparr>br_ID = r_ID r, br_Name = r_Name r, br_Sev = r_Sev r,
     br_Enabled = (r_Enabled r = Some True), br_AlertOnly = alertOnly, br_DetType = r_DetType r,
     br_Syscall = r_Syscall r, br_Category = r_Category r, br_ProcessFilter = r_ProcessFilter r,
     br_PathFilter = r_PathFilter r, br_Namespace = r_Namespace r, br_PodPattern = r_PodPattern r\<rparr>"

lemma contains_empty [simp]: "contains [] p = (p = [])"
  by (simp add: contains_def)

lemma argsContain_pathname:
  assumes "map_of m ''pathname'' = Some (VStr p)" "pf \<noteq> []" "contains (to_lower p) pf"
  shows "argsContain m pf"
proof -
  from map_of_SomeD [OF assms(1)] have "(''pathname'', VStr p) \<in> set m" .
  then have "list_ex (\<lambda>kv. valueContains (snd kv) pf) m"
    using assms(3) by (auto simp: list_ex_iff intro: bexI [of _ "(''pathname'', VStr p)"])
  with assms show ?thesis by (cases m) (simp_all add: argsContain_def)
qed

lemma pathname_in_args:
  assumes "contains (to_lower (pathname_arg (Some m))) pf" "pf \<noteq> []"
  shows "argsContain m pf"
proof (cases "map_of m ''pathname''")
  case None
  with assms show ?thesis by (simp add: pathname_arg_def to_lower_def)
next
  case (Some v)
  with assms show ?thesis
    by (cases v) (auto simp: pathname_arg_def to_lower_def intro: argsContain_pathname)
qed

lemma argsMap_event_map: "argsMap (event_map ts e) = (if ui_Args e = [] then None else Some (ui_Args e))"
  by (simp add: argsMap_def)

lemma strField_event_map:
  "strField (event_map ts e) [''syscall''] = ui_Syscall e" "strField (event_map ts e) [''category''] = ui_Category e"
  "strField (event_map ts e) [''namespace''] = ui_Namespace e" "strField (event_map ts e) [''pod''] = ui_Pod e"
  "strField (event_map ts e) [''process''] = ui_Process e" "strField (event_map ts e) [''execpath''] = ui_Execpath e"
  "strField (event_map ts e) [''cmdline''] = ui_Cmdline e"
  by simp_all

lemma matches_bridge:
  assumes "ev_process (event_map ts e) = ui_Process e" "ev_execpath (event_map ts e) = ui_Execpath e"
    and "ev_cmdline (event_map ts e) = ui_Cmdline e" and "r_Enabled r = Some True"
    and "ui_Syscall e \<notin> {''dup2'', ''dup3'', ''socket'', ''mmap'', ''mprotect''}"
  shows "matches (event_map ts e) r = BMatches (bridge_event e) (bridge_rule b r)"
proof -
  let ?pf = "to_lower (replace_char (CHR ''*'') [] (r_PathFilter r))"
  have path: "path_filter (event_map ts e) (ui_Syscall e) (r_PathFilter r) \<longleftrightarrow>
      contains (to_lower (ui_Cmdline e)) ?pf \<or> contains (to_lower (ui_Execpath e)) ?pf \<or> argsContain (ui_Args e) ?pf"
    using assms(2,3,5) pathname_in_args [of "ui_Args e" ?pf]
    by (cases "?pf = []"; cases "ui_Args e = []")
      (auto simp: path_filter_def argsMap_event_map Let_def pathname_arg_def argsContain_def to_lower_def)
  show ?thesis
    unfolding matches_def BMatches_def bridge_event_def bridge_rule_def Let_def strField_event_map assms(1-4) path
    by (simp only: BRule.simps BEvent.simps simp_thms if_True if_False not_not)
qed


subsection \<open>Exec events\<close>

lemma update_new: "k \<notin> fst ` set m \<Longrightarrow> AList.update k v m = m @ [(k, v)]"
  by (induction m) auto

lemma args_map_distinct:
  assumes "distinct (map ta_Name args)"
  shows "args_map args = map (\<lambda>a. (ta_Name a, ta_Value a)) args"
proof -
  have "fold (\<lambda>a m. AList.update (ta_Name a) (ta_Value a) m) as acc = acc @ map (\<lambda>a. (ta_Name a, ta_Value a)) as"
    if "distinct (map fst acc @ map ta_Name as)" for as acc
    using that
  proof (induction as arbitrary: acc)
    case (Cons a as)
    have "AList.update (ta_Name a) (ta_Value a) acc = acc @ [(ta_Name a, ta_Value a)]"
      using Cons.prems by (intro update_new) auto
    with Cons show ?case by simp
  qed simp
  from this [of "[]" args] assms show ?thesis by (simp add: args_map_def)
qed

lemma anyStringArg_str:
  "map_of (map (\<lambda>a. (ta_Name a, ta_Value a)) args) k = Some (VStr s) \<Longrightarrow> anyStringArg args k = s"
  by (induction args) (auto split: if_splits)

lemma basename_last: "basename p = last (split_char (CHR ''/'') p)"
proof (cases "CHR ''/'' \<in> set p")
  case True
  then obtain u v where p: "p = u @ CHR ''/'' # v" "CHR ''/'' \<notin> set v" by (meson split_list_last)
  have "takeWhile (\<lambda>c. c \<noteq> CHR ''/'') (rev v @ CHR ''/'' # rev u) = rev v"
    using p(2) by (subst takeWhile_append2) auto
  then have "basename p = v" by (simp add: basename_def p(1))
  then show ?thesis using p by (simp add: split_char_append_sep split_char_no_sep)
next
  case False
  then have "takeWhile (\<lambda>c. c \<noteq> CHR ''/'') (rev p) = rev p" by (subst takeWhile_eq_all_conv) auto
  moreover have "split_char (CHR ''/'') p = [p]" using False by (rule split_char_no_sep)
  ultimately show ?thesis by (simp only: basename_def rev_rev_ident last.simps simp_thms if_True)
qed

lemma join_nonempty: "ws \<noteq> [] \<Longrightarrow> [] \<notin> set ws \<Longrightarrow> join sep ws \<noteq> []"
  by (cases ws; cases "tl ws") (auto simp: join_Cons)

lemma str_parts_mem: "VStr s \<in> set vs \<Longrightarrow> s \<in> set (str_parts vs)"
  by (induction vs rule: str_parts.induct) auto

text \<open>The three derived fields of an exec event are the ones the mapper has already filled in.\<close>

definition exec_args :: "TraceeEvent \<Rightarrow> TraceeArg list" where
  "exec_args t = (if te_Args t = [] \<and> te_Data t \<noteq> [] then te_Data t else te_Args t)"

lemma Map_exec:
  assumes "Map t st = (Some e, st')" "te_EventName t \<in> set exec_names"
  shows "ui_Syscall e = te_EventName t" "ui_Args e = args_map (exec_args t)"
    "(ui_Process e, ui_Execpath e) = exec_path (exec_args t) [''pathname'', ''cmdpath'', ''filepath''] (te_ProcessName t)"
    "ui_Cmdline e =
      (let cmd = (case map_of (args_map (exec_args t)) ''argv'' of Some (VArr vs) \<Rightarrow> join '' '' (str_parts vs) | _ \<Rightarrow> []) in
       if cmd = [] \<and> fallback_parts (exec_args t) \<noteq> [] then join '' '' (fallback_parts (exec_args t)) else cmd)"
proof -
  let ?a = "exec_args t"
  obtain p x where px: "exec_path ?a [''pathname'', ''cmdpath'', ''filepath''] (te_ProcessName t) = (p, x)" by fastforce
  let ?cmd = "case map_of (args_map ?a) ''argv'' of Some (VArr vs) \<Rightarrow> join '' '' (str_parts vs) | _ \<Rightarrow> []"
  have f: "event_fields (te_EventName t) ?a (te_ProcessName t) = Some (p, x, ?cmd)"
    using assms(2) px by (simp add: event_fields_def)
  from assms(1) have "ui_Syscall e = te_EventName t \<and> ui_Args e = args_map ?a \<and> ui_Process e = p \<and> ui_Execpath e = x
      \<and> ui_Cmdline e = (if ?cmd = [] \<and> fallback_parts ?a \<noteq> [] then join '' '' (fallback_parts ?a) else ?cmd)"
    unfolding Map_def exec_args_def [symmetric] Let_def f option.case prod.case by (auto split: if_splits)
  with px show "ui_Syscall e = te_EventName t" "ui_Args e = args_map (exec_args t)"
    "(ui_Process e, ui_Execpath e) = exec_path (exec_args t) [''pathname'', ''cmdpath'', ''filepath''] (te_ProcessName t)"
    "ui_Cmdline e =
      (let cmd = (case map_of (args_map (exec_args t)) ''argv'' of Some (VArr vs) \<Rightarrow> join '' '' (str_parts vs) | _ \<Rightarrow> []) in
       if cmd = [] \<and> fallback_parts (exec_args t) \<noteq> [] then join '' '' (fallback_parts (exec_args t)) else cmd)"
    by (simp_all only: Let_def)
qed

lemma exec_cmdline:
  assumes e: "Map t st = (Some e, st')" "te_EventName t \<in> set exec_names" and d: "distinct (map ta_Name (exec_args t))"
    and n: "\<And>s. map_of (ui_Args e) ''argv'' = Some (VStr s) \<Longrightarrow> \<not> isNumeric s"
  shows "ui_Cmdline e = [] \<Longrightarrow> ui_Args e \<noteq> [] \<Longrightarrow> argv_arg (Some (ui_Args e)) = []"
proof -
  note m = Map_exec [OF e]
  assume c: "ui_Cmdline e = []"
  have fb: "join '' '' (fallback_parts (exec_args t)) \<noteq> []" if "fallback_parts (exec_args t) \<noteq> []"
    using that by (intro join_nonempty) (auto simp: fallback_parts_def)
  show ?thesis
  proof (cases "map_of (ui_Args e) ''argv''")
    case None
    then show ?thesis by (simp add: argv_arg_def)
  next
    case (Some v)
    show ?thesis
    proof (cases v)
      case (VStr s)
      have "s = []"
      proof (rule ccontr)
        assume "s \<noteq> []"
        have "(''argv'', VStr s) \<in> set (ui_Args e)" using Some VStr by (auto dest: map_of_SomeD)
        then have "VStr s \<in> set (map ta_Value (exec_args t))" using args_map_distinct [OF d] m(2) by auto
        then have "s \<in> set (str_parts (map ta_Value (exec_args t)))"
          by (rule str_parts_mem)
        with \<open>s \<noteq> []\<close> n Some VStr have "fallback_parts (exec_args t) \<noteq> []"
          by (auto simp: fallback_parts_def filter_empty_conv)
        with fb c m(4) Some VStr m(2) show False by simp
      qed
      with Some VStr show ?thesis by (simp add: argv_arg_def)
    next
      case (VArr vs)
      with c m(2,4) Some fb show ?thesis by (auto simp: argv_arg_def Let_def split: if_splits)
    qed (use Some in \<open>simp_all add: argv_arg_def\<close>)
  qed
qed


lemma exec_derived:
  assumes e: "Map t st = (Some e, st')" "te_EventName t \<in> set exec_names" and d: "distinct (map ta_Name (exec_args t))"
    and n: "\<And>s. map_of (ui_Args e) ''argv'' = Some (VStr s) \<Longrightarrow> \<not> isNumeric s"
  shows "ev_process (event_map ts e) = ui_Process e" "ev_execpath (event_map ts e) = ui_Execpath e"
    "ev_cmdline (event_map ts e) = ui_Cmdline e"
proof -
  note m = Map_exec [OF e]
  show "ev_cmdline (event_map ts e) = ui_Cmdline e"
    using exec_cmdline [OF e d n] by (auto simp: ev_cmdline_def argsMap_event_map strField_event_map Let_def argv_arg_def)
  have path: "ui_Execpath e = p \<and> ui_Process e = last (split_char (CHR ''/'') p)"
    if p: "map_of (ui_Args e) ''pathname'' = Some (VStr p)" "p \<noteq> []" for p
  proof -
    have "anyStringArg (exec_args t) ''pathname'' = p"
      using p(1) args_map_distinct [OF d] m(2) by (intro anyStringArg_str) simp
    with m(3) p(2) show ?thesis by (simp add: basename_last)
  qed
  have no_path: "pathname_arg (argsMap (event_map ts e)) = []
      \<or> (\<exists>p. map_of (ui_Args e) ''pathname'' = Some (VStr p) \<and> p \<noteq> [] \<and> pathname_arg (argsMap (event_map ts e)) = p)"
    by (cases "map_of (ui_Args e) ''pathname''"; cases "the (map_of (ui_Args e) ''pathname'')")
      (auto simp: pathname_arg_def argsMap_event_map)
  then show "ev_process (event_map ts e) = ui_Process e"
    using path by (auto simp: ev_process_def strField_event_map Let_def)
  from no_path show "ev_execpath (event_map ts e) = ui_Execpath e"
    using path by (auto simp: ev_execpath_def strField_event_map Let_def)
qed


definition tracee0 :: TraceeEvent where
  "tracee0 = \<lparr>te_Timestamp = 5, te_HostProcessID = 7, te_UserID = 0, te_ProcessName = ''sh'', te_HostName = ''n1'',
     te_ContainerID = [], te_ContainerImage = [], te_ContainerName = [], te_Container = None, te_PodName = ''p'',
     te_PodNamespace = ''shop'', te_PodUID = [], te_Kubernetes = None, te_EventName = ''execve'',
     te_Args = [\<lparr>ta_Name = ''pathname'', ta_Type = ''string'', ta_Value = VStr ''/bin/nc''\<rparr>,
                \<lparr>ta_Name = ''argv'', ta_Type = ''[]string'', ta_Value = VArr [VStr ''nc'', VStr ''-l'']\<rparr>], te_Data = []\<rparr>"

definition ui0 :: UIEvent where
  "ui0 = \<lparr>ui_ID = 1, ui_Ts = 5, ui_Syscall = ''execve'', ui_EventKind = KSyscall, ui_Namespace = ''shop'', ui_Pod = ''p'',
     ui_PodUID = [], ui_PodIP = [], ui_Node = ''n1'', ui_Container = [], ui_ContainerID = [], ui_Image = [],
     ui_PID = 7, ui_UID = 0, ui_Process = ''nc'', ui_Execpath = ''/bin/nc'', ui_Cmdline = ''nc -l'',
     ui_Args = [(''pathname'', VStr ''/bin/nc''), (''argv'', VArr [VStr ''nc'', VStr ''-l''])],
     ui_Severity = [], ui_Category = []\<rparr>"

lemma Map_tracee0: "Map tracee0 \<lparr>ms_id = 0, ms_dropped = 0\<rparr> = (Some ui0, \<lparr>ms_id = 1, ms_dropped = 0\<rparr>)"
  by (simp add: Map_def tracee0_def ui0_def systemNamespaces_def event_fields_def exec_names_def args_map_def basename_def
    KindFor_def has_prefix_def tracepoints_def fallback_parts_def)


subsection \<open>A disagreement\<close>

text \<open>The matchers disagree on a \<^verbatim>\<open>socket\<close> rule whose filter lists address families, such as
  \<^verbatim>\<open>2,10\<close>: for an event that tracee reports with domain \<^verbatim>\<open>AF_INET\<close> kvisior records a violation and
  the bridge, which searches for the whole list as one text, sends no alert.\<close>

theorem socket_list_disagreement:
  "let t = tracee0\<lparr>te_EventName := ''socket'',
             te_Args := [\<lparr>ta_Name = ''domain'', ta_Type = ''int'', ta_Value = VStr ''AF_INET''\<rparr>]\<rparr>;
       r = rule_any\<lparr>r_Syscall := ''socket'', r_PathFilter := ''2,10''\<rparr>;
       e = the (fst (Map t st))
   in fst (Map t st) \<noteq> None \<and> matches (event_map ts e) r \<and> \<not> BMatches (bridge_event e) (bridge_rule b r)"
proof -
  let ?t = "tracee0\<lparr>te_EventName := ''socket'',
             te_Args := [\<lparr>ta_Name = ''domain'', ta_Type = ''int'', ta_Value = VStr ''AF_INET''\<rparr>]\<rparr>"
  let ?r = "rule_any\<lparr>r_Syscall := ''socket'', r_PathFilter := ''2,10''\<rparr>"
  let ?e = "ui0\<lparr>ui_ID := ms_id st + 1, ui_Syscall := ''socket'', ui_Process := ''sh'', ui_Execpath := [], ui_Cmdline := ''2'',
      ui_Args := [(''domain'', VStr ''AF_INET'')]\<rparr>"
  have m: "fst (Map ?t st) = Some ?e"
    by (simp add: Map_def tracee0_def ui0_def systemNamespaces_def event_fields_def exec_names_def args_map_def
      KindFor_def has_prefix_def tracepoints_def afToNum_def)
  have "matches (event_map ts ?e) ?r"
    by (simp add: matches_def Let_def rule_any_def ui0_def scope_open path_filter_def argsMap_event_map arg_text_def afMap_def
      splitTrim_def sliceContains_def go_simps trim_space_def is_space_def)
  moreover have "\<not> BMatches (bridge_event ?e) (bridge_rule b ?r)"
    by (simp add: BMatches_def Let_def rule_any_def bridge_rule_def bridge_event_def ui0_def scope_open argsContain_def
      replace_char_def to_lower_def lower_char_def contains_def char_of_def bit_0)
  ultimately show ?thesis by (simp add: m)
qed

end
