(* ===== verification/Dedup_Table.thy ===== *)
theory Dedup_Table
  imports Wolfee_Prelude "HOL-Library.AList"
begin

section \<open>Suppression tables\<close>

text \<open>
  The contract of the tables with which the services suppress repeats: \<open>mark now k\<close> reports
  whether \<open>k\<close> is fresh and records it, \<open>sweep now\<close> forgets old entries, and a table that grew too
  large may be emptied, which \<open>flushes\<close> counts. The client's theorem is proved once: as long as
  no flush happens, two reports of the same key are at least the time to live apart. The bridge's
  hub, the bridge's alerter and the anomaly consumer provide the operations.
\<close>

locale dedup_table =
  fixes lookup :: "'t \<Rightarrow> string \<Rightarrow> gotime option"
    and mark :: "gotime \<Rightarrow> string \<Rightarrow> 't \<Rightarrow> bool \<times> 't"
    and sweep :: "gotime \<Rightarrow> 't \<Rightarrow> 't"
    and flushes :: "'t \<Rightarrow> nat"
    and ttl :: "'t \<Rightarrow> duration"
  assumes mark_ttl: "ttl (snd (mark now k t)) = ttl t"
    and sweep_ttl: "ttl (sweep now t) = ttl t"
    and mark_flushes: "flushes t \<le> flushes (snd (mark now k t))"
    and sweep_flushes: "flushes t \<le> flushes (sweep now t)"
    and mark_fresh: "fst (mark now k t) \<longleftrightarrow> (case lookup t k of None \<Rightarrow> True | Some l \<Rightarrow> ttl t \<le> now - l)"
    and mark_sets: "fst (mark now k t) \<Longrightarrow> 0 < ttl t \<Longrightarrow> flushes (snd (mark now k t)) = flushes t
        \<Longrightarrow> lookup (snd (mark now k t)) k = Some now"
    and mark_keeps: "lookup t j = Some l \<Longrightarrow> now - l < ttl t \<Longrightarrow> flushes (snd (mark now k t)) = flushes t
        \<Longrightarrow> lookup (snd (mark now k t)) j = Some l"
    and sweep_keeps: "lookup t j = Some l \<Longrightarrow> now - l < ttl t \<Longrightarrow> flushes (sweep now t) = flushes t
        \<Longrightarrow> lookup (sweep now t) j = Some l"
begin

text \<open>A sequence of marks and sweeps, with their times; the log holds the fresh marks.\<close>

primrec run :: "(gotime \<times> string option) list \<Rightarrow> 't \<Rightarrow> 't \<times> (gotime \<times> string) list" where
  "run [] t = (t, [])"
| "run (op # ops) t =
     (case snd op of
        None \<Rightarrow> run ops (sweep (fst op) t)
      | Some k \<Rightarrow>
          (let (fresh, t') = mark (fst op) k t; (t'', log) = run ops t' in
           (t'', if fresh then (fst op, k) # log else log)))"

lemma run_mark:
  assumes "run (op # ops) t = (t', log)" "snd op = Some k"
  obtains log' where "run ops (snd (mark (fst op) k t)) = (t', log')"
    "log = (if fst (mark (fst op) k t) then (fst op, k) # log' else log')"
  using assms by (cases "run ops (snd (mark (fst op) k t))") (auto simp: case_prod_beta Let_def split: if_splits)

lemma run_append:
  "run (xs @ ys) t = (let (t1, l1) = run xs t; (t2, l2) = run ys t1 in (t2, l1 @ l2))"
  by (induction xs arbitrary: t) (auto simp: Let_def case_prod_beta split: option.splits)

lemma run_mono: "run ops t = (t', log) \<Longrightarrow> flushes t \<le> flushes t' \<and> ttl t' = ttl t"
proof (induction ops arbitrary: t log)
  case (Cons op ops)
  show ?case
  proof (cases "snd op")
    case None
    with Cons.prems have "run ops (sweep (fst op) t) = (t', log)" by simp
    from Cons.IH [OF this] sweep_flushes [of t "fst op"] sweep_ttl [of "fst op" t] show ?thesis by simp
  next
    case (Some k)
    obtain log' where "run ops (snd (mark (fst op) k t)) = (t', log')"
      using run_mark [OF Cons.prems Some] by blast
    from Cons.IH [OF this] mark_flushes [of t "fst op" k] mark_ttl [of "fst op" k t] show ?thesis by simp
  qed
qed simp

lemma run_times: "run ops t = (t', log) \<Longrightarrow> set (map fst log) \<subseteq> set (map fst ops)"
proof (induction ops arbitrary: t log)
  case (Cons op ops)
  show ?case
  proof (cases "snd op")
    case None
    with Cons show ?thesis by fastforce
  next
    case (Some k)
    obtain log' where r: "run ops (snd (mark (fst op) k t)) = (t', log')"
      and l: "log = (if fst (mark (fst op) k t) then (fst op, k) # log' else log')"
      using run_mark [OF Cons.prems Some] by blast
    from Cons.IH [OF r] l show ?thesis by auto
  qed
qed simp

text \<open>A key in the table is reported again only after its time to live.\<close>

lemma run_later:
  assumes "run ops t = (t', log)" "flushes t' = flushes t" "0 < ttl t" "sorted (map fst ops)"
    and "lookup t k = Some l" "(a, k) \<in> set log"
  shows "ttl t \<le> a - l"
  using assms
proof (induction ops arbitrary: t l log)
  case (Cons op ops)
  let ?now = "fst op"
  have times: "a \<in> set (map fst (op # ops))" using run_times [OF Cons.prems(1)] Cons.prems(6) by force
  then have "?now \<le> a" using Cons.prems(4) by auto
  show ?case
  proof (cases "ttl t \<le> ?now - l")
    case True
    with \<open>?now \<le> a\<close> show ?thesis by linarith
  next
    case young: False
    show ?thesis
    proof (cases "snd op")
      case None
      with Cons.prems have r: "run ops (sweep ?now t) = (t', log)" by simp
      have "flushes (sweep ?now t) = flushes t" "flushes t' = flushes (sweep ?now t)"
        using run_mono [OF r] sweep_flushes [of t ?now] Cons.prems(2) by auto
      moreover from this(1) young have "lookup (sweep ?now t) k = Some l" by (intro sweep_keeps Cons.prems) auto
      ultimately show ?thesis using Cons.IH [OF r] Cons.prems by (simp add: sweep_ttl)
    next
      case (Some j)
      obtain log' where r: "run ops (snd (mark ?now j t)) = (t', log')"
        and l: "log = (if fst (mark ?now j t) then (?now, j) # log' else log')"
        using run_mark [OF Cons.prems(1) Some] by blast
      have fl: "flushes (snd (mark ?now j t)) = flushes t" "flushes t' = flushes (snd (mark ?now j t))"
        using run_mono [OF r] mark_flushes [of t ?now j] Cons.prems(2) by auto
      have "\<not> (fst (mark ?now j t) \<and> j = k)" using young Cons.prems(5) by (auto simp: mark_fresh)
      with l Cons.prems(6) have "(a, k) \<in> set log'" by (auto split: if_splits)
      moreover have "lookup (snd (mark ?now j t)) k = Some l"
        using young fl(1) by (intro mark_keeps Cons.prems) auto
      ultimately show ?thesis using Cons.IH [OF r] fl Cons.prems by (simp add: mark_ttl)
    qed
  qed
qed simp

theorem fresh_marks_spaced:
  assumes "run ops t = (t', log)" "flushes t' = flushes t" "0 < ttl t" "sorted (map fst ops)"
  shows "sorted_wrt (\<lambda>x y. snd x = snd y \<longrightarrow> ttl t \<le> fst y - fst x) log"
  using assms
proof (induction ops arbitrary: t log)
  case (Cons op ops)
  let ?now = "fst op"
  show ?case
  proof (cases "snd op")
    case None
    with Cons.prems have r: "run ops (sweep ?now t) = (t', log)" by simp
    have "flushes t' = flushes (sweep ?now t)"
      using run_mono [OF r] sweep_flushes [of t ?now] Cons.prems(2) by auto
    with Cons.IH [OF r] Cons.prems show ?thesis by (simp add: sweep_ttl)
  next
    case (Some k)
    obtain log' where r: "run ops (snd (mark ?now k t)) = (t', log')"
      and l: "log = (if fst (mark ?now k t) then (?now, k) # log' else log')"
      using run_mark [OF Cons.prems(1) Some] by blast
    have fl: "flushes (snd (mark ?now k t)) = flushes t" "flushes t' = flushes (snd (mark ?now k t))"
      using run_mono [OF r] mark_flushes [of t ?now k] Cons.prems(2) by auto
    have IH: "sorted_wrt (\<lambda>x y. snd x = snd y \<longrightarrow> ttl t \<le> fst y - fst x) log'"
      using Cons.IH [OF r] fl Cons.prems by (simp add: mark_ttl)
    show ?thesis
    proof (cases "fst (mark ?now k t)")
      case True
      have "lookup (snd (mark ?now k t)) k = Some ?now" using True fl(1) Cons.prems(3) by (intro mark_sets)
      then have "ttl t \<le> a - ?now" if "(a, k) \<in> set log'" for a
        using run_later [OF r fl(2) _ _ _ that] Cons.prems(3,4) by (simp add: mark_ttl)
      with IH l True show ?thesis by auto
    qed (use IH l in simp)
  qed
qed simp

end

text \<open>The table operations of one step happen at the time of the step.\<close>

lemma timed_ops_sorted:
  assumes "sorted (map fst ((now, op) # steps))" "set (map fst ops) \<subseteq> set (map fst steps)"
    and "sorted (map fst steps) \<longrightarrow> sorted (map fst ops)"
  shows "sorted (map fst (map (\<lambda>k. (now, k)) ks @ ops))"
proof -
  have "now \<le> x" if "x \<in> set (map fst ops)" for x
  proof -
    from that assms(2) have "x \<in> set (map fst steps)" by blast
    with assms(1) show ?thesis by auto
  qed
  with assms(1,3) show ?thesis by (auto simp: sorted_append comp_def map_replicate_const)
qed

text \<open>Filtering an association list, as the sweeps do.\<close>

definition forget_where :: "(gotime \<Rightarrow> bool) \<Rightarrow> (string \<times> gotime) list \<Rightarrow> (string \<times> gotime) list" where
  "forget_where old m = filter (\<lambda>kv. \<not> old (snd kv)) m"

lemma forget_keeps: "map_of m k = Some l \<Longrightarrow> \<not> old l \<Longrightarrow> map_of (forget_where old m) k = Some l"
  by (induction m) (auto simp: forget_where_def split: if_splits)

lemma length_forget: "length (forget_where old m) \<le> length m"
  by (simp add: forget_where_def)

lemma distinct_forget [simp]: "distinct (map fst m) \<Longrightarrow> distinct (map fst (forget_where old m))"
  by (simp add: forget_where_def distinct_map_filter)

end
