(* ===== verification/Bridge_Alerter.thy ===== *)
theory Bridge_Alerter
  imports Bridge_Mapper Dedup_Table
begin

section \<open>The bridge's alerter (tracee-bridge/internal/alerter/alerter.go)\<close>

text \<open>
  The alerter holds the alert-only rules and the syscalls any enabled policy names, both replaced
  by a refresh from the database, and a table that suppresses repeated alerts for ten minutes.
  \<open>Evaluate\<close> sends one alert per matching rule whose fingerprint is fresh; the alerts handed to
  the forwarder are kept with their time. The database rows are arguments of \<open>refresh\<close>.
\<close>

text \<open>The alert record that the services send (\<^verbatim>\<open>pkg/alerts\<close>); its data is the event it reports.\<close>

record 'd AlertLog =
  al_ID :: int
  al_ClusterID :: string
  al_ClusterName :: string
  al_Timestamp :: gotime
  al_DetType :: string
  al_Source :: string
  al_RuleID :: string
  al_RuleName :: string
  al_Severity :: string
  al_Namespace :: string
  al_Target :: string
  al_Syscall :: string
  al_Detail :: string
  al_Persist :: bool
  al_Fingerprint :: string
  al_Data :: 'd

definition alerterDedupTTL :: duration where "alerterDedupTTL = 10 * minute"
definition alerterDedupMaxEntries :: nat where "alerterDedupMaxEntries = 20000"

record alert_table =
  at_dedup :: "(string \<times> gotime) list"
  at_flushes :: nat

definition markFresh :: "gotime \<Rightarrow> string \<Rightarrow> alert_table \<Rightarrow> bool \<times> alert_table" where
  "markFresh now fp t =
     (case map_of (at_dedup t) fp of
        Some prev \<Rightarrow> if now - prev < alerterDedupTTL then (False, t)
                     else (True, t\<lparr>at_dedup := AList.update fp now (at_dedup t)\<rparr>)
      | None \<Rightarrow> (True, t\<lparr>at_dedup := AList.update fp now (at_dedup t)\<rparr>))"

definition alerter_sweep :: "gotime \<Rightarrow> alert_table \<Rightarrow> alert_table" where
  "alerter_sweep now t =
     (let kept = forget_where (\<lambda>ts. ts < now - alerterDedupTTL) (at_dedup t) in
      if alerterDedupMaxEntries < length kept then t\<lparr>at_dedup := [], at_flushes := at_flushes t + 1\<rparr>
      else t\<lparr>at_dedup := kept\<rparr>)"

record Alerter =
  ar_rules :: "BRule list"
  ar_policySyscalls :: "string list"
  ar_policyPassAll :: bool
  ar_lastRefreshOK :: gotime
  ar_table :: alert_table
  ar_sent :: "(gotime \<times> UIEvent AlertLog) list"

definition alertName :: "BRule \<Rightarrow> string" where
  "alertName r =
     (if trim_space (br_Name r) \<noteq> [] then trim_space (br_Name r)
      else if br_DetType r = ''Binary'' \<and> br_ProcessFilter r \<noteq> [] then ''Binary: '' @ br_ProcessFilter r
      else if br_Syscall r \<noteq> [] \<and> br_Syscall r \<noteq> ''*'' then
        (if br_DetType r = ''LSM'' \<or> br_DetType r = ''Tracepoint'' then br_DetType r else ''Syscall'')
        @ '': '' @ br_Syscall r
      else br_ID r)"

definition alertSeverity :: "BRule \<Rightarrow> UIEvent \<Rightarrow> string" where
  "alertSeverity r ev =
     (if trim_space (br_Sev r) \<noteq> [] then to_upper (trim_space (br_Sev r))
      else to_upper (trim_space (ui_Severity ev)))"

definition alert_fp :: "BRule \<Rightarrow> UIEvent \<Rightarrow> string" where
  "alert_fp r ev = join ''|'' [''rt'', br_ID r, ui_Namespace ev, ui_Pod ev, ui_Syscall ev]"

definition rule_alert :: "BRule \<Rightarrow> UIEvent \<Rightarrow> UIEvent AlertLog" where
  "rule_alert r ev = \<lparr>al_ID = 0, al_ClusterID = [], al_ClusterName = [], al_Timestamp = ui_Ts ev,
     al_DetType = (if br_DetType r = [] then ''Syscall'' else br_DetType r), al_Source = ''tracee-bridge'',
     al_RuleID = br_ID r, al_RuleName = alertName r, al_Severity = alertSeverity r ev,
     al_Namespace = (if ui_Namespace ev = [] then em_dash else ui_Namespace ev),
     al_Target = (if ui_Pod ev = [] then em_dash else ui_Pod ev), al_Syscall = ui_Syscall ev,
     al_Detail = ui_Cmdline ev, al_Persist = True, al_Fingerprint = alert_fp r ev, al_Data = ev\<rparr>"

fun evaluate_rules :: "gotime \<Rightarrow> UIEvent \<Rightarrow> BRule list \<Rightarrow> Alerter \<Rightarrow> Alerter" where
  "evaluate_rules now ev [] a = a"
| "evaluate_rules now ev (r # rs) a =
     (if \<not> BMatches (bridge_event ev) r then evaluate_rules now ev rs a
      else case markFresh now (alert_fp r ev) (ar_table a) of
        (False, t) \<Rightarrow> evaluate_rules now ev rs (a\<lparr>ar_table := t\<rparr>)
      | (True, t) \<Rightarrow> evaluate_rules now ev rs (a\<lparr>ar_table := t, ar_sent := ar_sent a @ [(now, rule_alert r ev)]\<rparr>))"

definition Evaluate :: "gotime \<Rightarrow> UIEvent \<Rightarrow> Alerter \<Rightarrow> Alerter" where
  "Evaluate now ev a = evaluate_rules now ev (ar_rules a) a"

text \<open>The rows of the second query: the syscall of each enabled policy.\<close>

fun policy_syscalls :: "string list \<Rightarrow> string list \<Rightarrow> bool \<Rightarrow> string list \<times> bool" where
  "policy_syscalls [] acc all = (acc, all)"
| "policy_syscalls (row # rows) acc all =
     (let sc = trim_space row in
      if sc = [] then policy_syscalls rows acc all
      else if sc = ''*'' then policy_syscalls rows acc True
      else policy_syscalls rows (List.insert sc acc) all)"

text \<open>
  \<^verbatim>\<open>refresh\<close>: \<open>rows\<close> are the decoded rules of the first query, with \<open>None\<close> for a row that does
  not decode, \<open>names\<close> the rows of the second; \<open>Inl\<close> is a failed query, which changes nothing.
\<close>

definition refresh :: "gotime \<Rightarrow> string + BRule option list \<Rightarrow> string + string list \<Rightarrow> Alerter \<Rightarrow> string option \<times> Alerter" where
  "refresh now rows names a =
     (case rows of Inl e \<Rightarrow> (Some e, a)
      | Inr rs \<Rightarrow>
        (case names of Inl e \<Rightarrow> (Some e, a)
         | Inr ns \<Rightarrow>
           (let (syscalls, passAll) = policy_syscalls ns [] False in
            (None, a\<lparr>ar_rules := List.map_filter id rs, ar_policySyscalls := syscalls, ar_policyPassAll := passAll,
                     ar_lastRefreshOK := now\<rparr>))))"

definition WantsSyscall :: "Alerter \<Rightarrow> string \<Rightarrow> bool" where
  "WantsSyscall a syscall = (ar_policyPassAll a \<or> syscall \<in> set (ar_policySyscalls a))"

definition StaleFor :: "gotime \<Rightarrow> Alerter \<Rightarrow> duration" where
  "StaleFor now a = (if ar_lastRefreshOK a = 0 then 0 else now - ar_lastRefreshOK a)"

subsection \<open>Suppression\<close>

interpretation alerter_dedup: dedup_table "\<lambda>t. map_of (at_dedup t)" markFresh alerter_sweep at_flushes "\<lambda>_. alerterDedupTTL"
proof unfold_locales
  show "at_flushes t \<le> at_flushes (snd (markFresh now k t))" for t now k
    by (simp add: markFresh_def split: option.splits)
  show "at_flushes t \<le> at_flushes (alerter_sweep now t)" for t now by (simp add: alerter_sweep_def Let_def)
  show "fst (markFresh now k t) = (case map_of (at_dedup t) k of None \<Rightarrow> True | Some l \<Rightarrow> alerterDedupTTL \<le> now - l)" for now k t
    by (auto simp: markFresh_def split: option.splits)
  show "map_of (at_dedup (snd (markFresh now k t))) k = Some now" if "fst (markFresh now k t)" for now k t
    using that by (auto simp: markFresh_def update_conv' split: option.splits if_splits)
  show "map_of (at_dedup (snd (markFresh now k t))) j = Some l"
    if "map_of (at_dedup t) j = Some l" "now - l < alerterDedupTTL" for now k t j l
    using that by (auto simp: markFresh_def update_conv' split: option.splits if_splits)
  show "map_of (at_dedup (alerter_sweep now t)) j = Some l"
    if "map_of (at_dedup t) j = Some l" "now - l < alerterDedupTTL" "at_flushes (alerter_sweep now t) = at_flushes t" for now t j l
    using that by (auto simp: alerter_sweep_def Let_def split: if_splits intro: forget_keeps)
qed simp_all


text \<open>The fresh marks of one evaluation are the alerts it sends.\<close>

definition sent_log :: "(gotime \<times> UIEvent AlertLog) list \<Rightarrow> (gotime \<times> string) list" where
  "sent_log xs = map (\<lambda>(t, al). (t, al_Fingerprint al)) xs"

lemma rule_alert_fp: "al_Fingerprint (rule_alert r ev) = alert_fp r ev"
  by (simp add: rule_alert_def)

lemma evaluate_rules_run:
  "\<exists>ks new. alerter_dedup.run (map (\<lambda>k. (now, Some k)) ks) (ar_table a) = (ar_table (evaluate_rules now ev rs a), sent_log new)
     \<and> ar_sent (evaluate_rules now ev rs a) = ar_sent a @ new"
proof (induction now ev rs a rule: evaluate_rules.induct)
  case (1 now ev a)
  show ?case by (rule exI [of _ "[]"], rule exI [of _ "[]"]) (simp add: sent_log_def)
next
  case (2 now ev r rs a)
  show ?case
  proof (cases "BMatches (bridge_event ev) r")
    case False
    with "2.IH"(1) show ?thesis by simp
  next
    case True
    obtain b t where m: "markFresh now (alert_fp r ev) (ar_table a) = (b, t)" by fastforce
    show ?thesis
    proof (cases b)
      case fresh: True
      let ?a = "a\<lparr>ar_table := t, ar_sent := ar_sent a @ [(now, rule_alert r ev)]\<rparr>"
      have "evaluate_rules now ev (r # rs) a = evaluate_rules now ev rs ?a" using m True fresh by simp
      moreover obtain ks new where
        "alerter_dedup.run (map (\<lambda>k. (now, Some k)) ks) (ar_table ?a) = (ar_table (evaluate_rules now ev rs ?a), sent_log new)"
        "ar_sent (evaluate_rules now ev rs ?a) = ar_sent ?a @ new"
        using "2.IH"(2) [OF _ m [symmetric]] True fresh by blast
      ultimately have "alerter_dedup.run (map (\<lambda>k. (now, Some k)) ks) t
          = (ar_table (evaluate_rules now ev (r # rs) a), sent_log new)"
        "ar_sent (evaluate_rules now ev (r # rs) a) = ar_sent a @ (now, rule_alert r ev) # new"
        by simp_all
      then show ?thesis
        using m True fresh by (intro exI [of _ "alert_fp r ev # ks"] exI [of _ "(now, rule_alert r ev) # new"])
          (simp add: sent_log_def rule_alert_fp)
    next
      case stale: False
      from "2.IH"(3) [OF _ m [symmetric]] True obtain ks new where
        "alerter_dedup.run (map (\<lambda>k. (now, Some k)) ks) t
          = (ar_table (evaluate_rules now ev (r # rs) a), sent_log new)"
        "ar_sent (evaluate_rules now ev (r # rs) a) = ar_sent a @ new"
        using m True stale by auto
      then show ?thesis
        using m True stale by (intro exI [of _ "alert_fp r ev # ks"] exI [of _ new]) simp
    qed
  qed
qed

text \<open>A run of the alerter: evaluations, sweeps and refreshes at given times.\<close>

datatype alerter_op = OEvaluate UIEvent | OSweep | ORefresh "string + BRule option list" "string + string list"

fun alerter_step :: "gotime \<Rightarrow> alerter_op \<Rightarrow> Alerter \<Rightarrow> Alerter" where
  "alerter_step now (OEvaluate ev) a = Evaluate now ev a"
| "alerter_step now OSweep a = a\<lparr>ar_table := alerter_sweep now (ar_table a)\<rparr>"
| "alerter_step now (ORefresh rows names) a = snd (refresh now rows names a)"

fun alerter_run :: "(gotime \<times> alerter_op) list \<Rightarrow> Alerter \<Rightarrow> Alerter" where
  "alerter_run [] a = a"
| "alerter_run ((now, op) # ops) a = alerter_run ops (alerter_step now op a)"

lemma alerter_step_run:
  "\<exists>ks new. alerter_dedup.run (map (\<lambda>k. (now, k)) ks) (ar_table a) = (ar_table (alerter_step now op a), sent_log new)
     \<and> ar_sent (alerter_step now op a) = ar_sent a @ new"
proof (cases op)
  case (OEvaluate ev)
  from evaluate_rules_run [of now a ev "ar_rules a"] obtain ks new where
    "alerter_dedup.run (map (\<lambda>k. (now, k)) (map Some ks)) (ar_table a) = (ar_table (Evaluate now ev a), sent_log new)"
    "ar_sent (Evaluate now ev a) = ar_sent a @ new"
    by (auto simp: Evaluate_def comp_def)
  with OEvaluate show ?thesis by (intro exI [of _ "map Some ks"] exI [of _ new]) simp
next
  case OSweep
  then show ?thesis by (intro exI [of _ "[None]"] exI [of _ "[]"]) (simp add: sent_log_def)
next
  case (ORefresh rows names)
  then have "ar_table (alerter_step now op a) = ar_table a" "ar_sent (alerter_step now op a) = ar_sent a"
    by (auto simp: refresh_def case_prod_beta split: sum.splits)
  then show ?thesis by (intro exI [of _ "[]"] exI [of _ "[]"]) (simp add: sent_log_def)
qed

lemma alerter_run_table:
  "\<exists>ops new. alerter_dedup.run ops (ar_table a) = (ar_table (alerter_run steps a), sent_log new)
     \<and> ar_sent (alerter_run steps a) = ar_sent a @ new \<and> set (map fst ops) \<subseteq> set (map fst steps)
     \<and> (sorted (map fst steps) \<longrightarrow> sorted (map fst ops))"
proof (induction steps a rule: alerter_run.induct)
  case (1 a)
  show ?case by (intro exI [of _ "[]"] exI [of _ "[]"]) (simp add: sent_log_def)
next
  case (2 now op steps a)
  let ?a = "alerter_step now op a"
  obtain ks new where k: "alerter_dedup.run (map (\<lambda>k. (now, k)) ks) (ar_table a) = (ar_table ?a, sent_log new)"
    "ar_sent ?a = ar_sent a @ new" using alerter_step_run by blast
  obtain ops new' where o: "alerter_dedup.run ops (ar_table ?a) = (ar_table (alerter_run steps ?a), sent_log new')"
    "ar_sent (alerter_run steps ?a) = ar_sent ?a @ new'" "set (map fst ops) \<subseteq> set (map fst steps)"
    "sorted (map fst steps) \<longrightarrow> sorted (map fst ops)" using "2.IH" by blast
  let ?ops = "map (\<lambda>k. (now, k)) ks @ ops"
  have "sorted (map fst ?ops)" if "sorted (map fst ((now, op) # steps))"
    using that o(3,4) by (rule timed_ops_sorted)
  with k o show ?case
    by (intro exI [of _ ?ops] exI [of _ "new @ new'"]) (auto simp: alerter_dedup.run_append sent_log_def comp_def)
qed



definition brule0 :: BRule where
  "brule0 = \<lparr>br_ID = ''r'', br_Name = [], br_Sev = ''high'', br_Enabled = True, br_AlertOnly = True, br_DetType = [],
     br_Syscall = ''ptrace'', br_Category = [], br_ProcessFilter = [], br_PathFilter = [], br_Namespace = [], br_PodPattern = []\<rparr>"

definition ptrace_event :: UIEvent where
  "ptrace_event = \<lparr>ui_ID = 1, ui_Ts = 5, ui_Syscall = ''ptrace'', ui_EventKind = KSyscall, ui_Namespace = ''shop'',
     ui_Pod = ''p'', ui_PodUID = [], ui_PodIP = [], ui_Node = ''n1'', ui_Container = [], ui_ContainerID = [], ui_Image = [],
     ui_PID = 7, ui_UID = 0, ui_Process = ''sh'', ui_Execpath = [], ui_Cmdline = [], ui_Args = [],
     ui_Severity = [], ui_Category = []\<rparr>"

definition alerter0 :: Alerter where
  "alerter0 = \<lparr>ar_rules = [brule0], ar_policySyscalls = [], ar_policyPassAll = False, ar_lastRefreshOK = 0,
     ar_table = \<lparr>at_dedup = [], at_flushes = 0\<rparr>, ar_sent = []\<rparr>"

lemma brule0_matches: "BMatches (bridge_event ptrace_event) brule0"
  by (simp add: BMatches_def brule0_def bridge_event_def ptrace_event_def NamespaceMatches_def PodMatches_def trim_space_def)


end
