(* ===== verification/Bridge_Hub.thy ===== *)
theory Bridge_Hub
  imports Bridge_Alerter "HOL-Library.Word"
begin

unbundle bit_operations_syntax

section \<open>The bridge's hub (tracee-bridge/internal/hub)\<close>

text \<open>
  The hub decides which mapped events reach Kafka: syscalls of interest and LSM hooks always, any
  event with a path or command line, and whatever a policy names; repeats of the same event are
  suppressed for a while, except for the syscalls that must never be. It also keeps the recent
  history and relays it to SSE clients that are dropped when they fall behind. Kafka's answer to a
  record is an argument.
\<close>

definition streamMaxMem :: nat where "streamMaxMem = 50000"
definition chanBuf :: nat where "chanBuf = 64"

definition alwaysPass :: "string list" where
  "alwaysPass = [''connect'', ''bind'', ''accept'', ''accept4'', ''sendto'', ''dup2'', ''dup3'',
     ''execve'', ''execveat'', ''sched_process_exec'', ''ptrace'', ''process_vm_writev'',
     ''memfd_create'', ''bpf'', ''socket'', ''mmap'', ''mprotect'',
     ''init_module'', ''finit_module'', ''module_load'', ''pivot_root'', ''unshare'', ''setns'',
     ''chroot'', ''mount'', ''umount2'', ''security_sb_mount'', ''setuid'', ''setgid'',
     ''setreuid'', ''setresuid'', ''setresgid'', ''capset'', ''open'', ''openat'',
     ''io_uring_setup'', ''io_uring_enter'', ''io_uring_register'',
     ''sched_process_fork'', ''sched_process_exit'', ''task_rename'', ''sched_switch'', ''module_free'',
     ''cgroup_mkdir'', ''cgroup_rmdir'', ''cgroup_attach_task'',
     ''clone'', ''kill'', ''chdir'', ''openat2'',
     ''security_file_open'', ''security_inode_unlink'', ''security_inode_rename'', ''security_inode_symlink'',
     ''security_inode_mknod'', ''security_bprm_check'', ''security_mmap_file'', ''security_file_mprotect'',
     ''security_socket_create'', ''security_socket_connect'', ''security_socket_bind'', ''security_socket_accept'',
     ''security_socket_listen'', ''security_socket_setsockopt'', ''security_bpf'', ''security_bpf_map'',
     ''security_kernel_read_file'']"

definition neverDedup :: "string list" where
  "neverDedup = [''ptrace'', ''process_vm_writev'', ''init_module'', ''finit_module'', ''module_load'',
     ''bpf'', ''security_bpf'', ''security_bpf_map'', ''memfd_create'',
     ''pivot_root'', ''unshare'', ''setns'', ''chroot'', ''mount'', ''umount2'', ''security_sb_mount'',
     ''setuid'', ''setgid'', ''setreuid'', ''setresuid'', ''setresgid'', ''capset'',
     ''io_uring_setup'', ''io_uring_register'',
     ''security_inode_rename'', ''security_inode_unlink'', ''security_inode_mknod'', ''security_inode_symlink'',
     ''security_kernel_read_file'']"

definition isLSMHook :: "string \<Rightarrow> bool" where
  "isLSMHook sc = has_prefix sc ''security_''"

subsection \<open>The suppression key\<close>

text \<open>64-bit FNV-1a, as \<^verbatim>\<open>hash/fnv\<close> computes it.\<close>

definition fnv64a :: "string \<Rightarrow> 64 word" where
  "fnv64a s = fold (\<lambda>c h. (h XOR of_nat (of_char c)) * 1099511628211) s 14695981039346656037"

fun hex_str :: "nat \<Rightarrow> string" where
  "hex_str n = (let d = [(''0123456789abcdef'') ! (n mod 16)] in if n < 16 then d else hex_str (n div 16) @ d)"

declare hex_str.simps [simp del]

definition argsFingerprint :: "gomap \<Rightarrow> 64 word" where
  "argsFingerprint args = (if args = [] then 0 else fnv64a (fmt_v (VObj args)))"

definition hub_dedupKey :: "UIEvent \<Rightarrow> string" where
  "hub_dedupKey ev =
     ui_Pod ev @ ''|'' @ ui_Container ev @ ''|'' @ ui_Syscall ev @ ''|'' @ ui_Process ev @ ''|''
     @ (if ui_Cmdline ev \<noteq> [] then ui_Cmdline ev else ui_Execpath ev)
     @ (let fp = argsFingerprint (ui_Args ev) in if fp \<noteq> 0 then ''|'' @ hex_str (unat fp) else [])"

subsection \<open>The suppression table\<close>

record hub_table =
  ht_dedup :: "(string \<times> gotime) list"
  ht_ttl :: duration
  ht_max :: nat
  ht_flushes :: nat

definition expire :: "gotime \<Rightarrow> hub_table \<Rightarrow> hub_table" where
  "expire now t = t\<lparr>ht_dedup := forget_where (\<lambda>ts. ht_ttl t \<le> now - ts) (ht_dedup t)\<rparr>"

definition sweepDedupLocked :: "gotime \<Rightarrow> hub_table \<Rightarrow> hub_table" where
  "sweepDedupLocked now t =
     (let t1 = expire now t in
      if ht_max t < length (ht_dedup t1) then t1\<lparr>ht_dedup := [], ht_flushes := ht_flushes t + 1\<rparr> else t1)"

text \<open>\<^verbatim>\<open>markSeen\<close> returns whether the key was seen.\<close>

definition markSeen :: "gotime \<Rightarrow> string \<Rightarrow> hub_table \<Rightarrow> bool \<times> hub_table" where
  "markSeen now key t =
     (let seen = (case map_of (ht_dedup t) key of Some prev \<Rightarrow> now - prev < ht_ttl t | None \<Rightarrow> False) in
      if seen then (True, t)
      else
        let t1 = t\<lparr>ht_dedup := AList.update key now (ht_dedup t)\<rparr> in
        (False, if ht_max t < length (ht_dedup t1) then sweepDedupLocked now t1 else t1))"

subsection \<open>Broadcast\<close>

record BHub =
  bh_table :: hub_table
  bh_received :: nat
  bh_passed :: nat
  bh_dropped :: nat
  bh_filtered :: nat
  bh_deduped :: nat
  bh_records :: "(gotime \<times> UIEvent) list"

definition wanted :: "Alerter \<Rightarrow> UIEvent \<Rightarrow> bool" where
  "wanted a ev =
     (if ui_Syscall ev \<in> set alwaysPass \<or> isLSMHook (ui_Syscall ev) then True
      else if ui_Execpath ev \<noteq> [] \<or> ui_Cmdline ev \<noteq> [] then True
      else WantsSyscall a (ui_Syscall ev))"

definition shouldDedup :: "BHub \<Rightarrow> UIEvent \<Rightarrow> bool" where
  "shouldDedup h ev = (0 < ht_ttl (bh_table h) \<and> ui_Pod ev \<noteq> [] \<and> ui_Syscall ev \<notin> set neverDedup)"

text \<open>\<open>kafka_ok\<close> is what the producer's callback reports for the record.\<close>

definition pass :: "gotime \<Rightarrow> bool \<Rightarrow> UIEvent \<Rightarrow> BHub \<Rightarrow> BHub" where
  "pass now kafka_ok ev h = h\<lparr>bh_passed := bh_passed h + 1, bh_records := bh_records h @ [(now, ev)],
     bh_dropped := bh_dropped h + (if kafka_ok then 0 else 1)\<rparr>"

definition Broadcast :: "Alerter \<Rightarrow> gotime \<Rightarrow> bool \<Rightarrow> UIEvent \<Rightarrow> BHub \<Rightarrow> BHub" where
  "Broadcast a now kafka_ok ev h =
     (let h1 = h\<lparr>bh_received := bh_received h + 1\<rparr> in
      if \<not> wanted a ev then h1\<lparr>bh_dropped := bh_dropped h + 1, bh_filtered := bh_filtered h + 1\<rparr>
      else if shouldDedup h ev then
        (case markSeen now (hub_dedupKey ev) (bh_table h) of
           (True, t) \<Rightarrow> h1\<lparr>bh_table := t, bh_deduped := bh_deduped h + 1\<rparr>
         | (False, t) \<Rightarrow> pass now kafka_ok ev (h1\<lparr>bh_table := t\<rparr>))
      else pass now kafka_ok ev h1)"

subsection \<open>History and clients\<close>

record client =
  cl_id :: nat
  cl_ch :: "string list"
  cl_drops :: nat
  cl_closed :: bool

record fanout =
  fo_history :: "string list"
  fo_clients :: "client list"
  fo_sseDrops :: nat
  fo_evicted :: nat
  fo_backfilled :: nat
  fo_maxDrops :: nat

text \<open>One client of \<^verbatim>\<open>sendToClient\<close>: the client that stays, if any, and whether it lost the message.\<close>

definition sendToClient :: "nat \<Rightarrow> string \<Rightarrow> client \<Rightarrow> client option \<times> bool" where
  "sendToClient maxDrops data c =
     (if cl_closed c then (Some c, False)
      else if length (cl_ch c) < chanBuf then (Some (c\<lparr>cl_ch := cl_ch c @ [data], cl_drops := 0\<rparr>), False)
      else if maxDrops \<le> cl_drops c + 1 then (None, True)
      else (Some (c\<lparr>cl_drops := cl_drops c + 1\<rparr>), True))"

fun send_all :: "nat \<Rightarrow> string \<Rightarrow> client list \<Rightarrow> client list \<times> nat \<times> nat" where
  "send_all maxDrops data [] = ([], 0, 0)"
| "send_all maxDrops data (c # cs) =
     (let (r, lost) = sendToClient maxDrops data c; (rest, drops, evicted) = send_all maxDrops data cs in
      (case r of None \<Rightarrow> rest | Some c' \<Rightarrow> c' # rest,
       drops + (if lost then 1 else 0), evicted + (case r of None \<Rightarrow> 1 | Some _ \<Rightarrow> 0)))"

text \<open>
  One record of \<^verbatim>\<open>sseFanOutLoop\<close>. \<open>decoded\<close> is the event the record holds, if it decodes; a record
  older than the start of the hub is history only.
\<close>

definition fan_out :: "gotime \<Rightarrow> gotime \<Rightarrow> gotime \<Rightarrow> string \<Rightarrow> UIEvent option \<Rightarrow> Alerter \<Rightarrow> fanout \<Rightarrow> Alerter \<times> fanout" where
  "fan_out now startedAt stamp data decoded a f =
     (let replayed = (stamp \<noteq> 0 \<and> stamp < startedAt);
          a' = (if \<not> replayed \<and> ar_rules a \<noteq> [] then (case decoded of Some ev \<Rightarrow> Evaluate now ev a | None \<Rightarrow> a) else a);
          (cs, drops, evicted) = send_all (fo_maxDrops f) data (fo_clients f)
      in (a', f\<lparr>fo_backfilled := fo_backfilled f + (if replayed then 1 else 0),
                fo_history := take_last streamMaxMem (fo_history f @ [data]),
                fo_clients := cs, fo_sseDrops := fo_sseDrops f + drops, fo_evicted := fo_evicted f + evicted\<rparr>))"


subsection \<open>Suppression\<close>

abbreviation hub_mark :: "gotime \<Rightarrow> string \<Rightarrow> hub_table \<Rightarrow> bool \<times> hub_table" where
  "hub_mark now k t \<equiv> (\<not> fst (markSeen now k t), snd (markSeen now k t))"

lemma expire_sel [simp]: "ht_ttl (expire now t) = ht_ttl t" "ht_max (expire now t) = ht_max t"
  "ht_flushes (expire now t) = ht_flushes t"
  by (simp_all add: expire_def)

lemma sweep_sel [simp]: "ht_ttl (sweepDedupLocked now t) = ht_ttl t" "ht_max (sweepDedupLocked now t) = ht_max t"
  "ht_flushes t \<le> ht_flushes (sweepDedupLocked now t)"
  by (simp_all add: sweepDedupLocked_def Let_def)

lemma markSeen_sel [simp]: "ht_ttl (snd (markSeen now k t)) = ht_ttl t" "ht_max (snd (markSeen now k t)) = ht_max t"
  by (simp_all add: markSeen_def Let_def)

lemma expire_keeps: "map_of (ht_dedup t) j = Some l \<Longrightarrow> now - l < ht_ttl t \<Longrightarrow> map_of (ht_dedup (expire now t)) j = Some l"
  by (simp add: expire_def forget_keeps)

lemma sweep_keeps:
  "map_of (ht_dedup t) j = Some l \<Longrightarrow> now - l < ht_ttl t \<Longrightarrow> ht_flushes (sweepDedupLocked now t) = ht_flushes t
   \<Longrightarrow> map_of (ht_dedup (sweepDedupLocked now t)) j = Some l"
  by (auto simp: sweepDedupLocked_def Let_def expire_keeps split: if_splits)

lemma markSeen_fresh:
  "\<not> fst (markSeen now k t) \<Longrightarrow> snd (markSeen now k t) =
     (let t1 = t\<lparr>ht_dedup := AList.update k now (ht_dedup t)\<rparr> in
      if ht_max t < length (ht_dedup t1) then sweepDedupLocked now t1 else t1)"
  by (auto simp: markSeen_def Let_def split: if_splits)

lemma markSeen_seen: "fst (markSeen now k t) \<Longrightarrow> snd (markSeen now k t) = t"
  by (auto simp: markSeen_def Let_def split: if_splits)

lemma markSeen_iff: "fst (markSeen now k t) \<longleftrightarrow> (case map_of (ht_dedup t) k of None \<Rightarrow> False | Some l \<Rightarrow> now - l < ht_ttl t)"
  by (auto simp: markSeen_def Let_def split: option.splits)

lemma markSeen_entry:
  assumes "\<not> fst (markSeen now k t)" "ht_flushes (snd (markSeen now k t)) = ht_flushes t"
    and "j = k \<and> l = now \<or> j \<noteq> k \<and> map_of (ht_dedup t) j = Some l" "now - l < ht_ttl t"
  shows "map_of (ht_dedup (snd (markSeen now k t))) j = Some l"
proof -
  let ?t = "t\<lparr>ht_dedup := AList.update k now (ht_dedup t)\<rparr>"
  have "map_of (ht_dedup ?t) j = Some l" using assms(3) by (auto simp: update_conv')
  with assms sweep_keeps [of ?t j l now] markSeen_fresh [OF assms(1)] show ?thesis
    by (auto simp: Let_def split: if_splits)
qed

interpretation hub_dedup: dedup_table "\<lambda>t. map_of (ht_dedup t)" hub_mark expire ht_flushes ht_ttl
proof unfold_locales
  show "ht_flushes t \<le> ht_flushes (snd (hub_mark now k t))" for t now k
    using sweep_sel(3) [of "t\<lparr>ht_dedup := AList.update k now (ht_dedup t)\<rparr>" now]
    by (auto simp: markSeen_def Let_def)
  show "fst (hub_mark now k t) = (case map_of (ht_dedup t) k of None \<Rightarrow> True | Some l \<Rightarrow> ht_ttl t \<le> now - l)" for now k t
    by (auto simp: markSeen_iff split: option.splits)
  show "map_of (ht_dedup (snd (hub_mark now k t))) k = Some now"
    if "fst (hub_mark now k t)" "0 < ht_ttl t" "ht_flushes (snd (hub_mark now k t)) = ht_flushes t" for now k t
    using that markSeen_entry [of now k t k now] by simp
  show "map_of (ht_dedup (snd (hub_mark now k t))) j = Some l"
    if "map_of (ht_dedup t) j = Some l" "now - l < ht_ttl t" "ht_flushes (snd (hub_mark now k t)) = ht_flushes t" for now k t j l
  proof (cases "fst (markSeen now k t)")
    case True
    with that show ?thesis by (simp add: markSeen_seen)
  next
    case False
    with that(1,2) have "j \<noteq> k" by (auto simp: markSeen_iff)
    with False that show ?thesis using markSeen_entry [of now k t j l] by simp
  qed
qed (simp_all add: expire_keeps)

text \<open>A run of the hub: events, each with the alerter's current state and Kafka's answer, and ticks of the sweep.\<close>

datatype hub_op = OBroadcast Alerter bool UIEvent | OTick

fun hub_step :: "gotime \<Rightarrow> hub_op \<Rightarrow> BHub \<Rightarrow> BHub" where
  "hub_step now (OBroadcast a ok ev) h = Broadcast a now ok ev h"
| "hub_step now OTick h = h\<lparr>bh_table := expire now (bh_table h)\<rparr>"

fun hub_run :: "(gotime \<times> hub_op) list \<Rightarrow> BHub \<Rightarrow> BHub" where
  "hub_run [] h = h"
| "hub_run ((now, op) # ops) h = hub_run ops (hub_step now op h)"

definition dedupable :: "UIEvent \<Rightarrow> bool" where
  "dedupable ev = (ui_Pod ev \<noteq> [] \<and> ui_Syscall ev \<notin> set neverDedup)"

definition key_log :: "(gotime \<times> UIEvent) list \<Rightarrow> (gotime \<times> string) list" where
  "key_log xs = map (\<lambda>(t, ev). (t, hub_dedupKey ev)) xs"

lemma hub_step_run:
  assumes "0 < ht_ttl (bh_table h)"
  shows "\<exists>ks new. hub_dedup.run (map (\<lambda>k. (now, k)) ks) (bh_table h) = (bh_table (hub_step now op h), key_log new)
     \<and> filter (dedupable \<circ> snd) (bh_records (hub_step now op h)) = filter (dedupable \<circ> snd) (bh_records h) @ new"
proof (cases op)
  case OTick
  then show ?thesis by (intro exI [of _ "[None]"] exI [of _ "[]"]) (simp add: key_log_def)
next
  case op: (OBroadcast a ok ev)
  show ?thesis
  proof (cases "wanted a ev \<and> shouldDedup h ev")
    case True
    then have d: "dedupable ev" by (simp add: shouldDedup_def dedupable_def)
    show ?thesis
    proof (cases "fst (markSeen now (hub_dedupKey ev) (bh_table h))")
      case seen: True
      with True op show ?thesis
        by (intro exI [of _ "[Some (hub_dedupKey ev)]"] exI [of _ "[]"])
          (simp add: key_log_def Broadcast_def Let_def case_prod_beta)
    next
      case False
      with True op d show ?thesis
        by (intro exI [of _ "[Some (hub_dedupKey ev)]"] exI [of _ "[(now, ev)]"])
          (simp add: key_log_def Broadcast_def Let_def case_prod_beta pass_def)
    qed
  next
    case False
    then have "bh_table (hub_step now op h) = bh_table h"
      "filter (dedupable \<circ> snd) (bh_records (hub_step now op h)) = filter (dedupable \<circ> snd) (bh_records h)"
      using op assms by (auto simp: Broadcast_def Let_def pass_def shouldDedup_def dedupable_def)
    then show ?thesis by (intro exI [of _ "[]"] exI [of _ "[]"]) (simp add: key_log_def)
  qed
qed

lemma hub_step_ttl: "ht_ttl (bh_table (hub_step now op h)) = ht_ttl (bh_table h)"
  by (cases op) (auto simp: Broadcast_def Let_def pass_def case_prod_beta split: bool.split)

lemma hub_run_table:
  assumes "0 < ht_ttl (bh_table h)"
  shows "\<exists>ops new. hub_dedup.run ops (bh_table h) = (bh_table (hub_run steps h), key_log new)
     \<and> filter (dedupable \<circ> snd) (bh_records (hub_run steps h)) = filter (dedupable \<circ> snd) (bh_records h) @ new
     \<and> set (map fst ops) \<subseteq> set (map fst steps) \<and> (sorted (map fst steps) \<longrightarrow> sorted (map fst ops))"
  using assms
proof (induction steps h rule: hub_run.induct)
  case (1 h)
  show ?case by (intro exI [of _ "[]"] exI [of _ "[]"]) (simp add: key_log_def)
next
  case (2 now op steps h)
  let ?h = "hub_step now op h" and ?f = "filter (dedupable \<circ> snd)"
  obtain ks new where k: "hub_dedup.run (map (\<lambda>k. (now, k)) ks) (bh_table h) = (bh_table ?h, key_log new)"
    "?f (bh_records ?h) = ?f (bh_records h) @ new" using hub_step_run [OF "2.prems"] by blast
  obtain ops new' where o: "hub_dedup.run ops (bh_table ?h) = (bh_table (hub_run steps ?h), key_log new')"
    "?f (bh_records (hub_run steps ?h)) = ?f (bh_records ?h) @ new'" "set (map fst ops) \<subseteq> set (map fst steps)"
    "sorted (map fst steps) \<longrightarrow> sorted (map fst ops)" using "2.IH" "2.prems" unfolding hub_step_ttl by blast
  have "hub_dedup.run (map (\<lambda>k. (now, k)) ks @ ops) (bh_table h) = (bh_table (hub_run steps ?h), key_log (new @ new'))"
    using k(1) o(1) by (simp add: hub_dedup.run_append key_log_def)
  moreover have "sorted (map fst (map (\<lambda>k. (now, k)) ks @ ops))" if "sorted (map fst ((now, op) # steps))"
    using that o(3,4) by (rule timed_ops_sorted)
  moreover have "set (map fst (map (\<lambda>k. (now, k)) ks @ ops)) \<subseteq> set (map fst ((now, op) # steps))" using o(3) by auto
  ultimately show ?case using k(2) o(2)
    by (intro exI [of _ "map (\<lambda>k. (now, k)) ks @ ops"] exI [of _ "new @ new'"]) (simp add: comp_def)
qed



definition hub0 :: BHub where
  "hub0 = \<lparr>bh_table = \<lparr>ht_dedup = [], ht_ttl = 5 * minute, ht_max = 100000, ht_flushes = 0\<rparr>,
     bh_received = 0, bh_passed = 0, bh_dropped = 0, bh_filtered = 0, bh_deduped = 0, bh_records = []\<rparr>"

definition open_event :: UIEvent where
  "open_event = ptrace_event\<lparr>ui_Syscall := ''openat''\<rparr>"

lemma open_event_wanted: "wanted a open_event" "shouldDedup (hub0\<lparr>bh_received := n\<rparr>) open_event" "shouldDedup hub0 open_event"
  by (simp_all add: wanted_def open_event_def ptrace_event_def alwaysPass_def shouldDedup_def neverDedup_def hub0_def)


subsection \<open>Counters and bounds\<close>

inductive hub_reach :: "nat \<Rightarrow> BHub \<Rightarrow> bool" for maxEntries where
  hr_new: "ht_dedup (bh_table h) = [] \<Longrightarrow> ht_max (bh_table h) = maxEntries \<Longrightarrow> bh_received h = 0 \<Longrightarrow> bh_passed h = 0
     \<Longrightarrow> bh_dropped h = 0 \<Longrightarrow> bh_filtered h = 0 \<Longrightarrow> bh_deduped h = 0 \<Longrightarrow> bh_records h = [] \<Longrightarrow> hub_reach maxEntries h"
| hr_step: "hub_reach maxEntries h \<Longrightarrow> hub_reach maxEntries (hub_step now op h)"

lemma length_update: "length (AList.update k v m) \<le> Suc (length m)"
  by (induction m) auto

lemma markSeen_bound: "length (ht_dedup t) \<le> ht_max t \<Longrightarrow> length (ht_dedup (snd (markSeen now k t))) \<le> ht_max t"
  by (auto simp: markSeen_def Let_def sweepDedupLocked_def)

lemma Broadcast_counts:
  "bh_received (Broadcast a now ok ev h) = bh_received h + 1
   \<and> bh_passed (Broadcast a now ok ev h) + bh_filtered (Broadcast a now ok ev h) + bh_deduped (Broadcast a now ok ev h)
     = bh_passed h + bh_filtered h + bh_deduped h + 1
   \<and> (\<exists>k\<le>bh_passed (Broadcast a now ok ev h) - bh_passed h. bh_dropped (Broadcast a now ok ev h)
       = bh_dropped h + (bh_filtered (Broadcast a now ok ev h) - bh_filtered h) + k)
   \<and> bh_passed (Broadcast a now ok ev h) - bh_passed h = length (bh_records (Broadcast a now ok ev h)) - length (bh_records h)
   \<and> length (bh_records h) \<le> length (bh_records (Broadcast a now ok ev h)) \<and> bh_passed h \<le> bh_passed (Broadcast a now ok ev h)
   \<and> bh_filtered h \<le> bh_filtered (Broadcast a now ok ev h)"
  by (auto simp: Broadcast_def Let_def pass_def case_prod_beta split: bool.split)

lemma Broadcast_table:
  "bh_table (Broadcast a now ok ev h) = bh_table h \<or> bh_table (Broadcast a now ok ev h) = snd (markSeen now (hub_dedupKey ev) (bh_table h))"
  by (auto simp: Broadcast_def Let_def pass_def case_prod_beta split: bool.split)

text \<open>The hub accounts for every event: in every reachable state the events received are
  those passed to Kafka, filtered and suppressed; an event counted as dropped was filtered or passed
  but not delivered; and the suppression table never exceeds its configured size.\<close>

theorem hub_accounts_every_event:
  "hub_reach maxEntries h \<Longrightarrow>
     bh_received h = bh_passed h + bh_filtered h + bh_deduped h \<and> length (bh_records h) = bh_passed h
     \<and> bh_filtered h \<le> bh_dropped h \<and> bh_dropped h \<le> bh_filtered h + bh_passed h
     \<and> length (ht_dedup (bh_table h)) \<le> maxEntries \<and> ht_max (bh_table h) = maxEntries"
proof (induction rule: hub_reach.induct)
  case (hr_step h now op)
  show ?case
  proof (cases op)
    case OTick
    with hr_step.IH length_forget show ?thesis by (auto simp: expire_def intro: order_trans)
  next
    case (OBroadcast a ok ev)
    from Broadcast_counts [of a now ok ev h] Broadcast_table [of a now ok ev h] hr_step.IH
      markSeen_bound [of "bh_table h" now "hub_dedupKey ev"] OBroadcast
    show ?thesis by (elim conjE exE disjE) (simp; linarith)+
  qed
qed simp

theorem hub_accounts_every_event_witness:
  "let h = hub_step 0 (OBroadcast alerter0 False ptrace_event) hub0 in
   bh_received h = bh_passed h + bh_filtered h + bh_deduped h \<and> length (ht_dedup (bh_table h)) \<le> 100000"
proof -
  have "hub_reach 100000 (hub_step 0 (OBroadcast alerter0 False ptrace_event) hub0)"
    by (intro hub_reach.intros) (simp_all add: hub0_def)
  from hub_accounts_every_event [OF this] show ?thesis by (simp add: Let_def)
qed


subsection \<open>What the hub lets through\<close>

lemma neverDedup_passes: "s \<in> set neverDedup \<Longrightarrow> s \<in> set alwaysPass \<or> isLSMHook s"
  by (auto simp: neverDedup_def alwaysPass_def isLSMHook_def has_prefix_def)

lemma Broadcast_never_dedup:
  "ui_Syscall ev \<in> set neverDedup \<Longrightarrow> bh_records (Broadcast a now ok ev h) = bh_records h @ [(now, ev)]"
  using neverDedup_passes [of "ui_Syscall ev"] by (auto simp: Broadcast_def Let_def wanted_def shouldDedup_def pass_def)

lemma policy_syscalls_set:
  "set (fst (policy_syscalls rows acc p)) = set acc \<union> ({sc. sc \<noteq> [] \<and> sc \<noteq> ''*''} \<inter> trim_space ` set rows)
   \<and> (snd (policy_syscalls rows acc p) \<longleftrightarrow> p \<or> ''*'' \<in> trim_space ` set rows)"
  by (induction rows acc p rule: policy_syscalls.induct) (auto simp: Let_def)

text \<open>The hub lets through what the policies ask for: after a successful refresh, an event that
  some rule matches reaches Kafka's filter stage as wanted whenever the syscall of that rule, taken
  from the enabled policies, is named or is a star.\<close>

theorem policy_syscall_wanted:
  assumes "refresh now rows (Inr names) a = (None, a')" "sc \<in> set names" "trim_space sc \<noteq> []"
    and "br_Syscall r = trim_space sc" "BMatches (bridge_event ev) r"
  shows "wanted a' ev"
proof -
  obtain rs where a': "rows = Inr rs"
    "a' = a\<lparr>ar_rules := List.map_filter id rs, ar_policySyscalls := fst (policy_syscalls names [] False),
       ar_policyPassAll := snd (policy_syscalls names [] False), ar_lastRefreshOK := now\<rparr>"
    using assms(1) by (auto simp: refresh_def case_prod_beta split: sum.splits)
  have in_rows: "br_Syscall r \<in> trim_space ` set names" using assms(2,4) by simp
  have "WantsSyscall a' (ui_Syscall ev)"
  proof (cases "br_Syscall r = ''*''")
    case True
    with in_rows have "snd (policy_syscalls names [] False)" using policy_syscalls_set [of names "[]" False] by simp
    with a'(2) show ?thesis by (simp add: WantsSyscall_def)
  next
    case False
    with assms(3-5) have "ui_Syscall ev = br_Syscall r" by (auto simp: BMatches_def Let_def bridge_event_def split: if_splits)
    moreover have "br_Syscall r \<in> set (fst (policy_syscalls names [] False))"
      using policy_syscalls_set [of names "[]" False] in_rows False assms(3,4) by simp
    ultimately show ?thesis using a'(2) by (simp add: WantsSyscall_def)
  qed
  then show ?thesis by (simp add: wanted_def)
qed

theorem policy_syscall_wanted_witness:
  "wanted (snd (refresh 7 (Inr [Some (brule0\<lparr>br_Syscall := ''getpid''\<rparr>)]) (Inr [''getpid'']) alerter0))
     (ptrace_event\<lparr>ui_Syscall := ''getpid''\<rparr>)"
proof -
  let ?r = "brule0\<lparr>br_Syscall := ''getpid''\<rparr>" and ?ev = "ptrace_event\<lparr>ui_Syscall := ''getpid''\<rparr>"
  have t: "trim_space ''getpid'' = ''getpid''" by (simp add: trim_space_def is_space_def)
  have r: "refresh 7 (Inr [Some ?r]) (Inr [''getpid'']) alerter0
      = (None, snd (refresh 7 (Inr [Some ?r]) (Inr [''getpid'']) alerter0))"
    by (simp add: refresh_def case_prod_beta)
  have "BMatches (bridge_event ?ev) ?r"
    by (simp add: BMatches_def brule0_def bridge_event_def ptrace_event_def NamespaceMatches_def PodMatches_def trim_space_def)
  from policy_syscall_wanted [OF r _ _ _ this] t show ?thesis by simp
qed

text \<open>A rule without a syscall is treated as matching every syscall by the matcher but not by
  the hub's filter: after a refresh that loads only such a rule, an event it matches is filtered out
  before it reaches Kafka, while the same rule with a star lets it through.\<close>

theorem empty_syscall_rule_filtered:
  "let r = brule0\<lparr>br_Syscall := []\<rparr>; ev = ptrace_event\<lparr>ui_Syscall := ''getpid''\<rparr>;
       a1 = snd (refresh 7 (Inr [Some r]) (Inr [br_Syscall r]) alerter0);
       a2 = snd (refresh 7 (Inr [Some (r\<lparr>br_Syscall := ''*''\<rparr>)]) (Inr [''*'']) alerter0)
   in MatchesAny (bridge_event ev) (ar_rules a1) \<and> bh_records (Broadcast a1 now ok ev hub0) = []
      \<and> MatchesAny (bridge_event ev) (ar_rules a2) \<and> bh_records (Broadcast a2 now ok ev hub0) = [(now, ev)]"
proof -
  let ?r = "brule0\<lparr>br_Syscall := []\<rparr>" and ?ev = "ptrace_event\<lparr>ui_Syscall := ''getpid''\<rparr>"
  let ?a1 = "alerter0\<lparr>ar_rules := [?r], ar_policySyscalls := [], ar_policyPassAll := False, ar_lastRefreshOK := 7\<rparr>"
  let ?a2 = "alerter0\<lparr>ar_rules := [?r\<lparr>br_Syscall := ''*''\<rparr>], ar_policySyscalls := [], ar_policyPassAll := True,
      ar_lastRefreshOK := 7\<rparr>"
  have trims: "trim_space [] = []" "trim_space ''*'' = ''*''" by (simp_all add: trim_space_def is_space_def)
  have a: "snd (refresh 7 (Inr [Some ?r]) (Inr [br_Syscall ?r]) alerter0) = ?a1"
    "snd (refresh 7 (Inr [Some (?r\<lparr>br_Syscall := ''*''\<rparr>)]) (Inr [''*'']) alerter0) = ?a2"
    by (simp_all add: refresh_def trims List.map_filter_def)
  have m: "BMatches (bridge_event ?ev) ?r" "BMatches (bridge_event ?ev) (?r\<lparr>br_Syscall := ''*''\<rparr>)"
    by (simp_all add: BMatches_def brule0_def bridge_event_def ptrace_event_def NamespaceMatches_def PodMatches_def trims)
  have w: "wanted a ?ev = WantsSyscall a ''getpid''" for a
    by (simp add: wanted_def ptrace_event_def alwaysPass_def isLSMHook_def has_prefix_def)
  have "\<not> wanted ?a1 ?ev" "wanted ?a2 ?ev" unfolding w by (simp_all add: WantsSyscall_def)
  moreover from this have "bh_records (Broadcast ?a1 now ok ?ev hub0) = []" by (simp add: Broadcast_def hub0_def)
  moreover have "bh_records (Broadcast ?a2 now ok ?ev hub0) = [(now, ?ev)]"
    using \<open>wanted ?a2 ?ev\<close> by (auto simp: Broadcast_def Let_def markSeen_def pass_def hub0_def)
  ultimately show ?thesis using m unfolding a Let_def by (simp add: MatchesAny_def)
qed

text \<open>The suppression key leaves out the namespace: within the time to live of an event of one
  pod, the same event of a pod of the same name in any other namespace is suppressed and never
  reaches Kafka.\<close>

theorem dedup_ignores_namespace:
  assumes "shouldDedup h ev" "wanted a1 ev" "wanted a2 ev" "ht_dedup (bh_table h) = []" "0 < ht_max (bh_table h)"
    and "t2 - t1 < ht_ttl (bh_table h)"
  shows "bh_records (Broadcast a2 t2 ok2 (ev\<lparr>ui_Namespace := ns\<rparr>) (Broadcast a1 t1 ok1 ev h)) = bh_records h @ [(t1, ev)]"
proof -
  let ?ev = "ev\<lparr>ui_Namespace := ns\<rparr>" and ?h = "Broadcast a1 t1 ok1 ev h"
  have key: "hub_dedupKey ?ev = hub_dedupKey ev" by (simp add: hub_dedupKey_def)
  have h: "bh_records ?h = bh_records h @ [(t1, ev)]" "ht_dedup (bh_table ?h) = [(hub_dedupKey ev, t1)]"
    "ht_ttl (bh_table ?h) = ht_ttl (bh_table h)"
    using assms(1,2,4,5) by (simp_all add: Broadcast_def Let_def markSeen_def pass_def)
  have "shouldDedup ?h ?ev" "wanted a2 ?ev" using assms(1,3) h(3) by (simp_all add: shouldDedup_def wanted_def)
  with h key assms(6) show ?thesis by (simp add: Broadcast_def [of a2] Let_def markSeen_def)
qed

theorem dedup_ignores_namespace_witness:
  "bh_records (Broadcast alerter0 1 True (open_event\<lparr>ui_Namespace := ''bank''\<rparr>) (Broadcast alerter0 0 True open_event hub0))
     = [(0, open_event)]"
  using dedup_ignores_namespace [OF open_event_wanted(3) open_event_wanted(1) [of alerter0] open_event_wanted(1) [of alerter0], of 1 0 True "''bank''" True]
  by (simp add: hub0_def)

subsection \<open>SSE clients\<close>

definition client_ok :: "nat \<Rightarrow> client \<Rightarrow> bool" where
  "client_ok maxDrops c = (length (cl_ch c) \<le> chanBuf \<and> (cl_drops c < maxDrops \<or> maxDrops = 0 \<and> cl_drops c = 0))"

lemma sendToClient_ok:
  "client_ok m c \<Longrightarrow> sendToClient m data c = (Some c', lost) \<Longrightarrow> client_ok m c'"
  by (auto simp: client_ok_def sendToClient_def split: if_splits)

lemma send_all_ok: "list_all (client_ok m) cs \<Longrightarrow> list_all (client_ok m) (fst (send_all m data cs))"
proof (induction cs)
  case (Cons c cs)
  obtain r lost where r: "sendToClient m data c = (r, lost)" by fastforce
  with Cons show ?case by (cases r) (auto simp: case_prod_beta Let_def dest: sendToClient_ok)
qed simp

text \<open>Relaying a record keeps the history to its newest \<^verbatim>\<open>streamMaxMem\<close> records, keeps every
  client's channel within its capacity and its run of lost messages below the limit at which it is
  dropped, and evaluates the alert rules only for records newer than the start of the hub.\<close>

theorem fan_out_bounds:
  assumes "list_all (client_ok (fo_maxDrops f)) (fo_clients f)" "fan_out now startedAt stamp data decoded a f = (a', f')"
  shows "fo_history f' = take_last streamMaxMem (fo_history f @ [data]) \<and> length (fo_history f') \<le> streamMaxMem
    \<and> list_all (client_ok (fo_maxDrops f')) (fo_clients f') \<and> (stamp \<noteq> 0 \<and> stamp < startedAt \<longrightarrow> a' = a)"
proof -
  obtain cs drops evicted where s: "send_all (fo_maxDrops f) data (fo_clients f) = (cs, drops, evicted)" by (metis prod_cases3)
  have "list_all (client_ok (fo_maxDrops f)) cs" using send_all_ok [OF assms(1), of data] s by simp
  with assms(2) s show ?thesis by (auto simp: fan_out_def Let_def)
qed

theorem fan_out_bounds_witness:
  "let f = \<lparr>fo_history = [], fo_clients = [\<lparr>cl_id = 1, cl_ch = [], cl_drops = 0, cl_closed = False\<rparr>], fo_sseDrops = 0,
            fo_evicted = 0, fo_backfilled = 0, fo_maxDrops = 256\<rparr>
   in list_all (client_ok 256) (fo_clients (snd (fan_out 5 0 5 ''x'' None alerter0 f)))"
proof -
  let ?f = "\<lparr>fo_history = [], fo_clients = [\<lparr>cl_id = 1, cl_ch = [], cl_drops = 0, cl_closed = False\<rparr>], fo_sseDrops = 0,
            fo_evicted = 0, fo_backfilled = 0, fo_maxDrops = 256\<rparr>"
  have c: "list_all (client_ok (fo_maxDrops ?f)) (fo_clients ?f)" by (simp add: client_ok_def)
  have "fo_maxDrops (snd (fan_out 5 0 5 ''x'' None alerter0 ?f)) = 256" by (simp add: fan_out_def Let_def case_prod_beta)
  with fan_out_bounds [OF c, of 5 0 5 "''x''" None alerter0 "fst (fan_out 5 0 5 ''x'' None alerter0 ?f)"
      "snd (fan_out 5 0 5 ''x'' None alerter0 ?f)"]
  show ?thesis by (simp only: prod.collapse simp_thms Let_def)
qed

end
