(* ===== verification/Anomaly_Event.thy ===== *)
theory Anomaly_Event
  imports Go_Value
begin

section \<open>Anomaly events and the fields of runtime events (anomaly/internal/consumer)\<close>

text \<open>
  The event record of the anomaly consumer, the helpers that read addresses, ports and paths out of
  a decoded runtime event, and the tables of suspicious ports and binaries.
\<close>

datatype AnomalyKind = KindPolicyBlocked | KindUnauthorizedFlow | KindPortScan | KindSuspiciousPort | KindRawSocket
  | KindSuspiciousBind | KindUnexpectedListen | KindProcessInjection | KindFilelessExec | KindKernelModuleLoad
  | KindEBPFLoad | KindContainerEscape | KindPrivEscalation | KindIOUring | KindUnexpectedBinary
  | KindBinaryTampering | KindHoneypotProbe

fun kind_name :: "AnomalyKind \<Rightarrow> string" where
  "kind_name KindPolicyBlocked = ''policy_blocked''"
| "kind_name KindUnauthorizedFlow = ''unauthorized_flow''"
| "kind_name KindPortScan = ''port_scan''"
| "kind_name KindSuspiciousPort = ''suspicious_port''"
| "kind_name KindRawSocket = ''raw_socket''"
| "kind_name KindSuspiciousBind = ''suspicious_bind''"
| "kind_name KindUnexpectedListen = ''unexpected_listen''"
| "kind_name KindProcessInjection = ''process_injection''"
| "kind_name KindFilelessExec = ''fileless_exec''"
| "kind_name KindKernelModuleLoad = ''kernel_module_load''"
| "kind_name KindEBPFLoad = ''ebpf_load''"
| "kind_name KindContainerEscape = ''container_escape''"
| "kind_name KindPrivEscalation = ''privilege_escalation''"
| "kind_name KindIOUring = ''io_uring''"
| "kind_name KindUnexpectedBinary = ''unexpected_binary''"
| "kind_name KindBinaryTampering = ''binary_tampering''"
| "kind_name KindHoneypotProbe = ''honeypot_probe''"

record AnomalyEvent =
  ae_ID :: string
  ae_Ts :: gotime
  ae_Kind :: AnomalyKind
  ae_SrcNamespace :: string
  ae_SrcDeployment :: string
  ae_SrcPod :: string
  ae_SrcNode :: string
  ae_SrcProcess :: string
  ae_SrcIP :: string
  ae_SrcContainer :: string
  ae_SrcServiceAccount :: string
  ae_SrcPID :: string
  ae_SrcUID :: string
  ae_SrcCmdline :: string
  ae_HoneypotID :: string
  ae_HoneypotName :: string
  ae_HoneypotService :: string
  ae_HoneypotKind :: string
  ae_DstIP :: string
  ae_DstPort :: nat
  ae_DstService :: string
  ae_DstNS :: string
  ae_Protocol :: string
  ae_ScannedPorts :: "nat list"
  ae_PortCount :: nat
  ae_PortLabel :: string
  ae_WindowSec :: nat
  ae_Syscall :: string
  ae_EventKind :: string
  ae_BaselineState :: string
  ae_Detail :: string

definition withDetail :: "AnomalyEvent \<Rightarrow> AnomalyKind \<Rightarrow> string \<Rightarrow> AnomalyEvent" where
  "withDetail base kind detail = base\<lparr>ae_Kind := kind, ae_Detail := detail\<rparr>"

definition connectEvent :: "AnomalyEvent \<Rightarrow> AnomalyKind \<Rightarrow> string \<Rightarrow> nat \<Rightarrow> string \<Rightarrow> string \<Rightarrow> AnomalyEvent" where
  "connectEvent base kind dstIP dstPort dstService dstNS = base\<lparr>ae_Kind := kind, ae_DstIP := dstIP, ae_DstPort := dstPort,
     ae_DstService := dstService, ae_DstNS := dstNS, ae_Protocol := ''TCP''\<rparr>"

subsection \<open>Fields of a decoded event\<close>

definition strVal :: "gomap \<Rightarrow> string \<Rightarrow> string" where
  "strVal m k = str_or (map_of m k)"

definition ev_args :: "gomap \<Rightarrow> gomap option" where
  "ev_args ev = as_obj (map_of ev ''args'')"

definition addr_keys :: "string list" where
  "addr_keys = [''addr'', ''address'', ''sockaddr'']"

fun field_ip :: "gomap \<Rightarrow> string list \<Rightarrow> string" where
  "field_ip args [] = []"
| "field_ip args (k # ks) =
     (case as_obj (map_of args k) of None \<Rightarrow> field_ip args ks
      | Some addr \<Rightarrow>
          if str_or (map_of addr ''sin_addr'') \<noteq> [] then str_or (map_of addr ''sin_addr'')
          else if str_or (map_of addr ''sin6_addr'') \<noteq> [] then str_or (map_of addr ''sin6_addr'')
          else field_ip args ks)"

definition addrFieldIP :: "gomap \<Rightarrow> string" where
  "addrFieldIP ev = (case ev_args ev of None \<Rightarrow> [] | Some args \<Rightarrow> field_ip args addr_keys)"

definition port_value :: "govalue option \<Rightarrow> nat option" where
  "port_value v =
     (case v of
        Some (VStr s) \<Rightarrow> (case parse_uint 16 s of Some p \<Rightarrow> if 0 < p then Some p else None | None \<Rightarrow> None)
      | Some (VNum x t) \<Rightarrow> if 0 < x \<and> x \<le> 65535 then Some (nat (trunc_int x)) else None
      | _ \<Rightarrow> None)"

fun field_port :: "gomap \<Rightarrow> string list \<Rightarrow> nat" where
  "field_port args [] = 0"
| "field_port args (k # ks) =
     (case as_obj (map_of args k) of None \<Rightarrow> field_port args ks
      | Some addr \<Rightarrow> (case port_value (map_of addr ''sin_port'') of Some p \<Rightarrow> p | None \<Rightarrow> field_port args ks))"

definition extractPort :: "gomap \<Rightarrow> nat" where
  "extractPort ev = (case ev_args ev of None \<Rightarrow> 0 | Some args \<Rightarrow> field_port args addr_keys)"

definition count_char :: "char \<Rightarrow> string \<Rightarrow> nat" where
  "count_char c s = length (filter (\<lambda>x. x = c) s)"

text \<open>\<^verbatim>\<open>strings.LastIndex\<close> for a single byte.\<close>

definition last_index :: "char \<Rightarrow> string \<Rightarrow> nat option" where
  "last_index c s = (if c \<in> set s then Some (length s - 1 - length (takeWhile (\<lambda>x. x \<noteq> c) (rev s))) else None)"

definition parseIPFromAddr :: "string \<Rightarrow> string" where
  "parseIPFromAddr addr =
     (if addr = [] then []
      else
        let bracket = (if hd addr = CHR ''['' then
               (case index_of addr '']'' of Some e \<Rightarrow> if 0 < e then Some (drop 1 (take e addr)) else None | None \<Rightarrow> None) else None);
            host = (case last_index (CHR '':'') addr of
               Some idx \<Rightarrow> (let ip = take idx addr in
                  if 0 < idx \<and> (count_char (CHR ''.'') ip = 3 \<or> contains ip '':'') then Some ip else None)
             | None \<Rightarrow> None)
        in case bracket of Some ip \<Rightarrow> ip
           | None \<Rightarrow> (case host of Some ip \<Rightarrow> ip
                       | None \<Rightarrow> if count_char (CHR ''.'') addr = 3 then addr else []))"

definition extractIP :: "gomap \<Rightarrow> string" where
  "extractIP ev =
     (let ip = addrFieldIP ev; cmdline = strVal ev ''cmdline'' in
      if ip \<noteq> [] then ip
      else if cmdline \<noteq> [] \<and> parseIPFromAddr cmdline \<noteq> [] then cmdline else [])"

definition anyString :: "govalue option \<Rightarrow> string" where
  "anyString v = (case v of None \<Rightarrow> [] | Some VNull \<Rightarrow> [] | Some (VStr s) \<Rightarrow> s
     | Some (VNum x t) \<Rightarrow> int_str (trunc_int x) | Some w \<Rightarrow> fmt_v w)"

subsection \<open>Sockets\<close>

fun stringifySocketDomain :: "govalue \<Rightarrow> string" where
  "stringifySocketDomain (VStr s) = s"
| "stringifySocketDomain (VNum x t) =
     (if trunc_int x = 2 then ''AF_INET'' else if trunc_int x = 10 then ''AF_INET6''
      else if trunc_int x = 17 then ''AF_PACKET'' else [])"
| "stringifySocketDomain _ = []"

fun stringifySocketType :: "govalue \<Rightarrow> string" where
  "stringifySocketType (VStr s) = s"
| "stringifySocketType (VNum x t) = (if trunc_int x mod 4 = 3 then ''SOCK_RAW'' else [])"
| "stringifySocketType _ = []"

definition socketArgs :: "gomap \<Rightarrow> string \<times> string" where
  "socketArgs args =
     (case map_of args ''domain'' of None \<Rightarrow> [] | Some v \<Rightarrow> stringifySocketDomain v,
      case map_of args ''type'' of None \<Rightarrow> [] | Some v \<Rightarrow> stringifySocketType v)"

definition evalSocket :: "gomap \<Rightarrow> AnomalyEvent \<Rightarrow> AnomalyEvent list" where
  "evalSocket ev base =
     (case ev_args ev of None \<Rightarrow> []
      | Some args \<Rightarrow>
        (let (domain, sockType) = socketArgs args;
             isNet = (domain \<in> {''AF_INET'', ''AF_INET6'', ''AF_PACKET'', ''2'', ''10'', ''17''});
             isRaw = (contains sockType ''RAW'' \<or> sockType = ''3'')
         in if isNet \<and> isRaw
            then [withDetail base KindRawSocket (''socket('' @ domain @ '', '' @ sockType @ '')'')] else []))"

definition suspiciousBindPorts :: "(nat \<times> string) list" where
  "suspiciousBindPorts = [(4444, ''metasploit-default''), (4445, ''metasploit-alt''), (1337, ''c2-common''),
     (31337, ''elite-c2''), (9001, ''tor''), (9050, ''tor-socks''), (6666, ''irc-c2''), (6667, ''irc''),
     (7777, ''c2-common''), (8888, ''c2-common'')]"

definition evalBind :: "gomap \<Rightarrow> AnomalyEvent \<Rightarrow> AnomalyEvent list" where
  "evalBind ev base =
     (let port = extractPort ev in
      if port = 0 then []
      else (case map_of suspiciousBindPorts port of None \<Rightarrow> []
            | Some label \<Rightarrow> [base\<lparr>ae_Kind := KindSuspiciousBind, ae_DstIP := extractIP ev, ae_DstPort := port,
                ae_PortLabel := label, ae_Detail := ''listener opened on suspicious port''\<rparr>]))"

definition server_words :: "string list" where
  "server_words = [''web'', ''api'', ''server'', ''gateway'', ''nginx'', ''proxy'', ''ingress'', ''frontend'']"

definition evalAccept :: "gomap \<Rightarrow> AnomalyEvent \<Rightarrow> AnomalyEvent list" where
  "evalAccept ev base =
     (let name = to_lower (ae_SrcDeployment base @ ae_SrcPod base) in
      if list_ex (\<lambda>kw. contains name kw) server_words then []
      else
        let ip = extractIP ev in
        [base\<lparr>ae_Kind := KindUnexpectedListen, ae_DstIP := ip, ae_DstPort := extractPort ev,
           ae_Detail := ''unexpected incoming connection accepted'' @ (if ip \<noteq> [] then '' from '' @ ip else [])\<rparr>])"

definition evalIOUring :: "AnomalyEvent \<Rightarrow> AnomalyEvent list" where
  "evalIOUring base =
     [withDetail base KindIOUring (ae_Syscall base @ '' '' @ em_dash @ '' io_uring async I/O (syscall-monitoring evasion vector)'')]"

definition isContainerRuntimeInit :: "string \<Rightarrow> bool" where
  "isContainerRuntimeInit process =
     (let p = to_lower (trim_space process) in
      if p = [] then False
      else has_prefix p ''runc'' \<or> has_prefix p ''crun'' \<or> contains p ''containerd-shim'' \<or> contains p ''conmon'')"

definition evalCapset :: "AnomalyEvent \<Rightarrow> AnomalyEvent list" where
  "evalCapset base =
     (if isContainerRuntimeInit (ae_SrcProcess base) then []
      else [withDetail base KindPrivEscalation (''capset '' @ em_dash @ '' capability modification (privilege escalation)'')])"

subsection \<open>Binaries\<close>

definition suspiciousBinaries :: "(string \<times> AnomalyKind \<times> string) list" where
  "suspiciousBinaries =
     [(''unshare'', KindContainerEscape, ''unshare binary executed '' @ em_dash @ '' namespace isolation bypass attempt''),
      (''nsenter'', KindContainerEscape, ''nsenter binary executed '' @ em_dash @ '' namespace entry attempt''),
      (''pivot_root'', KindContainerEscape, ''pivot_root binary executed '' @ em_dash @ '' filesystem root change attempt''),
      (''chroot'', KindContainerEscape, ''chroot binary executed''),
      (''insmod'', KindKernelModuleLoad, ''insmod binary executed '' @ em_dash @ '' kernel module load attempt''),
      (''modprobe'', KindKernelModuleLoad, ''modprobe binary executed '' @ em_dash @ '' kernel module load attempt''),
      (''rmmod'', KindKernelModuleLoad, ''rmmod binary executed '' @ em_dash @ '' kernel module removal attempt'')]"

definition bin_name :: "string \<Rightarrow> string" where
  "bin_name name =
     (let b = to_lower (trim_space name) in
      case last_index (CHR ''/'') b of Some i \<Rightarrow> drop (i + 1) b | None \<Rightarrow> b)"

fun first_suspicious :: "string list \<Rightarrow> (AnomalyKind \<times> string) option" where
  "first_suspicious [] = None"
| "first_suspicious (name # names) =
     (case map_of suspiciousBinaries (bin_name name) of Some sb \<Rightarrow> Some sb | None \<Rightarrow> first_suspicious names)"

fun first_str :: "gomap \<Rightarrow> string list \<Rightarrow> string" where
  "first_str args [] = []"
| "first_str args (k # ks) = (if str_or (map_of args k) \<noteq> [] then str_or (map_of args k) else first_str args ks)"

definition execBinaryPath :: "gomap \<Rightarrow> AnomalyEvent \<Rightarrow> string" where
  "execBinaryPath ev base =
     (let ep = strVal ev ''execpath'';
          p = (case ev_args ev of None \<Rightarrow> [] | Some args \<Rightarrow> first_str args [''pathname'', ''cmdpath'', ''filepath''])
      in if ep \<noteq> [] \<and> ep \<noteq> em_dash then ep else if p \<noteq> [] then p else ae_SrcProcess base)"

definition systemBinaryDirs :: "string list" where
  "systemBinaryDirs = [''/bin/'', ''/sbin/'', ''/usr/bin/'', ''/usr/sbin/'', ''/usr/local/bin/'', ''/usr/local/sbin/'', ''/usr/libexec/'']"

definition isSystemBinaryPath :: "string \<Rightarrow> bool" where
  "isSystemBinaryPath p = list_ex (\<lambda>d. has_prefix p d \<and> length d < length p) systemBinaryDirs"

fun add_paths :: "string list \<Rightarrow> string list \<Rightarrow> string list" where
  "add_paths acc [] = acc"
| "add_paths acc (p # ps) =
     (if \<not> has_prefix p ''/'' \<or> p \<in> set acc then add_paths acc ps else add_paths (acc @ [p]) ps)"

definition tamperTargetPaths :: "gomap \<Rightarrow> string list" where
  "tamperTargetPaths ev =
     add_paths [] ((case ev_args ev of None \<Rightarrow> []
         | Some args \<Rightarrow> concat (map (\<lambda>kv. case snd kv of VStr s \<Rightarrow> [s] | _ \<Rightarrow> []) args))
       @ [strVal ev ''execpath''] @ Go_Strings.fields (strVal ev ''cmdline''))"

definition tamperTargetNames :: "gomap \<Rightarrow> string list" where
  "tamperTargetNames ev =
     (case ev_args ev of None \<Rightarrow> []
      | Some args \<Rightarrow>
          filter (\<lambda>v. v \<noteq> [] \<and> \<not> contains v ''/'')
            (map (\<lambda>k. str_or (map_of args k))
              [''name'', ''old_name'', ''new_name'', ''dentry'', ''old_dentry'', ''new_dentry'', ''basename'']))"

definition systemBinaryNames :: "string list" where
  "systemBinaryNames = [''sh'', ''bash'', ''dash'', ''zsh'', ''ash'', ''ksh'',
     ''python'', ''python3'', ''perl'', ''ruby'', ''node'', ''php'', ''lua'',
     ''cat'', ''ls'', ''cp'', ''mv'', ''rm'', ''ln'', ''dd'',
     ''chmod'', ''chown'', ''chgrp'', ''touch'', ''mkdir'', ''find'',
     ''grep'', ''awk'', ''sed'', ''sort'', ''head'', ''tail'', ''cut'',
     ''tr'', ''xargs'', ''tar'', ''gzip'', ''base64'', ''env'', ''echo'',
     ''id'', ''whoami'', ''uname'', ''ps'', ''top'', ''kill'', ''mount'', ''umount'',
     ''sudo'', ''su'', ''passwd'', ''login'', ''chsh'', ''chfn'', ''newgrp'',
     ''curl'', ''wget'', ''nc'', ''ncat'', ''netcat'', ''ss'', ''ip'',
     ''ifconfig'', ''netstat'', ''ssh'', ''scp'', ''sftp'', ''telnet'', ''socat'',
     ''openssl'', ''dpkg'', ''apt'', ''apt-get'', ''apk'', ''yum'', ''dnf'',
     ''rpm'', ''crontab'', ''at'', ''systemctl'', ''service'', ''busybox'']"

definition isSystemBinaryName :: "string \<Rightarrow> bool" where
  "isSystemBinaryName name = (to_lower name \<in> set systemBinaryNames)"

definition tamper_event :: "AnomalyEvent \<Rightarrow> string \<Rightarrow> AnomalyEvent" where
  "tamper_event base p =
     withDetail base KindBinaryTampering (ae_Syscall base @ '' '' @ em_dash @ '' system binary modified/replaced: '' @ p)"

definition evalBinaryTamper :: "gomap \<Rightarrow> AnomalyEvent \<Rightarrow> AnomalyEvent list" where
  "evalBinaryTamper ev base =
     (let paths = tamperTargetPaths ev in
      if paths \<noteq> [] then (case find isSystemBinaryPath paths of Some p \<Rightarrow> [tamper_event base p] | None \<Rightarrow> [])
      else (case find isSystemBinaryName (tamperTargetNames ev) of Some n \<Rightarrow> [tamper_event base n] | None \<Rightarrow> []))"

end
