(* ===== verification/Recon.thy ===== *)
theory Recon
  imports Go_Strings "HOL-Library.AList"
begin

section \<open>Port-scan detection (anomaly/internal/recon/recon.go)\<close>

text \<open>
  The detector keeps, per source deployment and destination address, the ports hit within the last
  minute, and reports a scan when five different ones were hit, then stays quiet for two minutes.
  Times are arguments. Shown: a scan is reported only with at least five different ports that were
  all hit within the window; five different ports within a window are always reported unless the
  pair was reported in the two minutes before; and the reports of one pair are spaced.
\<close>

definition ScanWindow :: duration where "ScanWindow = minute"
definition ScanThreshold :: nat where "ScanThreshold = 5"

definition suspiciousPorts :: "(nat \<times> string) list" where
  "suspiciousPorts = [(22, ''ssh''), (23, ''telnet''), (512, ''rexec''), (513, ''rlogin''), (514, ''rsh''),
     (1080, ''socks-proxy''), (1337, ''c2-common''), (4444, ''metasploit-default''),
     (4445, ''metasploit-alt''), (5555, ''android-adb''), (6666, ''irc-c2''), (6667, ''irc''),
     (7777, ''c2-common''), (8888, ''c2-common''), (9001, ''tor''), (9050, ''tor-socks''),
     (9051, ''tor-control''), (31337, ''elite-c2''), (65535, ''backdoor-common'')]"

datatype AlertKind = RPortScan | RSuspiciousPort

record ReconAlert =
  ra_Kind :: AlertKind
  ra_SrcDeployment :: string
  ra_SrcNamespace :: string
  ra_DstIP :: string
  ra_Ports :: "nat list"
  ra_Port :: nat
  ra_PortLabel :: string
  ra_WindowStart :: gotime
  ra_WindowEnd :: gotime
  ra_Count :: nat

type_synonym portHit = "nat \<times> gotime"
type_synonym windowKey = "string \<times> string"

record portWindow =
  pw_hits :: "portHit list"
  pw_alerted :: bool
  pw_alertedAt :: gotime

definition newWindow :: portWindow where
  "newWindow = \<lparr>pw_hits = [], pw_alerted = False, pw_alertedAt = 0\<rparr>"

text \<open>The loop of \<^verbatim>\<open>uniquePortsInWindow\<close>: the ports in order of first hit, and the fresh hits.\<close>

fun unique_loop :: "gotime \<Rightarrow> portHit list \<Rightarrow> nat list \<Rightarrow> portHit list \<Rightarrow> nat list \<times> portHit list" where
  "unique_loop cutoff [] ports fresh = (ports, fresh)"
| "unique_loop cutoff ((p, ts) # hs) ports fresh =
     (if cutoff < ts
      then unique_loop cutoff hs (if p \<in> set ports then ports else ports @ [p]) (fresh @ [(p, ts)])
      else unique_loop cutoff hs ports fresh)"

definition uniquePortsInWindow :: "gotime \<Rightarrow> portWindow \<Rightarrow> nat list \<times> portWindow" where
  "uniquePortsInWindow now w =
     (let (ports, fresh) = unique_loop (now - ScanWindow) (pw_hits w) [] [] in (ports, w\<lparr>pw_hits := fresh\<rparr>))"

type_synonym windows = "(windowKey \<times> portWindow) list"

definition window_key :: "string \<Rightarrow> string \<Rightarrow> string \<Rightarrow> windowKey" where
  "window_key srcNS srcDep dstIP = (srcNS @ ''/'' @ srcDep, dstIP)"

text \<open>The part of \<^verbatim>\<open>Observe\<close> under the lock: the ports, whether to alert, and the window.\<close>

definition observe_window :: "nat \<Rightarrow> gotime \<Rightarrow> portWindow \<Rightarrow> nat list \<times> bool \<times> portWindow" where
  "observe_window dstPort ts w0 =
     (let (ports, w1) = uniquePortsInWindow ts (w0\<lparr>pw_hits := pw_hits w0 @ [(dstPort, ts)]\<rparr>);
          w2 = (if pw_alerted w1 \<and> ScanWindow * 2 < ts - pw_alertedAt w1 then w1\<lparr>pw_alerted := False\<rparr> else w1);
          shouldAlert = (ScanThreshold \<le> length ports \<and> \<not> pw_alerted w2)
      in (ports, shouldAlert, if shouldAlert then w2\<lparr>pw_alerted := True, pw_alertedAt := ts\<rparr> else w2))"

definition Observe :: "gotime \<Rightarrow> string \<Rightarrow> string \<Rightarrow> string \<Rightarrow> nat \<Rightarrow> gotime \<Rightarrow> windows \<Rightarrow> ReconAlert list \<times> windows" where
  "Observe now srcNS srcDep dstIP dstPort ts0 d =
     (let ts = (if ts0 = 0 then now else ts0);
          susp = (case map_of suspiciousPorts dstPort of None \<Rightarrow> []
                  | Some label \<Rightarrow> [\<lparr>ra_Kind = RSuspiciousPort, ra_SrcDeployment = srcDep, ra_SrcNamespace = srcNS,
                      ra_DstIP = dstIP, ra_Ports = [], ra_Port = dstPort, ra_PortLabel = label,
                      ra_WindowStart = ts, ra_WindowEnd = ts, ra_Count = 1\<rparr>]);
          key = window_key srcNS srcDep dstIP;
          w = (case map_of d key of None \<Rightarrow> newWindow | Some w \<Rightarrow> w);
          (ports, shouldAlert, w') = observe_window dstPort ts w
      in (susp @ (if shouldAlert then [\<lparr>ra_Kind = RPortScan, ra_SrcDeployment = srcDep, ra_SrcNamespace = srcNS,
                      ra_DstIP = dstIP, ra_Ports = ports, ra_Port = 0, ra_PortLabel = [],
                      ra_WindowStart = ts - ScanWindow, ra_WindowEnd = ts, ra_Count = length ports\<rparr>] else []),
          AList.update key w' d))"

definition recon_Stats :: "windows \<Rightarrow> nat \<times> nat" where
  "recon_Stats d = (length d, sum_list (map (length \<circ> pw_hits \<circ> snd) d))"

definition recon_cleanup :: "gotime \<Rightarrow> windows \<Rightarrow> windows" where
  "recon_cleanup now d =
     filter (\<lambda>kw. pw_hits (snd kw) \<noteq> [])
       (map (\<lambda>kw. (fst kw, (snd kw)\<lparr>pw_hits := filter (\<lambda>h. now - ScanWindow * 2 < snd h) (pw_hits (snd kw))\<rparr>)) d)"

subsection \<open>The ports of a window\<close>

lemma unique_loop_spec:
  "unique_loop cutoff hs ports fresh = (ports', fresh') \<Longrightarrow> distinct ports \<Longrightarrow>
     distinct ports' \<and> set ports' = set ports \<union> fst ` {h \<in> set hs. cutoff < snd h}
     \<and> fresh' = fresh @ filter (\<lambda>h. cutoff < snd h) hs"
proof (induction cutoff hs ports fresh rule: unique_loop.induct)
  case (2 cutoff p ts hs ports fresh)
  show ?case
  proof (cases "cutoff < ts")
    case True
    let ?ports = "if p \<in> set ports then ports else ports @ [p]"
    have "distinct ?ports" "set ?ports = insert p (set ports)" using "2.prems"(2) by auto
    with "2.IH"(1) [OF True] "2.prems"(1) True show ?thesis by force
  next
    case False
    with "2.IH"(2) [OF False] "2.prems" show ?thesis by force
  qed
qed simp

lemma uniquePorts_spec:
  assumes "uniquePortsInWindow now w = (ports, w')"
  shows "distinct ports" "set ports = fst ` {h \<in> set (pw_hits w). now - ScanWindow < snd h}"
    "w' = w\<lparr>pw_hits := filter (\<lambda>h. now - ScanWindow < snd h) (pw_hits w)\<rparr>"
proof -
  obtain ps fresh where u: "unique_loop (now - ScanWindow) (pw_hits w) [] [] = (ps, fresh)" by fastforce
  from assms unique_loop_spec [OF u] u
  show "distinct ports" "set ports = fst ` {h \<in> set (pw_hits w). now - ScanWindow < snd h}"
    "w' = w\<lparr>pw_hits := filter (\<lambda>h. now - ScanWindow < snd h) (pw_hits w)\<rparr>"
    by (simp_all add: uniquePortsInWindow_def)
qed

text \<open>The contract of one observation on a window.\<close>

definition recent_ports :: "gotime \<Rightarrow> portHit list \<Rightarrow> nat set" where
  "recent_ports ts hs = fst ` {h \<in> set hs. ts - ScanWindow < snd h}"

lemma observe_window_spec:
  assumes "observe_window p ts w = (ports, b, w')"
  shows "distinct ports" "set ports = insert p (recent_ports ts (pw_hits w))"
    "b \<longleftrightarrow> 5 \<le> card (insert p (recent_ports ts (pw_hits w))) \<and> (pw_alerted w \<longrightarrow> 2 * minute < ts - pw_alertedAt w)"
    "pw_hits w' = filter (\<lambda>h. ts - ScanWindow < snd h) (pw_hits w @ [(p, ts)])"
    "b \<Longrightarrow> pw_alerted w' \<and> pw_alertedAt w' = ts"
    "\<not> b \<Longrightarrow> pw_alertedAt w' = pw_alertedAt w \<and> (pw_alerted w' \<longleftrightarrow> pw_alerted w \<and> ts - pw_alertedAt w \<le> 2 * minute)"
proof -
  let ?w = "w\<lparr>pw_hits := pw_hits w @ [(p, ts)]\<rparr>"
  obtain ps w1 where u: "uniquePortsInWindow ts ?w = (ps, w1)" by fastforce
  note s = uniquePorts_spec [OF u]
  have ports: "ports = ps" using assms u by (simp add: observe_window_def Let_def)
  have setp: "set ps = insert p (recent_ports ts (pw_hits w))"
  proof -
    have "{h \<in> set (pw_hits ?w). ts - ScanWindow < snd h} = insert (p, ts) {h \<in> set (pw_hits w). ts - ScanWindow < snd h}"
      by (auto simp: ScanWindow_def)
    then show ?thesis using s(2) by (simp add: recent_ports_def)
  qed
  have card: "length ps = card (insert p (recent_ports ts (pw_hits w)))"
    using distinct_card [OF s(1)] setp by simp
  show "distinct ports" "set ports = insert p (recent_ports ts (pw_hits w))" using s(1) setp ports by simp_all
  show "b \<longleftrightarrow> 5 \<le> card (insert p (recent_ports ts (pw_hits w))) \<and> (pw_alerted w \<longrightarrow> 2 * minute < ts - pw_alertedAt w)"
    "pw_hits w' = filter (\<lambda>h. ts - ScanWindow < snd h) (pw_hits w @ [(p, ts)])"
    "b \<Longrightarrow> pw_alerted w' \<and> pw_alertedAt w' = ts"
    "\<not> b \<Longrightarrow> pw_alertedAt w' = pw_alertedAt w \<and> (pw_alerted w' \<longleftrightarrow> pw_alerted w \<and> ts - pw_alertedAt w \<le> 2 * minute)"
    using assms u s(3) card
    by (auto simp: observe_window_def Let_def ScanThreshold_def ScanWindow_def simp del: filter_append split: if_splits)
qed


subsection \<open>Runs of the detector\<close>

definition scan_alert :: "ReconAlert list \<Rightarrow> bool" where
  "scan_alert alerts = list_ex (\<lambda>a. ra_Kind a = RPortScan) alerts"

text \<open>
  A run of the detector as seen by one pair \<open>k\<close>: the history of its hits, the times of its scan
  reports, and the time of the last operation. Times do not go back.
\<close>

inductive recon_reach :: "windowKey \<Rightarrow> windows \<Rightarrow> portHit list \<Rightarrow> gotime list \<Rightarrow> gotime \<Rightarrow> bool" for k where
  rr_new: "recon_reach k [] [] [] T"
| rr_hit: "recon_reach k d hist als T \<Longrightarrow> T \<le> ts \<Longrightarrow> ts \<noteq> 0 \<Longrightarrow> window_key ns dep ip = k
    \<Longrightarrow> Observe now ns dep ip p ts d = (alerts, d')
    \<Longrightarrow> recon_reach k d' (hist @ [(p, ts)]) (if scan_alert alerts then als @ [ts] else als) ts"
| rr_other: "recon_reach k d hist als T \<Longrightarrow> T \<le> ts \<Longrightarrow> window_key ns dep ip \<noteq> k
    \<Longrightarrow> Observe now ns dep ip p ts' d = (alerts, d') \<Longrightarrow> recon_reach k d' hist als ts"
| rr_clean: "recon_reach k d hist als T \<Longrightarrow> T \<le> now \<Longrightarrow> recon_reach k (recon_cleanup now d) hist als now"

text \<open>The window of the pair, as the next observation finds it.\<close>

definition window_of :: "windowKey \<Rightarrow> windows \<Rightarrow> portWindow" where
  "window_of k d = (case map_of d k of None \<Rightarrow> newWindow | Some w \<Rightarrow> w)"

definition recon_inv :: "windowKey \<Rightarrow> windows \<Rightarrow> portHit list \<Rightarrow> gotime list \<Rightarrow> gotime \<Rightarrow> bool" where
  "recon_inv k d hist als T \<longleftrightarrow> distinct (map fst d) \<and> set (pw_hits (window_of k d)) \<subseteq> set hist
     \<and> (\<forall>h\<in>set hist. snd h \<le> T \<and> (T - ScanWindow < snd h \<longrightarrow> h \<in> set (pw_hits (window_of k d))))
     \<and> (\<forall>t\<in>set als. t \<le> T \<and> (\<exists>h\<in>set hist. snd h = t))
     \<and> (pw_alerted (window_of k d) \<longrightarrow> als \<noteq> [] \<and> pw_alertedAt (window_of k d) = last als)
     \<and> (als \<noteq> [] \<longrightarrow> pw_alerted (window_of k d) \<or> 2 * minute \<le> T - last als)
     \<and> (hist \<noteq> [] \<longrightarrow> last hist \<in> set (pw_hits (window_of k d)) \<or> 2 * minute \<le> T - snd (last hist))
     \<and> sorted (map snd hist)"

lemma Observe_parts:
  assumes "Observe now ns dep ip p ts d = (alerts, d')" "ts \<noteq> 0" "observe_window p ts (window_of (window_key ns dep ip) d) = (ports, b, w')"
  shows "d' = AList.update (window_key ns dep ip) w' d" "scan_alert alerts = b"
    "b \<Longrightarrow> \<exists>a\<in>set alerts. ra_Kind a = RPortScan \<and> ra_Ports a = ports \<and> ra_Count a = length ports"
  using assms by (cases b; auto simp: Observe_def Let_def window_of_def scan_alert_def split: option.splits)+

lemma window_of_update: "window_of k (AList.update k' w d) = (if k = k' then w else window_of k d)"
  by (simp add: window_of_def update_conv')

lemma map_of_cleanup:
  assumes "distinct (map fst d)"
  shows "map_of (recon_cleanup now d) k =
     (case map_of d k of None \<Rightarrow> None | Some w \<Rightarrow>
        let hs = filter (\<lambda>h. now - ScanWindow * 2 < snd h) (pw_hits w) in if hs = [] then None else Some (w\<lparr>pw_hits := hs\<rparr>))"
  using assms
proof (induction d)
  case (Cons kw d)
  have "map_of (recon_cleanup now d) (fst kw) = None"
    using Cons.prems by (force simp: recon_cleanup_def map_of_eq_None_iff)
  with Cons show ?case by (cases kw) (auto simp: recon_cleanup_def Let_def)
qed (simp add: recon_cleanup_def)

lemma distinct_cleanup: "distinct (map fst d) \<Longrightarrow> distinct (map fst (recon_cleanup now d))"
  by (simp add: recon_cleanup_def distinct_map_filter comp_def)


lemma last_alert_hit:
  assumes "sorted (map snd hist)" "\<forall>t\<in>set als. \<exists>h\<in>set hist. snd h = t" "als \<noteq> []"
  shows "hist \<noteq> [] \<and> last als \<le> snd (last hist)"
proof -
  from assms(2,3) obtain h where h: "h \<in> set hist" "snd h = last als" by (meson last_in_set)
  then obtain i where i: "i < length hist" "hist ! i = h" by (auto simp: in_set_conv_nth)
  then have "map snd hist ! i \<le> map snd hist ! (length hist - 1)"
    using assms(1) by (intro sorted_nth_mono) auto
  moreover have "hist \<noteq> []" using i by auto
  ultimately show ?thesis using i h by (simp add: last_conv_nth)
qed

lemma recon_invD:
  assumes "recon_inv k d hist als T"
  shows "set (pw_hits (window_of k d)) \<subseteq> set hist"
    "h \<in> set hist \<Longrightarrow> snd h \<le> T \<and> (T - ScanWindow < snd h \<longrightarrow> h \<in> set (pw_hits (window_of k d)))"
    "x \<in> set als \<Longrightarrow> x \<le> T \<and> (\<exists>h\<in>set hist. snd h = x)"
    "pw_alerted (window_of k d) \<Longrightarrow> als \<noteq> [] \<and> pw_alertedAt (window_of k d) = last als"
    "als \<noteq> [] \<Longrightarrow> pw_alerted (window_of k d) \<or> 2 * minute \<le> T - last als"
    "hist \<noteq> [] \<Longrightarrow> last hist \<in> set (pw_hits (window_of k d)) \<or> 2 * minute \<le> T - snd (last hist)"
    "sorted (map snd hist)" "distinct (map fst d)"
  using assms by (simp_all add: recon_inv_def)

lemma recon_inv_hit:
  assumes inv: "recon_inv k d hist als T" and t: "T \<le> ts" "ts \<noteq> 0" and k: "window_key ns dep ip = k"
    and o: "Observe now ns dep ip p ts d = (alerts, d')"
  shows "recon_inv k d' (hist @ [(p, ts)]) (if scan_alert alerts then als @ [ts] else als) ts"
proof -
  obtain ports b w' where w: "observe_window p ts (window_of k d) = (ports, b, w')" by (metis prod_cases3)
  note parts = Observe_parts [OF o t(2) w [folded k]] and s = observe_window_spec [OF w]
  have win: "window_of k d' = w'" by (simp add: parts(1) window_of_update k)
  have hits: "set (pw_hits w') = insert (p, ts) {h \<in> set (pw_hits (window_of k d)). ts - ScanWindow < snd h}"
    by (auto simp: s(4) ScanWindow_def)
  have dist: "distinct (map fst d')" using inv by (simp add: parts(1) recon_inv_def distinct_update)
  note I = recon_invD [OF inv]
  let ?als = "if b then als @ [ts] else als"
  have "\<forall>h\<in>set (hist @ [(p, ts)]). snd h \<le> ts \<and> (ts - ScanWindow < snd h \<longrightarrow> h \<in> set (pw_hits w'))"
  proof
    fix h assume "h \<in> set (hist @ [(p, ts)])"
    then consider "h = (p, ts)" | "h \<in> set hist" by auto
    then show "snd h \<le> ts \<and> (ts - ScanWindow < snd h \<longrightarrow> h \<in> set (pw_hits w'))"
    proof cases
      case 2
      with I(2) [of h] t(1) show ?thesis by (auto simp: hits)
    qed (simp add: hits)
  qed
  moreover have "sorted (map snd (hist @ [(p, ts)]))"
    using I(2,7) t(1) by (auto simp: sorted_append intro: order_trans)
  moreover have "set (pw_hits w') \<subseteq> set (hist @ [(p, ts)])" using I(1) by (auto simp: hits)
  moreover have "\<forall>x\<in>set ?als. x \<le> ts \<and> (\<exists>h\<in>set (hist @ [(p, ts)]). snd h = x)"
  proof
    fix x assume "x \<in> set ?als"
    then have "x = ts \<or> x \<in> set als" by (auto split: if_splits)
    with I(3) [of x] t(1) show "x \<le> ts \<and> (\<exists>h\<in>set (hist @ [(p, ts)]). snd h = x)" by auto
  qed
  moreover have "pw_alerted w' \<longrightarrow> ?als \<noteq> [] \<and> pw_alertedAt w' = last ?als"
    using I(4) s(5,6) by (cases b) simp_all
  moreover have "?als \<noteq> [] \<longrightarrow> pw_alerted w' \<or> 2 * minute \<le> ts - last ?als"
    using I(4,5) s(5,6) t(1) by (cases b) auto
  ultimately show ?thesis using dist win hits by (simp add: recon_inv_def parts(2))
qed

lemma recon_inv_clean:
  assumes inv: "recon_inv k d hist als T" and t: "T \<le> now"
  shows "recon_inv k (recon_cleanup now d) hist als now"
proof -
  let ?w = "window_of k d" and ?w' = "window_of k (recon_cleanup now d)"
  let ?hs = "filter (\<lambda>h. now - ScanWindow * 2 < snd h) (pw_hits ?w)"
  have d: "distinct (map fst d)" using inv by (simp add: recon_inv_def)
  have w': "?w' = (if ?hs = [] then newWindow else ?w\<lparr>pw_hits := ?hs\<rparr>)"
    by (auto simp: window_of_def map_of_cleanup [OF d] Let_def newWindow_def split: option.splits)
  then have hits: "pw_hits ?w' = ?hs" by (simp add: newWindow_def)
  have late: "2 * minute \<le> now - snd (last hist)" if "hist \<noteq> []" "last hist \<notin> set ?hs"
    using inv that t by (auto simp: recon_inv_def ScanWindow_def)
  have "als \<noteq> [] \<longrightarrow> pw_alerted ?w' \<or> 2 * minute \<le> now - last als"
  proof
    assume a: "als \<noteq> []"
    with inv have l: "hist \<noteq> []" "last als \<le> snd (last hist)"
      using last_alert_hit [of hist als] by (auto simp: recon_inv_def)
    show "pw_alerted ?w' \<or> 2 * minute \<le> now - last als"
    proof (cases "?hs = []")
      case True
      with late l show ?thesis by force
    next
      case False
      with inv a t w' show ?thesis by (auto simp: recon_inv_def)
    qed
  qed
  moreover have "pw_alerted ?w' \<longrightarrow> als \<noteq> [] \<and> pw_alertedAt ?w' = last als"
    using inv w' by (auto simp: recon_inv_def newWindow_def)
  moreover have "\<forall>h\<in>set hist. snd h \<le> now \<and> (now - ScanWindow < snd h \<longrightarrow> h \<in> set ?hs)"
    using inv t by (force simp: recon_inv_def ScanWindow_def)
  moreover have "set ?hs \<subseteq> set hist" "\<forall>x\<in>set als. x \<le> now \<and> (\<exists>h\<in>set hist. snd h = x)" "sorted (map snd hist)"
    using inv t by (auto simp: recon_inv_def)
  ultimately show ?thesis using late distinct_cleanup [OF d] by (auto simp: recon_inv_def hits)
qed

lemma recon_reach_inv: "recon_reach k d hist als T \<Longrightarrow> recon_inv k d hist als T"
proof (induction rule: recon_reach.induct)
  case (rr_new T)
  show ?case by (simp add: recon_inv_def window_of_def newWindow_def)
next
  case (rr_other d hist als T ts ns dep ip now p ts' alerts d')
  obtain w' where "d' = AList.update (window_key ns dep ip) w' d"
    using rr_other.hyps(4) by (auto simp: Observe_def Let_def case_prod_beta)
  with rr_other.hyps(2,3) rr_other.IH show ?case
    by (force simp: recon_inv_def window_of_update distinct_update)
next
  case (rr_hit d hist als T ts ns dep ip now p alerts d')
  from recon_inv_hit [OF rr_hit.IH rr_hit.hyps(2-5)] show ?case .
next
  case (rr_clean d hist als T now)
  from recon_inv_clean [OF rr_clean.IH rr_clean.hyps(2)] show ?case .
qed


lemma recent_ports_window:
  assumes "recon_inv k d hist als T" "T \<le> ts"
  shows "recent_ports ts (pw_hits (window_of k d)) = recent_ports ts hist"
proof -
  have "{h \<in> set (pw_hits (window_of k d)). ts - ScanWindow < snd h} = {h \<in> set hist. ts - ScanWindow < snd h}"
    using recon_invD(1,2) [OF assms(1)] assms(2) by fastforce
  then show ?thesis by (simp add: recent_ports_def)
qed

lemma recent_ports_set: "recent_ports ts hs = set (map fst (filter (\<lambda>h. ts - ScanWindow < snd h) hs))"
  by (simp add: recent_ports_def)

text \<open>C26. Port scans are detected, and nothing else is reported as one. In every run of the
  detector, an observation of a pair of source deployment and destination reports a scan only when
  at least five different ports were hit within the last minute, with exactly these ports, and at
  least two minutes after the pair's previous report; and it does report one whenever five different
  ports were hit within the last minute and the previous report is more than two minutes old.\<close>

theorem port_scan_detected:
  assumes "recon_reach k d hist als T" "T \<le> ts" "ts \<noteq> 0" "window_key ns dep ip = k"
    and "Observe now ns dep ip p ts d = (alerts, d')"
  shows "(scan_alert alerts \<longrightarrow> 5 \<le> card (insert p (recent_ports ts hist))
      \<and> (\<exists>a\<in>set alerts. ra_Kind a = RPortScan \<and> set (ra_Ports a) = insert p (recent_ports ts hist))
      \<and> (als \<noteq> [] \<longrightarrow> 2 * minute \<le> ts - last als))
    \<and> (5 \<le> card (insert p (recent_ports ts hist)) \<and> (als \<noteq> [] \<longrightarrow> 2 * minute < ts - last als) \<longrightarrow> scan_alert alerts)"
proof -
  note inv = recon_reach_inv [OF assms(1)]
  obtain ports b w' where w: "observe_window p ts (window_of k d) = (ports, b, w')" by (metis prod_cases3)
  note parts = Observe_parts [OF assms(5,3) w [folded assms(4)]]
    and s = observe_window_spec [OF w, unfolded recent_ports_window [OF inv assms(2)]] and I = recon_invD [OF inv]
  have late: "als \<noteq> [] \<Longrightarrow> b \<Longrightarrow> 2 * minute \<le> ts - last als"
    using I(4,5) s(3) assms(2) by force
  have "als \<noteq> [] \<Longrightarrow> 2 * minute < ts - last als \<Longrightarrow> pw_alerted (window_of k d) \<Longrightarrow> 2 * minute < ts - pw_alertedAt (window_of k d)"
    using I(4) by simp
  moreover have "als = [] \<Longrightarrow> \<not> pw_alerted (window_of k d)" using I(4) by auto
  ultimately have "5 \<le> card (insert p (recent_ports ts hist)) \<and> (als \<noteq> [] \<longrightarrow> 2 * minute < ts - last als) \<longrightarrow> b"
    using s(3) by blast
  with parts(2,3) s(2,3) late show ?thesis by metis
qed

text \<open>Five ports within a minute.\<close>

definition scan_times :: "(nat \<times> gotime) list" where
  "scan_times = [(80, 1), (81, 2), (82, 3), (83, 4)]"

definition scan_state :: windows where
  "scan_state = [((''ns/dep'', ''10.0.0.1''), \<lparr>pw_hits = scan_times, pw_alerted = False, pw_alertedAt = 0\<rparr>)]"

lemma scan_reach: "recon_reach (''ns/dep'', ''10.0.0.1'') scan_state scan_times [] 4"
proof -
  let ?k = "(''ns/dep'', ''10.0.0.1'')" and ?w = "\<lambda>hs. [((''ns/dep'', ''10.0.0.1''), \<lparr>pw_hits = hs, pw_alerted = False, pw_alertedAt = 0\<rparr>)]"
  have k: "window_key ''ns'' ''dep'' ''10.0.0.1'' = ?k" by (simp add: window_key_def)
  have o: "Observe 0 ''ns'' ''dep'' ''10.0.0.1'' 80 1 [] = ([], ?w [(80, 1)])"
    "Observe 0 ''ns'' ''dep'' ''10.0.0.1'' 81 2 (?w [(80, 1)]) = ([], ?w [(80, 1), (81, 2)])"
    "Observe 0 ''ns'' ''dep'' ''10.0.0.1'' 82 3 (?w [(80, 1), (81, 2)]) = ([], ?w [(80, 1), (81, 2), (82, 3)])"
    "Observe 0 ''ns'' ''dep'' ''10.0.0.1'' 83 4 (?w [(80, 1), (81, 2), (82, 3)]) = ([], ?w scan_times)"
    by (simp_all add: Observe_def suspiciousPorts_def k newWindow_def observe_window_def uniquePortsInWindow_def ScanWindow_def
      ScanThreshold_def scan_times_def)
  note r = rr_hit [OF _ _ _ k]
  from r [OF rr_new [of ?k 0] _ _ o(1)] have "recon_reach ?k (?w [(80, 1)]) [(80, 1)] [] 1" by (simp add: scan_alert_def)
  from r [OF this _ _ o(2)] have "recon_reach ?k (?w [(80, 1), (81, 2)]) [(80, 1), (81, 2)] [] 2" by (simp add: scan_alert_def)
  from r [OF this _ _ o(3)] have "recon_reach ?k (?w [(80, 1), (81, 2), (82, 3)]) [(80, 1), (81, 2), (82, 3)] [] 3"
    by (simp add: scan_alert_def)
  from r [OF this _ _ o(4)] show ?thesis by (simp add: scan_alert_def scan_state_def scan_times_def)
qed

theorem port_scan_detected_witness: "scan_alert (fst (Observe 0 ''ns'' ''dep'' ''10.0.0.1'' 443 5 scan_state))"
proof -
  have "recent_ports 5 scan_times = {80, 81, 82, 83}"
    by (simp add: recent_ports_set scan_times_def ScanWindow_def)
  then have "card (insert 443 (recent_ports 5 scan_times)) = 5" by simp
  with port_scan_detected [OF scan_reach, of 5 "''ns''" "''dep''" "''10.0.0.1''" 0 443
      "fst (Observe 0 ''ns'' ''dep'' ''10.0.0.1'' 443 5 scan_state)" "snd (Observe 0 ''ns'' ''dep'' ''10.0.0.1'' 443 5 scan_state)"]
  show ?thesis by (simp add: window_key_def)
qed

end
