(* ===== verification/Anomaly_Baseline.thy ===== *)
theory Anomaly_Baseline
  imports Go_Net "HOL-Library.AList"
begin

section \<open>Network and binary baselines (anomaly/internal/baseline)\<close>

text \<open>
  Per deployment the store learns, during an observation period, the peers it talks to and the
  binaries it runs, and afterwards classifies what it sees as known or anomalous. Operators may
  lock a baseline and move peers between the baseline and the forbidden list. Changed baselines
  are marked dirty and written to the database by a later flush, whose success per key is an
  argument; a database row holds the baseline itself (its JSON encoding is left out).
\<close>

subsection \<open>Entities and peers\<close>

datatype EntityType = EntityDeployment | EntityExternalSource | EntityInternet | EntityInternal | EntityOther string

definition valid_type :: "EntityType \<Rightarrow> bool" where
  "valid_type t = (case t of EntityOther _ \<Rightarrow> False | _ \<Rightarrow> True)"

datatype Protocol = TCP | UDP

record Entity =
  en_ID :: string
  en_Type :: EntityType
  en_Name :: string
  en_Discovered :: bool

definition InternetEntity :: Entity where
  "InternetEntity = \<lparr>en_ID = ''internet'', en_Type = EntityInternet, en_Name = ''Internet'', en_Discovered = False\<rparr>"

definition AnonymizeExternalDiscoveredEntity :: "Entity \<Rightarrow> Entity" where
  "AnonymizeExternalDiscoveredEntity e =
     (if en_Type e = EntityExternalSource \<and> en_Discovered e then InternetEntity else e)"

definition bucketToCIDR :: "string \<Rightarrow> string" where
  "bucketToCIDR s =
     (case parse_IP s of None \<Rightarrow> s
      | Some parsed \<Rightarrow>
        (case to4 parsed of
           Some v4 \<Rightarrow> ip_string (the (ip_mask v4 (CIDRMask 24 32))) @ ''/24''
         | None \<Rightarrow> ip_string (the (ip_mask parsed (CIDRMask 48 128))) @ ''/48''))"

definition ExternalEntity :: "string \<Rightarrow> Entity" where
  "ExternalEntity s = (let cidr = bucketToCIDR s in
     \<lparr>en_ID = cidr, en_Type = EntityExternalSource, en_Name = cidr, en_Discovered = False\<rparr>)"

record Peer =
  pe_IsIngress :: bool
  pe_Entity :: Entity
  pe_DstPort :: nat
  pe_Protocol :: Protocol
  pe_CidrBlock :: string

definition cidrOf :: "Entity \<Rightarrow> string" where
  "cidrOf e = (if en_Type e = EntityExternalSource then en_Name e else [])"

subsection \<open>The store\<close>

record BaselineInfo =
  bi_Namespace :: string
  bi_DeploymentName :: string
  bi_DeploymentID :: string
  bi_ObservationPeriodEnd :: gotime
  bi_UserLocked :: bool
  bi_BaselinePeers :: "Peer set"
  bi_ForbiddenPeers :: "Peer set"
  bi_BaselineBinaries :: "string set"

record Store =
  bs_baselines :: "string \<rightharpoonup> BaselineInfo"
  bs_pool :: bool
  bs_observationPeriod :: duration
  bs_dirty :: "string set"
  bs_notify :: bool
  bs_rows :: "string \<rightharpoonup> BaselineInfo"

definition DefaultObservationPeriod :: duration where "DefaultObservationPeriod = 10 * 24 * hour"

definition baseline_New :: "bool \<Rightarrow> duration \<Rightarrow> Store" where
  "baseline_New pool period = \<lparr>bs_baselines = Map.empty, bs_pool = pool,
     bs_observationPeriod = (if period = 0 then DefaultObservationPeriod else period), bs_dirty = {}, bs_notify = False,
     bs_rows = Map.empty\<rparr>"

definition ensureBaseline :: "gotime \<Rightarrow> Entity \<Rightarrow> Store \<Rightarrow> string \<times> Store" where
  "ensureBaseline now e s =
     (if en_Type e \<noteq> EntityDeployment then ([], s)
      else let key = en_ID e in
        case bs_baselines s key of Some _ \<Rightarrow> (key, s)
        | None \<Rightarrow>
          (let (before, after, ok) = cut (CHR ''/'') key; ns = (if ok then before else []) in
           (key, s\<lparr>bs_baselines := (bs_baselines s)(key \<mapsto> \<lparr>bi_Namespace = ns, bi_DeploymentName = en_Name e, bi_DeploymentID = key,
              bi_ObservationPeriodEnd = now + bs_observationPeriod s, bi_UserLocked = False, bi_BaselinePeers = {},
              bi_ForbiddenPeers = {}, bi_BaselineBinaries = {}\<rparr>)\<rparr>)))"

definition markDirty :: "string set \<Rightarrow> Store \<Rightarrow> Store" where
  "markDirty keys s =
     (if \<not> bs_pool s \<or> keys = {} then s else s\<lparr>bs_dirty := bs_dirty s \<union> keys, bs_notify := True\<rparr>)"

subsection \<open>Flows and executions\<close>

record ConnIndicator =
  ci_SrcEntity :: Entity
  ci_DstEntity :: Entity
  ci_DstPort :: nat
  ci_Protocol :: Protocol
  ci_FlowTS :: gotime

datatype EvaluateResult = ResultObserving | ResultKnown | ResultAnomaly

fun update_loop :: "gotime \<Rightarrow> string list \<Rightarrow> bool \<Rightarrow> Store \<Rightarrow> bool" where
  "update_loop t [] one s = one"
| "update_loop t (k # ks) one s =
     (if k = [] then update_loop t ks one s
      else case bs_baselines s k of None \<Rightarrow> False
      | Some b \<Rightarrow> if bi_UserLocked b then False
                  else update_loop t ks (one \<or> t < bi_ObservationPeriodEnd b) s)"

definition shouldUpdate :: "gotime \<Rightarrow> string \<Rightarrow> string \<Rightarrow> gotime \<Rightarrow> Store \<Rightarrow> bool" where
  "shouldUpdate now srcDep dstDep flowTS s =
     update_loop (if flowTS = 0 then now else flowTS) [srcDep, dstDep] False s"

definition maybeAddPeer :: "string \<Rightarrow> Peer \<Rightarrow> string set \<Rightarrow> Store \<Rightarrow> string set \<times> Store" where
  "maybeAddPeer depKey p modified s =
     (case bs_baselines s depKey of None \<Rightarrow> (modified, s)
      | Some b \<Rightarrow>
        if p \<in> bi_ForbiddenPeers b then (modified, s)
        else if p \<in> bi_BaselinePeers b then (modified, s)
        else (insert depKey modified,
              s\<lparr>bs_baselines := (bs_baselines s)(depKey \<mapsto> b\<lparr>bi_BaselinePeers := insert p (bi_BaselinePeers b)\<rparr>)\<rparr>))"

definition egress_peer :: "ConnIndicator \<Rightarrow> Peer" where
  "egress_peer conn = (let anonDst = AnonymizeExternalDiscoveredEntity (ci_DstEntity conn) in
     \<lparr>pe_IsIngress = False, pe_Entity = anonDst, pe_DstPort = ci_DstPort conn, pe_Protocol = ci_Protocol conn,
      pe_CidrBlock = cidrOf anonDst\<rparr>)"

definition ingress_peer :: "ConnIndicator \<Rightarrow> Peer" where
  "ingress_peer conn = (let anonSrc = AnonymizeExternalDiscoveredEntity (ci_SrcEntity conn) in
     \<lparr>pe_IsIngress = True, pe_Entity = anonSrc, pe_DstPort = ci_DstPort conn, pe_Protocol = ci_Protocol conn,
      pe_CidrBlock = cidrOf anonSrc\<rparr>)"

definition isUnknownLockedPeer :: "gotime \<Rightarrow> string \<Rightarrow> Peer \<Rightarrow> Store \<Rightarrow> bool" where
  "isUnknownLockedPeer now depKey p s =
     (case bs_baselines s depKey of None \<Rightarrow> False
      | Some b \<Rightarrow> if \<not> bi_UserLocked b \<and> now < bi_ObservationPeriodEnd b then False else p \<notin> bi_BaselinePeers b)"

definition classifyLockedFlow :: "gotime \<Rightarrow> string \<Rightarrow> string \<Rightarrow> ConnIndicator \<Rightarrow> Store \<Rightarrow> EvaluateResult" where
  "classifyLockedFlow now srcDepKey dstDepKey conn s =
     (if en_Type (ci_SrcEntity conn) = EntityDeployment \<and> srcDepKey \<noteq> []
         \<and> isUnknownLockedPeer now srcDepKey (egress_peer conn) s then ResultAnomaly
      else if en_Type (ci_DstEntity conn) = EntityDeployment \<and> dstDepKey \<noteq> []
         \<and> isUnknownLockedPeer now dstDepKey (ingress_peer conn) s then ResultAnomaly
      else ResultKnown)"

definition bad_entity :: "Entity \<Rightarrow> bool" where
  "bad_entity e = (\<not> valid_type (en_Type e) \<or> en_ID e = [])"

definition ProcessFlowUpdate :: "gotime \<Rightarrow> ConnIndicator \<Rightarrow> Store \<Rightarrow> EvaluateResult \<times> Store" where
  "ProcessFlowUpdate now conn s =
     (if bad_entity (ci_SrcEntity conn) \<or> bad_entity (ci_DstEntity conn) then (ResultKnown, s)
      else
        let (srcDepKey, s1) = ensureBaseline now (ci_SrcEntity conn) s;
            (dstDepKey, s2) = ensureBaseline now (ci_DstEntity conn) s1
        in if \<not> shouldUpdate now srcDepKey dstDepKey (ci_FlowTS conn) s2
           then (classifyLockedFlow now srcDepKey dstDepKey conn s2, s2)
           else
             let (m1, s3) = (if en_Type (ci_SrcEntity conn) = EntityDeployment \<and> srcDepKey \<noteq> []
                             then maybeAddPeer srcDepKey (egress_peer conn) {} s2 else ({}, s2));
                 (m2, s4) = (if en_Type (ci_DstEntity conn) = EntityDeployment \<and> dstDepKey \<noteq> []
                             then maybeAddPeer dstDepKey (ingress_peer conn) m1 s3 else (m1, s3))
             in (ResultObserving, markDirty m2 s4))"

definition ProcessExecUpdate :: "gotime \<Rightarrow> string \<Rightarrow> string \<Rightarrow> string \<Rightarrow> gotime \<Rightarrow> Store \<Rightarrow> EvaluateResult \<times> Store" where
  "ProcessExecUpdate now ns depName binary execTS s =
     (if ns = [] \<or> depName = [] \<or> binary = [] then (ResultKnown, s)
      else
        let (key, s1) = ensureBaseline now \<lparr>en_ID = ns @ ''/'' @ depName, en_Type = EntityDeployment, en_Name = depName,
              en_Discovered = False\<rparr> s
        in case bs_baselines s1 key of None \<Rightarrow> (ResultKnown, s1)
        | Some b \<Rightarrow>
          (let compareTime = (if execTS = 0 then now else execTS);
               locked = (bi_UserLocked b \<or> \<not> compareTime < bi_ObservationPeriodEnd b)
           in if \<not> locked then
                (ResultObserving,
                 if binary \<in> bi_BaselineBinaries b then s1
                 else markDirty {key} (s1\<lparr>bs_baselines := (bs_baselines s1)(key \<mapsto>
                        b\<lparr>bi_BaselineBinaries := insert binary (bi_BaselineBinaries b)\<rparr>)\<rparr>))
              else (if binary \<in> bi_BaselineBinaries b then ResultKnown else ResultAnomaly, s1)))"

subsection \<open>Operators, persistence, restart\<close>

definition mutateBaseline :: "string \<Rightarrow> string \<Rightarrow> (BaselineInfo \<Rightarrow> BaselineInfo) \<Rightarrow> Store \<Rightarrow> Store" where
  "mutateBaseline ns depName fn s =
     (let key = ns @ ''/'' @ depName in
      case bs_baselines s key of None \<Rightarrow> s
      | Some b \<Rightarrow> markDirty {key} (s\<lparr>bs_baselines := (bs_baselines s)(key \<mapsto> fn b)\<rparr>))"

definition MarkForbidden :: "string \<Rightarrow> string \<Rightarrow> Peer \<Rightarrow> Store \<Rightarrow> Store" where
  "MarkForbidden ns depName p = mutateBaseline ns depName
     (\<lambda>b. b\<lparr>bi_BaselinePeers := bi_BaselinePeers b - {p}, bi_ForbiddenPeers := insert p (bi_ForbiddenPeers b)\<rparr>)"

definition MarkBaseline :: "string \<Rightarrow> string \<Rightarrow> Peer \<Rightarrow> Store \<Rightarrow> Store" where
  "MarkBaseline ns depName p = mutateBaseline ns depName
     (\<lambda>b. b\<lparr>bi_BaselinePeers := insert p (bi_BaselinePeers b), bi_ForbiddenPeers := bi_ForbiddenPeers b - {p}\<rparr>)"

definition LockBaseline :: "string \<Rightarrow> string \<Rightarrow> Store \<Rightarrow> Store" where
  "LockBaseline ns depName = mutateBaseline ns depName (\<lambda>b. b\<lparr>bi_UserLocked := True\<rparr>)"

text \<open>\<open>ok k\<close>: the database accepted the row of \<open>k\<close>. A failed write is only logged.\<close>

definition persistModified :: "(string \<Rightarrow> bool) \<Rightarrow> string set \<Rightarrow> Store \<Rightarrow> Store" where
  "persistModified ok keys s =
     (if \<not> bs_pool s then s
      else s\<lparr>bs_rows := (\<lambda>k. if k \<in> keys \<and> ok k \<and> bs_baselines s k \<noteq> None then bs_baselines s k else bs_rows s k)\<rparr>)"

definition flushDirty :: "(string \<Rightarrow> bool) \<Rightarrow> Store \<Rightarrow> Store" where
  "flushDirty ok s =
     (if bs_dirty s = {} then s else persistModified ok (bs_dirty s) (s\<lparr>bs_dirty := {}\<rparr>))"

text \<open>\<^verbatim>\<open>Load\<close> at a restart: rows are keyed by the namespace and deployment they name.\<close>

definition row_key :: "BaselineInfo \<Rightarrow> string" where
  "row_key b = bi_Namespace b @ ''/'' @ bi_DeploymentName b"

definition Load :: "BaselineInfo list \<Rightarrow> Store \<Rightarrow> Store" where
  "Load rows s =
     (if \<not> bs_pool s then s else s\<lparr>bs_baselines := fold (\<lambda>b m. m(row_key b \<mapsto> b)) rows (bs_baselines s)\<rparr>)"

definition baseline_state :: "gotime \<Rightarrow> BaselineInfo \<Rightarrow> string" where
  "baseline_state now b =
     (if bi_UserLocked b then ''user_locked''
      else if bi_ObservationPeriodEnd b < now then ''locked'' else ''observing'')"

definition StateMap :: "gotime \<Rightarrow> Store \<Rightarrow> string \<Rightarrow> string option" where
  "StateMap now s k = map_option (baseline_state now) (bs_baselines s k)"


subsection \<open>Invariants\<close>

definition pristine :: "BaselineInfo \<Rightarrow> bool" where
  "pristine b \<longleftrightarrow> bi_BaselinePeers b = {} \<and> bi_ForbiddenPeers b = {} \<and> bi_BaselineBinaries b = {} \<and> \<not> bi_UserLocked b"

text \<open>A deployment named as the consumer names it: namespace, slash, name.\<close>

definition named :: "Entity \<Rightarrow> bool" where
  "named e \<longleftrightarrow> en_Type e = EntityDeployment \<longrightarrow> (\<exists>ns. CHR ''/'' \<notin> set ns \<and> en_ID e = ns @ ''/'' @ en_Name e)"

text \<open>Runs of the store; \<open>fails\<close> tells whether a flush may fail.\<close>

inductive baseline_reach :: "bool \<Rightarrow> Store \<Rightarrow> bool" for fails where
  br_new: "baseline_reach fails (baseline_New pool period)"
| br_flow: "baseline_reach fails s \<Longrightarrow> named (ci_SrcEntity conn) \<Longrightarrow> named (ci_DstEntity conn)
    \<Longrightarrow> baseline_reach fails (snd (ProcessFlowUpdate now conn s))"
| br_exec: "baseline_reach fails s \<Longrightarrow> CHR ''/'' \<notin> set ns \<Longrightarrow> baseline_reach fails (snd (ProcessExecUpdate now ns dep bin ts s))"
| br_forbid: "baseline_reach fails s \<Longrightarrow> baseline_reach fails (MarkForbidden ns dep p s)"
| br_allow: "baseline_reach fails s \<Longrightarrow> baseline_reach fails (MarkBaseline ns dep p s)"
| br_lock: "baseline_reach fails s \<Longrightarrow> baseline_reach fails (LockBaseline ns dep s)"
| br_flush: "baseline_reach fails s \<Longrightarrow> fails \<or> (\<forall>k. ok k) \<Longrightarrow> baseline_reach fails (flushDirty ok s)"

definition entry_ok :: "bool \<Rightarrow> Store \<Rightarrow> string \<Rightarrow> BaselineInfo \<Rightarrow> bool" where
  "entry_ok fails s k b \<longleftrightarrow> bi_BaselinePeers b \<inter> bi_ForbiddenPeers b = {} \<and> row_key b = k \<and> bi_DeploymentID b = k
     \<and> (bs_pool s \<and> \<not> fails \<longrightarrow> k \<in> bs_dirty s \<or> bs_rows s k = Some b \<or> bs_rows s k = None \<and> pristine b)"

definition store_inv :: "bool \<Rightarrow> Store \<Rightarrow> bool" where
  "store_inv fails s \<longleftrightarrow> (\<forall>k b. bs_baselines s k = Some b \<longrightarrow> entry_ok fails s k b)
     \<and> (\<forall>k b. bs_rows s k = Some b \<longrightarrow> row_key b = k \<and> bs_baselines s k \<noteq> None)"

lemma cut_named: "CHR ''/'' \<notin> set ns \<Longrightarrow> cut (CHR ''/'') (ns @ CHR ''/'' # rest) = (ns, rest, True)"
  by (induction ns) auto

lemma markDirty_sel [simp]: "bs_baselines (markDirty ks s) = bs_baselines s" "bs_rows (markDirty ks s) = bs_rows s"
  "bs_pool (markDirty ks s) = bs_pool s" "bs_observationPeriod (markDirty ks s) = bs_observationPeriod s"
  "bs_pool s \<Longrightarrow> bs_dirty (markDirty ks s) = bs_dirty s \<union> ks"
  by (auto simp: markDirty_def)

text \<open>A changed entry is fine when its key is marked dirty.\<close>

lemma store_inv_change:
  assumes "store_inv fails s" "bs_baselines s k = Some b" "row_key b' = row_key b" "bi_DeploymentID b' = bi_DeploymentID b"
    and "bi_BaselinePeers b' \<inter> bi_ForbiddenPeers b' = {}" "k \<in> ks"
  shows "store_inv fails (markDirty ks (s\<lparr>bs_baselines := (bs_baselines s)(k \<mapsto> b')\<rparr>))"
  using assms by (auto simp: store_inv_def entry_ok_def)

lemma store_inv_mutate:
  assumes "store_inv fails s" "\<And>b. row_key (fn b) = row_key b \<and> bi_DeploymentID (fn b) = bi_DeploymentID b"
    and "\<And>b. bi_BaselinePeers b \<inter> bi_ForbiddenPeers b = {} \<Longrightarrow> bi_BaselinePeers (fn b) \<inter> bi_ForbiddenPeers (fn b) = {}"
  shows "store_inv fails (mutateBaseline ns dep fn s)"
proof (cases "bs_baselines s (ns @ ''/'' @ dep)")
  case (Some b)
  have "bi_BaselinePeers b \<inter> bi_ForbiddenPeers b = {}" using assms(1) Some by (simp add: store_inv_def entry_ok_def)
  with assms Some store_inv_change [OF assms(1) Some, of "fn b" "{ns @ ''/'' @ dep}"] show ?thesis
    by (simp add: mutateBaseline_def Let_def)
qed (use assms in \<open>simp add: mutateBaseline_def Let_def\<close>)

lemma store_inv_ensure:
  assumes "store_inv fails s" "named e" "ensureBaseline now e s = (k, s')" "\<not> bad_entity e"
  shows "store_inv fails s'" "en_Type e = EntityDeployment \<Longrightarrow> k = en_ID e \<and> bs_baselines s' k \<noteq> None"
    "en_Type e \<noteq> EntityDeployment \<Longrightarrow> k = [] \<and> s' = s" "bs_rows s' = bs_rows s" "bs_dirty s' = bs_dirty s"
proof -
  have "store_inv fails s' \<and> (en_Type e = EntityDeployment \<longrightarrow> k = en_ID e \<and> bs_baselines s' k \<noteq> None)
      \<and> (en_Type e \<noteq> EntityDeployment \<longrightarrow> k = [] \<and> s' = s) \<and> bs_rows s' = bs_rows s \<and> bs_dirty s' = bs_dirty s"
  proof (cases "en_Type e = EntityDeployment \<and> bs_baselines s (en_ID e) = None")
    case True
    with assms(2) obtain ns where ns: "CHR ''/'' \<notin> set ns" "en_ID e = ns @ CHR ''/'' # en_Name e" by (auto simp: named_def)
    let ?b = "\<lparr>bi_Namespace = ns, bi_DeploymentName = en_Name e, bi_DeploymentID = en_ID e,
      bi_ObservationPeriodEnd = now + bs_observationPeriod s, bi_UserLocked = False, bi_BaselinePeers = {},
      bi_ForbiddenPeers = {}, bi_BaselineBinaries = {}\<rparr>"
    have s': "k = en_ID e" "s' = s\<lparr>bs_baselines := (bs_baselines s)(en_ID e \<mapsto> ?b)\<rparr>"
      using assms(3) True ns by (auto simp: ensureBaseline_def cut_named Let_def)
    have "bs_rows s (en_ID e) = None" using assms(1) True by (metis store_inv_def option.exhaust)
    then have "entry_ok fails s' (en_ID e) ?b" using s'(2) ns(2) by (simp add: entry_ok_def row_key_def pristine_def)
    then have "store_inv fails s'" using assms(1) s'(2) by (auto simp: store_inv_def entry_ok_def)
    with True s' show ?thesis by simp
  next
    case False
    show ?thesis
    proof (cases "en_Type e = EntityDeployment")
      case True
      with False obtain y where "bs_baselines s (en_ID e) = Some y" by auto
      with True assms(1,3) show ?thesis by (auto simp: ensureBaseline_def Let_def)
    qed (use assms(1,3) in \<open>auto simp: ensureBaseline_def\<close>)
  qed
  then show "store_inv fails s'" "en_Type e = EntityDeployment \<Longrightarrow> k = en_ID e \<and> bs_baselines s' k \<noteq> None"
    "en_Type e \<noteq> EntityDeployment \<Longrightarrow> k = [] \<and> s' = s" "bs_rows s' = bs_rows s" "bs_dirty s' = bs_dirty s" by auto
qed


lemma maybeAddPeer_inv:
  assumes inv: "store_inv fails (markDirty ms s)" and m: "maybeAddPeer k p ms s = (ms', s')"
  shows "store_inv fails (markDirty ms' s')"
proof (cases "bs_baselines s k")
  case (Some b)
  show ?thesis
  proof (cases "p \<in> bi_ForbiddenPeers b \<or> p \<in> bi_BaselinePeers b")
    case False
    let ?b = "b\<lparr>bi_BaselinePeers := insert p (bi_BaselinePeers b)\<rparr>"
    have s': "ms' = insert k ms" "s' = s\<lparr>bs_baselines := (bs_baselines s)(k \<mapsto> ?b)\<rparr>"
      using m Some False by (simp_all add: maybeAddPeer_def)
    have e: "entry_ok fails (markDirty ms s) k b" using inv Some by (simp add: store_inv_def)
    with False have "entry_ok fails (markDirty ms' s') k ?b" by (auto simp: entry_ok_def s' row_key_def)
    moreover have "entry_ok fails (markDirty ms' s') j c" if "bs_baselines s j = Some c" for j c
      using inv that by (auto simp: store_inv_def entry_ok_def s')
    ultimately show ?thesis using inv by (auto simp: store_inv_def s')
  qed (use assms Some in \<open>auto simp: maybeAddPeer_def split: if_splits\<close>)
qed (use assms in \<open>simp add: maybeAddPeer_def\<close>)

lemma markDirty_none [simp]: "markDirty {} s = s"
  by (simp add: markDirty_def)

lemma ProcessFlowUpdate_inv:
  assumes "store_inv fails s" "named (ci_SrcEntity conn)" "named (ci_DstEntity conn)"
  shows "store_inv fails (snd (ProcessFlowUpdate now conn s))"
proof (cases "bad_entity (ci_SrcEntity conn) \<or> bad_entity (ci_DstEntity conn)")
  case False
  obtain k1 s1 where e1: "ensureBaseline now (ci_SrcEntity conn) s = (k1, s1)" by fastforce
  obtain k2 s2 where e2: "ensureBaseline now (ci_DstEntity conn) s1 = (k2, s2)" by fastforce
  have inv2: "store_inv fails s2"
    using store_inv_ensure(1) [OF store_inv_ensure(1) [OF assms(1,2) e1] assms(3) e2] False by auto
  obtain m3 s3 where a3: "(if en_Type (ci_SrcEntity conn) = EntityDeployment \<and> k1 \<noteq> []
      then maybeAddPeer k1 (egress_peer conn) {} s2 else ({}, s2)) = (m3, s3)" by fastforce
  obtain m4 s4 where a4: "(if en_Type (ci_DstEntity conn) = EntityDeployment \<and> k2 \<noteq> []
      then maybeAddPeer k2 (ingress_peer conn) m3 s3 else (m3, s3)) = (m4, s4)" by fastforce
  have "store_inv fails (markDirty m3 s3)"
    using a3 inv2 maybeAddPeer_inv [of fails "{}" s2 k1 "egress_peer conn" m3 s3] by (auto split: if_splits)
  then have "store_inv fails (markDirty m4 s4)"
    using a4 maybeAddPeer_inv [of fails m3 s3 k2 "ingress_peer conn" m4 s4] by (auto split: if_splits)
  with False e1 e2 inv2 a3 a4 show ?thesis by (simp add: ProcessFlowUpdate_def Let_def)
qed (use assms in \<open>simp add: ProcessFlowUpdate_def\<close>)

lemma ProcessExecUpdate_inv:
  assumes "store_inv fails s" "CHR ''/'' \<notin> set ns"
  shows "store_inv fails (snd (ProcessExecUpdate now ns dep bin ts s))"
proof (cases "ns = [] \<or> dep = [] \<or> bin = []")
  case False
  let ?e = "\<lparr>en_ID = ns @ ''/'' @ dep, en_Type = EntityDeployment, en_Name = dep, en_Discovered = False\<rparr>"
  obtain k s1 where e: "ensureBaseline now ?e s = (k, s1)" by fastforce
  have n: "named ?e" "\<not> bad_entity ?e" using assms(2) by (auto simp: named_def bad_entity_def valid_type_def)
  note en = store_inv_ensure [OF assms(1) n(1) e n(2)]
  then obtain b where b: "bs_baselines s1 k = Some b" by auto
  have disj: "bi_BaselinePeers b \<inter> bi_ForbiddenPeers b = {}" using en(1) b by (simp add: store_inv_def entry_ok_def)
  have "store_inv fails (markDirty {k} (s1\<lparr>bs_baselines := (bs_baselines s1)(k \<mapsto>
      b\<lparr>bi_BaselineBinaries := insert bin (bi_BaselineBinaries b)\<rparr>)\<rparr>))"
    using en(1) b disj by (intro store_inv_change) (auto simp: row_key_def)
  with False e b en(1) show ?thesis by (auto simp: ProcessExecUpdate_def Let_def)
qed (use assms in \<open>auto simp: ProcessExecUpdate_def\<close>)

lemma flushDirty_inv:
  assumes "store_inv fails s" "fails \<or> (\<forall>k. ok k)"
  shows "store_inv fails (flushDirty ok s)"
proof (cases "bs_dirty s = {}")
  case True
  with assms show ?thesis by (simp add: flushDirty_def)
next
  case False
  let ?s = "flushDirty ok s"
  have sel: "bs_baselines ?s = bs_baselines s" "bs_pool ?s = bs_pool s" using False
    by (auto simp: flushDirty_def persistModified_def)
  have rows: "bs_rows ?s k = (if bs_pool s \<and> k \<in> bs_dirty s \<and> ok k \<and> bs_baselines s k \<noteq> None then bs_baselines s k else bs_rows s k)" for k
    using False by (auto simp: flushDirty_def persistModified_def)
  have "entry_ok fails ?s k b" if "bs_baselines s k = Some b" for k b
  proof -
    have "entry_ok fails s k b" using assms(1) that by (simp add: store_inv_def)
    with that assms(2) show ?thesis unfolding entry_ok_def sel rows by auto
  qed
  moreover have "row_key b = k \<and> bs_baselines s k \<noteq> None" if "bs_rows ?s k = Some b" for k b
    using that assms(1) by (auto simp: rows store_inv_def entry_ok_def split: if_splits)
  ultimately show ?thesis by (simp add: store_inv_def sel)
qed

lemma baseline_reach_inv: "baseline_reach fails s \<Longrightarrow> store_inv fails s"
proof (induction rule: baseline_reach.induct)
  case (br_new pool period)
  show ?case by (simp add: store_inv_def baseline_New_def)
next
  case (br_flow s conn now)
  from ProcessFlowUpdate_inv [OF br_flow.IH br_flow.hyps(2,3)] show ?case .
next
  case (br_exec s ns now dep bin ts)
  from ProcessExecUpdate_inv [OF br_exec.IH br_exec.hyps(2)] show ?case .
next
  case (br_flush s ok)
  from flushDirty_inv [OF br_flush.IH br_flush.hyps(2)] show ?case .
qed (auto simp: MarkForbidden_def MarkBaseline_def LockBaseline_def row_key_def intro!: store_inv_mutate)


text \<open>C15. A peer an operator has forbidden is never part of the baseline: in every reachable state,
  whatever flows, executions, operator actions and (failed) flushes led to it, the baseline peers and
  the forbidden peers of a deployment are disjoint.\<close>

theorem forbidden_never_learned:
  "baseline_reach True s \<Longrightarrow> bs_baselines s k = Some b \<Longrightarrow> bi_BaselinePeers b \<inter> bi_ForbiddenPeers b = {}"
  using baseline_reach_inv [of True s] by (simp add: store_inv_def entry_ok_def)

definition peer0 :: Peer where
  "peer0 = \<lparr>pe_IsIngress = False, pe_Entity = InternetEntity, pe_DstPort = 443, pe_Protocol = TCP, pe_CidrBlock = []\<rparr>"

definition store1 :: Store where
  "store1 = snd (ProcessExecUpdate 5 ''ns'' ''dep'' ''/bin/sh'' 5 (baseline_New True 100))"

definition info1 :: BaselineInfo where
  "info1 = \<lparr>bi_Namespace = ''ns'', bi_DeploymentName = ''dep'', bi_DeploymentID = ''ns/dep'', bi_ObservationPeriodEnd = 105,
     bi_UserLocked = False, bi_BaselinePeers = {}, bi_ForbiddenPeers = {}, bi_BaselineBinaries = {''/bin/sh''}\<rparr>"

lemma store1_state: "store1 = (baseline_New True 100)\<lparr>bs_baselines := [''ns/dep'' \<mapsto> info1], bs_dirty := {''ns/dep''}, bs_notify := True\<rparr>"
  by (simp add: store1_def ProcessExecUpdate_def ensureBaseline_def baseline_New_def info1_def markDirty_def Let_def)

lemma store1_reach: "baseline_reach fails store1"
  unfolding store1_def by (intro br_exec br_new) simp

theorem forbidden_never_learned_witness:
  "let s = MarkForbidden ''ns'' ''dep'' peer0 store1; b = the (bs_baselines s ''ns/dep'') in
   peer0 \<in> bi_ForbiddenPeers b \<and> bi_BaselinePeers b \<inter> bi_ForbiddenPeers b = {}"
proof -
  let ?s = "MarkForbidden ''ns'' ''dep'' peer0 store1"
  have b: "bs_baselines ?s ''ns/dep'' = Some (info1\<lparr>bi_BaselinePeers := {}, bi_ForbiddenPeers := {peer0}\<rparr>)"
    by (simp add: MarkForbidden_def mutateBaseline_def store1_state info1_def Let_def)
  from forbidden_never_learned [OF br_forbid [OF store1_reach] b] b show ?thesis by simp
qed

subsection \<open>Classification\<close>

text \<open>C16. A locked baseline learns nothing and reports exactly what it has not seen; an observing
  one learns and reports nothing. For a connection of a known deployment to an address outside the
  cluster: once the deployment is locked by an operator or its observation period is over, the flow is
  an anomaly exactly when its peer is not in the baseline and the store is unchanged; before, the flow
  is observed and its peer is in the baseline afterwards unless it is forbidden. For binaries likewise.\<close>

theorem baseline_decides:
  assumes "en_Type (ci_SrcEntity conn) = EntityDeployment" "en_ID (ci_SrcEntity conn) = k" "k \<noteq> []"
    and "en_Type (ci_DstEntity conn) = EntityExternalSource" "en_ID (ci_DstEntity conn) \<noteq> []"
    and "bs_baselines s k = Some b" "ci_FlowTS conn = t" "t \<noteq> 0" "t \<le> now" "k = ns @ ''/'' @ dep" "ns \<noteq> []" "dep \<noteq> []" "bin \<noteq> []"
  shows "(bi_UserLocked b \<or> bi_ObservationPeriodEnd b \<le> t \<longrightarrow>
        ProcessFlowUpdate now conn s = (if egress_peer conn \<in> bi_BaselinePeers b then ResultKnown else ResultAnomaly, s)
        \<and> ProcessExecUpdate now ns dep bin t s = (if bin \<in> bi_BaselineBinaries b then ResultKnown else ResultAnomaly, s))
    \<and> (\<not> bi_UserLocked b \<and> t < bi_ObservationPeriodEnd b \<longrightarrow>
        fst (ProcessFlowUpdate now conn s) = ResultObserving
        \<and> (\<exists>b'. bs_baselines (snd (ProcessFlowUpdate now conn s)) k = Some b' \<and> bi_BaselinePeers b'
             = (if egress_peer conn \<in> bi_ForbiddenPeers b then bi_BaselinePeers b else insert (egress_peer conn) (bi_BaselinePeers b)))
        \<and> fst (ProcessExecUpdate now ns dep bin t s) = ResultObserving
        \<and> (\<exists>b'. bs_baselines (snd (ProcessExecUpdate now ns dep bin t s)) k = Some b'
             \<and> bi_BaselineBinaries b' = insert bin (bi_BaselineBinaries b)))"
proof -
  let ?src = "ci_SrcEntity conn" and ?dst = "ci_DstEntity conn"
  have ok: "\<not> bad_entity ?src" "\<not> bad_entity ?dst" using assms(1-5) by (auto simp: bad_entity_def valid_type_def)
  have e: "ensureBaseline now ?src s = (k, s)" "ensureBaseline now ?dst s = ([], s)"
    using assms by (simp_all add: ensureBaseline_def Let_def)
  have e2: "ensureBaseline now \<lparr>en_ID = ns @ ''/'' @ dep, en_Type = EntityDeployment, en_Name = dep, en_Discovered = False\<rparr> s = (k, s)"
    using assms(6,10) by (simp add: ensureBaseline_def Let_def)
  have su: "shouldUpdate now k [] t s = (\<not> bi_UserLocked b \<and> t < bi_ObservationPeriodEnd b)"
    using assms(3,6,8) by (simp add: shouldUpdate_def)
  have flow: "ProcessFlowUpdate now conn s =
      (if \<not> bi_UserLocked b \<and> t < bi_ObservationPeriodEnd b
       then (ResultObserving, let (m, s') = maybeAddPeer k (egress_peer conn) {} s in markDirty m s')
       else (classifyLockedFlow now k [] conn s, s))"
    using ok e su assms(1,3,4,7) by (simp add: ProcessFlowUpdate_def case_prod_beta Let_def)
  have exec: "ProcessExecUpdate now ns dep bin t s =
      (if bi_UserLocked b \<or> bi_ObservationPeriodEnd b \<le> t
       then (if bin \<in> bi_BaselineBinaries b then ResultKnown else ResultAnomaly, s)
       else (ResultObserving, if bin \<in> bi_BaselineBinaries b then s
                else markDirty {k} (s\<lparr>bs_baselines := (bs_baselines s)(k \<mapsto> b\<lparr>bi_BaselineBinaries := insert bin (bi_BaselineBinaries b)\<rparr>)\<rparr>)))"
    using e2 assms(6,8,11-13) by (simp add: ProcessExecUpdate_def not_less)
  have cl: "classifyLockedFlow now k [] conn s = (if egress_peer conn \<in> bi_BaselinePeers b then ResultKnown else ResultAnomaly)"
    if "bi_UserLocked b \<or> bi_ObservationPeriodEnd b \<le> t"
    using that assms(1,3,4,6,9) by (auto simp: classifyLockedFlow_def isUnknownLockedPeer_def)
  have add: "\<exists>b'. bs_baselines (let (m, s') = maybeAddPeer k (egress_peer conn) {} s in markDirty m s') k = Some b' \<and> bi_BaselinePeers b'
      = (if egress_peer conn \<in> bi_ForbiddenPeers b then bi_BaselinePeers b else insert (egress_peer conn) (bi_BaselinePeers b))"
    using assms(6) by (auto simp: maybeAddPeer_def)
  show ?thesis
    using cl add assms(6) unfolding flow exec by (auto simp: not_less)
qed


definition conn0 :: ConnIndicator where
  "conn0 = \<lparr>ci_SrcEntity = \<lparr>en_ID = ''ns/dep'', en_Type = EntityDeployment, en_Name = ''dep'', en_Discovered = False\<rparr>,
     ci_DstEntity = \<lparr>en_ID = ''10.0.0.0/24'', en_Type = EntityExternalSource, en_Name = ''10.0.0.0/24'', en_Discovered = False\<rparr>,
     ci_DstPort = 443, ci_Protocol = TCP, ci_FlowTS = 200\<rparr>"

theorem baseline_decides_witness:
  "ProcessFlowUpdate 200 conn0 store1 = (ResultAnomaly, store1)
   \<and> ProcessExecUpdate 200 ''ns'' ''dep'' ''/bin/nc'' 200 store1 = (ResultAnomaly, store1)"
proof -
  have s: "bs_baselines store1 ''ns/dep'' = Some info1" by (simp add: store1_state)
  have c: "en_Type (ci_SrcEntity conn0) = EntityDeployment" "en_ID (ci_SrcEntity conn0) = ''ns/dep''"
    "en_Type (ci_DstEntity conn0) = EntityExternalSource" "en_ID (ci_DstEntity conn0) \<noteq> []" "ci_FlowTS conn0 = 200"
    by (simp_all add: conn0_def)
  have i: "bi_ObservationPeriodEnd info1 = 105" "bi_BaselinePeers info1 = {}" "''/bin/nc'' \<notin> bi_BaselineBinaries info1"
    by (simp_all add: info1_def)
  have k: "''ns/dep'' \<noteq> []" "''ns/dep'' = ''ns'' @ ''/'' @ ''dep''" "''ns'' \<noteq> []" "''dep'' \<noteq> []" "''/bin/nc'' \<noteq> []"
    "(200::int) \<noteq> 0" "(200::int) \<le> 200" by simp_all
  note d = conjunct1 [OF baseline_decides [OF c(1,2) k(1) c(3,4) s c(5) k(6,7,2-5)]]
  have "bi_UserLocked info1 \<or> bi_ObservationPeriodEnd info1 \<le> 200" by (simp add: i)
  from d [THEN mp, OF this] i show ?thesis by (simp only: empty_iff if_False)
qed

subsection \<open>Persistence\<close>

lemma Load_fold:
  "fold (\<lambda>b m. m(row_key b \<mapsto> b)) rows m k =
     (case filter (\<lambda>b. row_key b = k) rows of [] \<Rightarrow> m k | bs \<Rightarrow> Some (last bs))"
  by (induction rows arbitrary: m) (auto split: list.splits)



text \<open>C40. A flush that the database refuses loses the change for good: the keys are taken off the
  dirty set before they are written and not put back, so that after a refused flush of an operator's
  ban, a later successful flush writes nothing and a restart does not know the ban.\<close>

theorem refused_flush_loses_change:
  assumes "bs_pool s" "bs_baselines s (ns @ ''/'' @ dep) = Some b"
  shows "let s' = flushDirty (\<lambda>_. True) (flushDirty (\<lambda>_. False) (MarkForbidden ns dep p s)) in
    (\<exists>b'. bs_baselines s' (ns @ ''/'' @ dep) = Some b' \<and> p \<in> bi_ForbiddenPeers b')
    \<and> bs_rows s' = bs_rows s \<and> bs_dirty s' = {}"
proof -
  let ?s = "MarkForbidden ns dep p s"
  have m: "bs_dirty ?s \<noteq> {}" "bs_pool ?s" "bs_rows ?s = bs_rows s"
    "bs_baselines ?s (ns @ ''/'' @ dep) = Some (b\<lparr>bi_BaselinePeers := bi_BaselinePeers b - {p}, bi_ForbiddenPeers := insert p (bi_ForbiddenPeers b)\<rparr>)"
    using assms by (simp_all add: MarkForbidden_def mutateBaseline_def markDirty_def Let_def)
  then have "flushDirty (\<lambda>_. False) ?s = ?s\<lparr>bs_dirty := {}\<rparr>"
    by (simp add: flushDirty_def persistModified_def)
  with m show ?thesis by (simp add: flushDirty_def Let_def)
qed

theorem refused_flush_loses_change_witness:
  "bs_rows (flushDirty (\<lambda>_. True) (flushDirty (\<lambda>_. False) (MarkForbidden ''ns'' ''dep'' peer0 store1))) = Map.empty"
  using refused_flush_loses_change [of store1 "''ns''" "''dep''" info1 peer0]
  by (simp add: store1_state baseline_New_def Let_def)

end
