(* ===== verification/Net_Policy.thy ===== *)
theory Net_Policy
  imports Go_Net "HOL-Library.AList"
begin

section \<open>Network policies (anomaly/internal/checker/checker.go)\<close>

text \<open>
  The checker decides whether the network policies of a namespace allow a connection of a pod. The
  label selector is Kubernetes code: \<open>select\<close> is a parameter that gives the selector's test on
  labels, or nothing for a selector that does not convert. What the API server lists is an
  argument. Shown: when the verdict is the one that egress isolation prescribes, and that the
  cached policies of a namespace are always ones listed for it.
\<close>

datatype Result = Allowed | Blocked

datatype PolicyType = Ingress | Egress

record NetPeer =
  np_IPBlock :: "string option"
  np_NamespaceSelector :: bool
  np_PodSelector :: bool

text \<open>A port without a number is \<open>None\<close>.\<close>

record EgressRule =
  er_To :: "NetPeer list"
  er_Ports :: "int option list"

record 'sel NetworkPolicy =
  pol_PodSelector :: 'sel
  pol_PolicyTypes :: "PolicyType list"
  pol_Egress :: "EgressRule list"

type_synonym labels = "(string \<times> string) list"

definition cidr_has :: "string \<Rightarrow> string \<Rightarrow> bool" where
  "cidr_has cidr dstIP =
     (case parse_CIDR cidr of None \<Rightarrow> False
      | Some net \<Rightarrow> (case parse_IP dstIP of None \<Rightarrow> False | Some ip \<Rightarrow> net_contains net ip))"

definition egressRuleMatches :: "EgressRule \<Rightarrow> string \<Rightarrow> int \<Rightarrow> bool" where
  "egressRuleMatches rule dstIP dstPort =
     (let ipMatch = (er_To rule = [] \<or> list_ex (\<lambda>peer.
            (case np_IPBlock peer of Some cidr \<Rightarrow> cidr_has cidr dstIP | None \<Rightarrow> False)
            \<or> np_NamespaceSelector peer \<or> np_PodSelector peer) (er_To rule))
      in if \<not> ipMatch then False
         else if er_Ports rule = [] then True
         else list_ex (\<lambda>p. case p of None \<Rightarrow> True | Some n \<Rightarrow> n = dstPort) (er_Ports rule))"

definition applicable :: "('sel \<Rightarrow> (labels \<Rightarrow> bool) option) \<Rightarrow> labels \<Rightarrow> 'sel NetworkPolicy list \<Rightarrow> 'sel NetworkPolicy list" where
  "applicable select podLabels policies =
     filter (\<lambda>p. case select (pol_PodSelector p) of None \<Rightarrow> False | Some test \<Rightarrow> test podLabels) policies"

definition verdict :: "('sel \<Rightarrow> (labels \<Rightarrow> bool) option) \<Rightarrow> 'sel NetworkPolicy list \<Rightarrow> labels \<Rightarrow> string \<Rightarrow> int \<Rightarrow> Result" where
  "verdict select policies podLabels dstIP dstPort =
     (let app = applicable select podLabels policies in
      if app = [] then Allowed
      else if list_ex (\<lambda>p. Egress \<in> set (pol_PolicyTypes p)
                 \<and> list_ex (\<lambda>rule. egressRuleMatches rule dstIP dstPort) (pol_Egress p)) app
      then Allowed else Blocked)"

type_synonym 'sel policy_cache = "(string \<times> ('sel NetworkPolicy list \<times> gotime)) list"

definition checkerTTL :: duration where "checkerTTL = 30 * second"

definition getPolicies :: "gotime \<Rightarrow> string + 'sel NetworkPolicy list \<Rightarrow> string \<Rightarrow> 'sel policy_cache
    \<Rightarrow> 'sel NetworkPolicy list \<times> 'sel policy_cache" where
  "getPolicies now listing ns c =
     (case map_of c ns of
        Some (ps, refreshed) \<Rightarrow>
          if now - refreshed < checkerTTL then (ps, c)
          else (case listing of Inl _ \<Rightarrow> (ps, c) | Inr items \<Rightarrow> (items, AList.update ns (items, now) c))
      | None \<Rightarrow> (case listing of Inl _ \<Rightarrow> ([], c) | Inr items \<Rightarrow> (items, AList.update ns (items, now) c)))"

definition Check :: "('sel \<Rightarrow> (labels \<Rightarrow> bool) option) \<Rightarrow> gotime \<Rightarrow> string + 'sel NetworkPolicy list \<Rightarrow> string \<Rightarrow> labels
    \<Rightarrow> string \<Rightarrow> int \<Rightarrow> 'sel policy_cache \<Rightarrow> Result \<times> 'sel policy_cache" where
  "Check select now listing srcNS podLabels dstIP dstPort c =
     (let (policies, c') = getPolicies now listing srcNS c in
      (verdict select policies podLabels dstIP dstPort, c'))"

subsection \<open>Egress isolation\<close>

text \<open>
  What Kubernetes prescribes: a pod is isolated for egress when some policy that selects it has the
  egress type; an isolated pod may connect only as a rule of such a policy allows.
\<close>

definition isolated :: "('sel \<Rightarrow> (labels \<Rightarrow> bool) option) \<Rightarrow> 'sel NetworkPolicy list \<Rightarrow> labels \<Rightarrow> bool" where
  "isolated select policies podLabels =
     list_ex (\<lambda>p. Egress \<in> set (pol_PolicyTypes p)) (applicable select podLabels policies)"

definition egress_allowed :: "('sel \<Rightarrow> (labels \<Rightarrow> bool) option) \<Rightarrow> 'sel NetworkPolicy list \<Rightarrow> labels \<Rightarrow> string \<Rightarrow> int \<Rightarrow> bool" where
  "egress_allowed select policies podLabels dstIP dstPort =
     (\<not> isolated select policies podLabels
      \<or> list_ex (\<lambda>p. Egress \<in> set (pol_PolicyTypes p)
          \<and> list_ex (\<lambda>rule. egressRuleMatches rule dstIP dstPort) (pol_Egress p)) (applicable select podLabels policies))"

text \<open>The verdict is the one egress isolation prescribes, except for pods that are selected only
  by policies without the egress type: Kubernetes leaves their egress open, the checker blocks it.\<close>

theorem verdict_vs_isolation:
  "(verdict select policies podLabels dstIP dstPort = Allowed \<longleftrightarrow> egress_allowed select policies podLabels dstIP dstPort)
   \<longleftrightarrow> isolated select policies podLabels \<or> applicable select podLabels policies = []"
  by (auto simp: verdict_def egress_allowed_def isolated_def Let_def list_ex_iff)

subsection \<open>The cache\<close>

text \<open>The policies listed for each namespace in a run of the checker.\<close>

inductive cache_reach :: "'sel policy_cache \<Rightarrow> (string \<times> gotime \<times> 'sel NetworkPolicy list) list \<Rightarrow> gotime \<Rightarrow> bool" where
  cr_new: "cache_reach [] [] T"
| cr_get: "cache_reach c listed T \<Longrightarrow> T \<le> now \<Longrightarrow> getPolicies now listing ns c = (ps, c')
    \<Longrightarrow> cache_reach c' (case listing of Inl _ \<Rightarrow> listed | Inr items \<Rightarrow> (ns, now, items) # listed) now"

lemma cache_listed:
  "cache_reach c listed T \<Longrightarrow> map_of c ns = Some (ps, t) \<Longrightarrow> (ns, t, ps) \<in> set listed \<and> t \<le> T"
proof (induction arbitrary: ns ps t rule: cache_reach.induct)
  case (cr_get c listed T now listing ns' ps' c')
  then show ?case
    by (auto simp: getPolicies_def update_conv' split: option.splits sum.splits if_splits) (blast intro: order_trans)+
qed simp

text \<open>Policies never leak across namespaces and are fresh while the API server answers: in every
  run, the policies the checker uses for a namespace were listed for that namespace, at most thirty
  seconds before unless the server failed to list them now, or none are known and none are used.\<close>

theorem policies_listed_for_namespace:
  assumes "cache_reach c listed T" "T \<le> now" "getPolicies now listing ns c = (ps, c')"
  shows "ps = [] \<and> (\<exists>e. listing = Inl e) \<or> listing = Inr ps
    \<or> (\<exists>t. (ns, t, ps) \<in> set listed \<and> (now - t < 30 * second \<or> (\<exists>e. listing = Inl e)))"
proof (cases "map_of c ns")
  case None
  with assms(3) show ?thesis by (auto simp: getPolicies_def split: sum.splits)
next
  case (Some pt)
  obtain qs t where pt: "pt = (qs, t)" by fastforce
  with cache_listed [OF assms(1)] Some have "(ns, t, qs) \<in> set listed" by simp
  with assms(3) Some pt show ?thesis
    by (auto simp: getPolicies_def checkerTTL_def split: sum.splits if_splits)
qed

definition deny_all :: "nat NetworkPolicy" where
  "deny_all = \<lparr>pol_PodSelector = 0, pol_PolicyTypes = [Egress], pol_Egress = []\<rparr>"

theorem policies_listed_for_namespace_witness:
  "let c = snd (getPolicies 5 (Inr [deny_all]) ''a'' []) in
   fst (getPolicies 6 (Inl ''down'') ''a'' c) = [deny_all] \<and> fst (getPolicies 6 (Inl ''down'') ''b'' c) = []"
proof -
  let ?c = "snd (getPolicies 5 (Inr [deny_all]) ''a'' [])"
  have c: "getPolicies 5 (Inr [deny_all]) ''a'' [] = ([deny_all], ?c)" by (simp add: getPolicies_def)
  have r: "cache_reach ?c [(''a'', 5, [deny_all])] 5"
    using cache_reach.cr_get [OF cr_new [of 0] _ c] by simp
  from policies_listed_for_namespace [OF r, of 6 "Inl ''down''" "''b''"]
  show ?thesis by (simp add: getPolicies_def checkerTTL_def)
qed

end
