(* ===== verification/Anomaly_Eval.thy ===== *)
theory Anomaly_Eval
  imports Anomaly_Event Recon Anomaly_Baseline Net_Policy
begin

section \<open>Evaluating runtime events (anomaly/internal/consumer/eval.go, state.go, honeypots.go)\<close>

text \<open>
  The evaluation of one decoded event against the detectors: network policies, baselines, the
  port-scan detector, the honeypot registry and the memory of \<^verbatim>\<open>memfd_create\<close> calls. What the
  enricher and the database answer is in the environment of the call; \<open>now\<close> is the time of the
  call, and \<open>parsed_ts\<close> the time the event's \<^verbatim>\<open>ts\<close> text denotes, if it is one.
\<close>

definition filelessWindow :: duration where "filelessWindow = 30 * second"
definition trapRefresh :: duration where "trapRefresh = 15 * second"
definition probeClockSkew :: duration where "probeClockSkew = hour"

record PodInfo =
  pi_Deployment :: string
  pi_Node :: string
  pi_PodIP :: string
  pi_Labels :: labels
  pi_ServiceAccount :: string

record trap =
  tr_ID :: string
  tr_Namespace :: string
  tr_Name :: string
  tr_Service :: string
  tr_Kind :: string
  tr_Port :: nat
  tr_TargetPort :: nat
  tr_ClusterIP :: string
  tr_Selector :: labels

record trapIndex =
  ti_list :: "trap list"
  ti_at :: gotime
  ti_warns :: nat

text \<open>The answers one evaluation meets.\<close>

record 'sel eval_env =
  ee_now :: gotime
  ee_ownNamespace :: string
  ee_pod :: PodInfo
  ee_waitPod :: "PodInfo option"
  ee_service :: "string \<Rightarrow> (string \<times> string) option"
  ee_podIPs :: "string \<Rightarrow> labels \<Rightarrow> string list"
  ee_traps :: "(string + trap list) option"
  ee_select :: "'sel \<Rightarrow> (labels \<Rightarrow> bool) option"
  ee_listing :: "string + 'sel NetworkPolicy list"
  ee_parsed_ts :: "gotime option"

record 'sel Consumer =
  co_base :: Store
  co_cache :: "'sel policy_cache"
  co_recon :: windows
  co_traps :: trapIndex
  co_memfd :: "(string \<times> gotime) list"

definition ignoredNamespaces :: "string \<Rightarrow> string list" where
  "ignoredNamespaces own = [own, ''kube-system'', ''kube-public'', ''kube-node-lease'', ''calico-system'', ''cert-manager'',
     ''metallb-system'']"

subsection \<open>Memory of memfd_create\<close>

definition memfd_key :: "string \<Rightarrow> string \<Rightarrow> string \<Rightarrow> string" where
  "memfd_key namespace pod pid = namespace @ ''/'' @ pod @ ''/'' @ (if pid = [] then ''unknown'' else pid)"

definition recordMemfd :: "gotime \<Rightarrow> string \<Rightarrow> string \<Rightarrow> string \<Rightarrow> 'sel Consumer \<Rightarrow> 'sel Consumer" where
  "recordMemfd now namespace pod pid c =
     c\<lparr>co_memfd := AList.update (memfd_key namespace pod pid) now (co_memfd c)\<rparr>"

definition consumeRecentMemfd :: "gotime \<Rightarrow> string \<Rightarrow> string \<Rightarrow> string \<Rightarrow> 'sel Consumer \<Rightarrow> bool \<times> 'sel Consumer" where
  "consumeRecentMemfd now namespace pod pid c =
     (let key = memfd_key namespace pod pid in
      case map_of (co_memfd c) key of None \<Rightarrow> (False, c)
      | Some ts \<Rightarrow> (now - ts \<le> filelessWindow, c\<lparr>co_memfd := AList.delete key (co_memfd c)\<rparr>))"

definition cleanupMemfd :: "gotime \<Rightarrow> 'sel Consumer \<Rightarrow> 'sel Consumer" where
  "cleanupMemfd now c = c\<lparr>co_memfd := filter (\<lambda>kt. \<not> snd kt < now - filelessWindow * 2) (co_memfd c)\<rparr>"

subsection \<open>Honeypots\<close>

text \<open>\<^verbatim>\<open>load\<close>: without a database (\<open>None\<close>) or while fresh, the list as it is.\<close>

definition trap_load :: "gotime \<Rightarrow> (string + trap list) option \<Rightarrow> trapIndex \<Rightarrow> trap list \<times> trapIndex" where
  "trap_load now answer t =
     (if now - ti_at t < trapRefresh then (ti_list t, t)
      else case answer of None \<Rightarrow> (ti_list t, t)
      | Some (Inl e) \<Rightarrow> (ti_list t, t\<lparr>ti_at := now, ti_warns := (if ti_warns t < 3 then ti_warns t + 1 else ti_warns t)\<rparr>)
      | Some (Inr out) \<Rightarrow> (out, t\<lparr>ti_list := out, ti_at := now\<rparr>))"

definition matchTrap :: "'sel eval_env \<Rightarrow> string \<Rightarrow> 'sel Consumer \<Rightarrow> trap option \<times> 'sel Consumer" where
  "matchTrap v dstIP c =
     (let (traps, t') = trap_load (ee_now v) (ee_traps v) (co_traps c) in
      (case find (\<lambda>tr. tr_ClusterIP tr \<noteq> [] \<and> tr_ClusterIP tr = dstIP) traps of
         Some tr \<Rightarrow> Some tr
       | None \<Rightarrow> find (\<lambda>tr. dstIP \<in> set (ee_podIPs v (tr_Namespace tr) (tr_Selector tr))) traps,
       c\<lparr>co_traps := t'\<rparr>))"

definition label_get :: "labels \<Rightarrow> string \<Rightarrow> string" where
  "label_get ls k = (case map_of ls k of Some x \<Rightarrow> x | None \<Rightarrow> [])"

definition isTrapPod :: "'sel eval_env \<Rightarrow> string \<Rightarrow> labels \<Rightarrow> 'sel Consumer \<Rightarrow> bool \<times> 'sel Consumer" where
  "isTrapPod v ns ls c =
     (if ls = [] then (False, c)
      else let (traps, t') = trap_load (ee_now v) (ee_traps v) (co_traps c) in
        (list_ex (\<lambda>tr. tr_Namespace tr = ns \<and> tr_Selector tr \<noteq> []
            \<and> list_all (\<lambda>(k, x). label_get ls k = x) (tr_Selector tr)) traps, c\<lparr>co_traps := t'\<rparr>))"

definition honeypotProbe :: "'sel eval_env \<Rightarrow> gomap \<Rightarrow> AnomalyEvent \<Rightarrow> trap \<Rightarrow> string \<Rightarrow> nat \<Rightarrow> AnomalyEvent" where
  "honeypotProbe v ev base tr dstIP dstPort =
     (let ts = (case ee_parsed_ts v of Some t \<Rightarrow> if \<bar>ee_now v - t\<bar> < probeClockSkew then t else ae_Ts base | None \<Rightarrow> ae_Ts base);
          cmd = strVal ev ''cmdline''
      in base\<lparr>ae_Kind := KindHoneypotProbe, ae_Ts := ts, ae_DstIP := dstIP, ae_DstPort := dstPort, ae_DstService := tr_Name tr,
           ae_DstNS := tr_Namespace tr, ae_Protocol := ''TCP'', ae_HoneypotID := tr_ID tr, ae_HoneypotName := tr_Name tr,
           ae_HoneypotService := tr_Service tr, ae_HoneypotKind := tr_Kind tr, ae_SrcPID := anyString (map_of ev ''pid''),
           ae_SrcUID := anyString (map_of ev ''uid''),
           ae_SrcCmdline := (if cmd \<noteq> [] \<and> cmd \<noteq> dstIP \<and> parseIPFromAddr cmd = [] then cmd else strVal ev ''execpath''),
           ae_Detail := ''connect to honeypot '' @ tr_Namespace tr @ ''/'' @ tr_Name tr @ '' ('' @ tr_Service tr @ '') from ''
             @ ae_SrcProcess base\<rparr>)"

subsection \<open>Connections\<close>

definition recon_event :: "AnomalyEvent \<Rightarrow> string \<Rightarrow> nat \<Rightarrow> string \<Rightarrow> string \<Rightarrow> ReconAlert \<Rightarrow> AnomalyEvent" where
  "recon_event base dstIP dstPort dstService dstNS ra =
     (let a = base\<lparr>ae_DstIP := dstIP, ae_DstService := dstService, ae_DstNS := dstNS\<rparr> in
      case ra_Kind ra of
        RPortScan \<Rightarrow> a\<lparr>ae_Kind := KindPortScan, ae_ScannedPorts := ra_Ports ra, ae_PortCount := ra_Count ra, ae_WindowSec := 60\<rparr>
      | RSuspiciousPort \<Rightarrow> a\<lparr>ae_Kind := KindSuspiciousPort, ae_DstPort := dstPort, ae_PortLabel := ra_PortLabel ra\<rparr>)"

definition reconEvents :: "'sel eval_env \<Rightarrow> AnomalyEvent \<Rightarrow> string \<Rightarrow> nat \<Rightarrow> string \<Rightarrow> string \<Rightarrow> 'sel Consumer
    \<Rightarrow> AnomalyEvent list \<times> 'sel Consumer" where
  "reconEvents v base dstIP dstPort dstService dstNS c =
     (let (ras, d) = Observe (ee_now v) (ae_SrcNamespace base) (ae_SrcDeployment base) dstIP dstPort (ae_Ts base) (co_recon c) in
      (map (recon_event base dstIP dstPort dstService dstNS) ras, c\<lparr>co_recon := d\<rparr>))"

definition filled_base :: "'sel eval_env \<Rightarrow> AnomalyEvent \<Rightarrow> AnomalyEvent" where
  "filled_base v base =
     (if ae_SrcIP base = [] then
        (case ee_waitPod v of None \<Rightarrow> base
         | Some info \<Rightarrow> base\<lparr>ae_SrcIP := pi_PodIP info, ae_SrcServiceAccount := pi_ServiceAccount info,
             ae_SrcNode := (if ae_SrcNode base = [] then pi_Node info else ae_SrcNode base)\<rparr>)
      else base)"

definition flow_of :: "AnomalyEvent \<Rightarrow> string \<Rightarrow> nat \<Rightarrow> ConnIndicator" where
  "flow_of base dstIP dstPort =
     \<lparr>ci_SrcEntity = \<lparr>en_ID = ae_SrcNamespace base @ ''/'' @ ae_SrcDeployment base, en_Type = EntityDeployment,
        en_Name = ae_SrcDeployment base, en_Discovered = False\<rparr>,
      ci_DstEntity = ExternalEntity dstIP, ci_DstPort = dstPort, ci_Protocol = TCP, ci_FlowTS = ae_Ts base\<rparr>"

definition evalConnect :: "'sel eval_env \<Rightarrow> gomap \<Rightarrow> AnomalyEvent \<Rightarrow> labels \<Rightarrow> 'sel Consumer \<Rightarrow> AnomalyEvent list \<times> 'sel Consumer" where
  "evalConnect v ev base podLabels c =
     (let dstIP = extractIP ev; dstPort = extractPort ev in
      if dstIP = [] then ([], c)
      else case matchTrap v dstIP c of
        (Some tr, c1) \<Rightarrow>
          (let base' = filled_base v base;
               (es, c2) = reconEvents v base' dstIP dstPort (tr_Name tr) (tr_Namespace tr) c1
           in (honeypotProbe v ev base' tr dstIP dstPort # es, c2))
      | (None, c1) \<Rightarrow>
          (let (dstService, dstNS) = (case ee_service v dstIP of Some s \<Rightarrow> s | None \<Rightarrow> ([], []));
               (res, cache) = Check (ee_select v) (ee_now v) (ee_listing v) (ae_SrcNamespace base) podLabels dstIP (int dstPort) (co_cache c1);
               blocked = (if res = Blocked then [connectEvent base KindPolicyBlocked dstIP dstPort dstService dstNS] else []);
               (fr, store) = ProcessFlowUpdate (ee_now v) (flow_of base dstIP dstPort) (co_base c1);
               flow = (if fr = ResultAnomaly
                       then [(connectEvent base KindUnauthorizedFlow dstIP dstPort dstService dstNS)\<lparr>ae_BaselineState := ''locked''\<rparr>] else []);
               (es, c2) = reconEvents v base dstIP dstPort dstService dstNS (c1\<lparr>co_cache := cache, co_base := store\<rparr>)
           in (blocked @ flow @ es, c2)))"

definition sendto_event :: "AnomalyEvent \<Rightarrow> string \<Rightarrow> nat \<Rightarrow> ReconAlert \<Rightarrow> AnomalyEvent" where
  "sendto_event base dstIP dstPort ra =
     (case ra_Kind ra of
        RPortScan \<Rightarrow> base\<lparr>ae_DstIP := dstIP, ae_Kind := KindPortScan, ae_ScannedPorts := ra_Ports ra, ae_PortCount := ra_Count ra,
           ae_WindowSec := 60, ae_Detail := ''detected via sendto (raw socket)''\<rparr>
      | RSuspiciousPort \<Rightarrow> base\<lparr>ae_DstIP := dstIP, ae_Kind := KindSuspiciousPort, ae_DstPort := dstPort,
           ae_PortLabel := ra_PortLabel ra, ae_Detail := ''via raw socket sendto''\<rparr>)"

definition evalSendto :: "'sel eval_env \<Rightarrow> gomap \<Rightarrow> AnomalyEvent \<Rightarrow> 'sel Consumer \<Rightarrow> AnomalyEvent list \<times> 'sel Consumer" where
  "evalSendto v ev base c =
     (let dstIP = extractIP ev; dstPort = extractPort ev in
      if dstIP = [] then ([], c)
      else let (ras, d) = Observe (ee_now v) (ae_SrcNamespace base) (ae_SrcDeployment base) dstIP dstPort (ae_Ts base) (co_recon c) in
        (map (sendto_event base dstIP dstPort) ras, c\<lparr>co_recon := d\<rparr>))"

definition evalExecve :: "'sel eval_env \<Rightarrow> gomap \<Rightarrow> AnomalyEvent \<Rightarrow> 'sel Consumer \<Rightarrow> AnomalyEvent list \<times> 'sel Consumer" where
  "evalExecve v ev base c =
     (case consumeRecentMemfd (ee_now v) (ae_SrcNamespace base) (ae_SrcPod base) (strVal ev ''pid'') c of
        (True, c1) \<Rightarrow> ([withDetail base KindFilelessExec (''memfd_create followed by execve '' @ em_dash @ '' possible fileless malware'')], c1)
      | (False, c1) \<Rightarrow>
        (case first_suspicious [strVal ev ''pathname'', ae_SrcProcess base] of
           Some (kind, detail) \<Rightarrow> ([withDetail base kind detail], c1)
         | None \<Rightarrow>
           (let bin = execBinaryPath ev base in
            if bin = [] then ([], c1)
            else
              let (r, store) = ProcessExecUpdate (ee_now v) (ae_SrcNamespace base) (ae_SrcDeployment base) bin (ae_Ts base) (co_base c1);
                  c2 = c1\<lparr>co_base := store\<rparr>
              in if r = ResultAnomaly
                 then ([(withDetail base KindUnexpectedBinary (''binary never seen during baseline window: '' @ bin))\<lparr>ae_BaselineState := ''locked''\<rparr>], c2)
                 else ([], c2))))"

subsection \<open>The dispatcher\<close>

text \<open>The kind of the base event is a placeholder: every event that is reported sets its own.\<close>

definition base_event :: "'sel eval_env \<Rightarrow> gomap \<Rightarrow> AnomalyEvent" where
  "base_event v ev =
     (let pod = ee_pod v in
      \<lparr>ae_ID = [], ae_Ts = ee_now v, ae_Kind = KindPolicyBlocked, ae_SrcNamespace = strVal ev ''namespace'',
       ae_SrcDeployment = pi_Deployment pod, ae_SrcPod = strVal ev ''pod'',
       ae_SrcNode = (if pi_Node pod = [] then strVal ev ''node'' else pi_Node pod), ae_SrcProcess = strVal ev ''process'',
       ae_SrcIP = pi_PodIP pod, ae_SrcContainer = strVal ev ''container'', ae_SrcServiceAccount = pi_ServiceAccount pod,
       ae_SrcPID = [], ae_SrcUID = [], ae_SrcCmdline = [], ae_HoneypotID = [], ae_HoneypotName = [], ae_HoneypotService = [],
       ae_HoneypotKind = [], ae_DstIP = [], ae_DstPort = 0, ae_DstService = [], ae_DstNS = [], ae_Protocol = [],
       ae_ScannedPorts = [], ae_PortCount = 0, ae_PortLabel = [], ae_WindowSec = 0, ae_Syscall = strVal ev ''syscall'',
       ae_EventKind = strVal ev ''event_kind'', ae_BaselineState = [], ae_Detail = []\<rparr>)"

definition dispatch :: "'sel eval_env \<Rightarrow> gomap \<Rightarrow> AnomalyEvent \<Rightarrow> labels \<Rightarrow> 'sel Consumer \<Rightarrow> AnomalyEvent list \<times> 'sel Consumer" where
  "dispatch v ev base ls c =
     (let sc = ae_Syscall base in
      if sc = ''connect'' then evalConnect v ev base ls c
      else if sc = ''socket'' then (evalSocket ev base, c)
      else if sc = ''sendto'' then evalSendto v ev base c
      else if sc = ''bind'' then (evalBind ev base, c)
      else if sc = ''accept'' \<or> sc = ''accept4'' then (evalAccept ev base, c)
      else if sc = ''ptrace'' then ([withDetail base KindProcessInjection (strVal ev ''cmdline'')], c)
      else if sc = ''process_vm_writev''
        then ([withDetail base KindProcessInjection (''process_vm_writev '' @ em_dash @ '' cross-process memory write'')], c)
      else if sc = ''memfd_create'' then ([], recordMemfd (ee_now v) (ae_SrcNamespace base) (ae_SrcPod base) (strVal ev ''pid'') c)
      else if sc = ''execve'' \<or> sc = ''execveat'' \<or> sc = ''sched_process_exec'' then evalExecve v ev base c
      else if sc = ''init_module'' \<or> sc = ''finit_module'' then ([withDetail base KindKernelModuleLoad (strVal ev ''cmdline'')], c)
      else if sc = ''bpf'' then ([withDetail base KindEBPFLoad (strVal ev ''cmdline'')], c)
      else if sc = ''io_uring_setup'' \<or> sc = ''io_uring_enter'' \<or> sc = ''io_uring_register'' then (evalIOUring base, c)
      else if sc = ''pivot_root''
        then ([withDetail base KindContainerEscape (''pivot_root '' @ em_dash @ '' filesystem root change (container escape)'')], c)
      else if sc = ''unshare''
        then ([withDetail base KindContainerEscape (''unshare '' @ em_dash @ '' new namespace (isolation bypass)'')], c)
      else if sc = ''setns''
        then ([withDetail base KindContainerEscape (''setns '' @ em_dash @ '' joined existing namespace (possible host access)'')], c)
      else if sc = ''capset'' then (evalCapset base, c)
      else if sc = ''security_inode_rename'' \<or> sc = ''security_inode_unlink'' \<or> sc = ''security_inode_mknod''
              \<or> sc = ''security_inode_symlink'' then (evalBinaryTamper ev base, c)
      else ([], c))"

text \<open>\<open>None\<close>: the record is empty or does not decode.\<close>

definition evaluateRaw :: "'sel eval_env \<Rightarrow> gomap option \<Rightarrow> 'sel Consumer \<Rightarrow> AnomalyEvent list \<times> 'sel Consumer" where
  "evaluateRaw v data c =
     (case data of None \<Rightarrow> ([], c)
      | Some ev \<Rightarrow>
        (let srcNS = strVal ev ''namespace''; srcPod = strVal ev ''pod''; syscall = strVal ev ''syscall'' in
         if srcNS = [] \<or> srcPod = [] \<or> syscall = [] \<or> srcNS \<in> set (ignoredNamespaces (ee_ownNamespace v)) then ([], c)
         else case isTrapPod v srcNS (pi_Labels (ee_pod v)) c of
           (True, c1) \<Rightarrow> ([], c1)
         | (False, c1) \<Rightarrow> dispatch v ev (base_event v ev) (pi_Labels (ee_pod v)) c1))"


subsection \<open>Attribution\<close>

text \<open>What an event says about its source is kept by everything that is derived from it.\<close>

definition same_source :: "AnomalyEvent \<Rightarrow> AnomalyEvent \<Rightarrow> bool" where
  "same_source a b \<longleftrightarrow> ae_SrcNamespace a = ae_SrcNamespace b \<and> ae_SrcPod a = ae_SrcPod b
     \<and> ae_SrcDeployment a = ae_SrcDeployment b \<and> ae_SrcProcess a = ae_SrcProcess b \<and> ae_Syscall a = ae_Syscall b
     \<and> ae_SrcContainer a = ae_SrcContainer b"

named_theorems sources \<open>events derived from an event with the same source\<close>

lemma same_source_withDetail [sources]: "same_source (withDetail b k d) b"
  by (simp add: same_source_def withDetail_def)

lemma same_source_connect [sources]: "same_source (connectEvent b k i p s n) b"
  by (simp add: same_source_def connectEvent_def)

lemma same_source_baseline [sources]: "same_source a b \<Longrightarrow> same_source (a\<lparr>ae_BaselineState := x\<rparr>) b"
  by (simp add: same_source_def)

lemma same_source_recon [sources]: "same_source (recon_event b i p s n ra) b" "same_source (sendto_event b i p ra) b"
  by (simp_all add: same_source_def recon_event_def sendto_event_def Let_def split: AlertKind.split)

lemma same_source_probe [sources]: "same_source (honeypotProbe v ev (filled_base v b) tr i p) b"
  by (simp add: same_source_def honeypotProbe_def filled_base_def Let_def split: option.split)

lemma same_source_filled [sources]: "same_source (recon_event (filled_base v b) i p s n ra) b"
  by (cases "ra_Kind ra"; cases "ee_waitPod v") (simp_all add: same_source_def recon_event_def filled_base_def)

lemma evalConnect_source: "a \<in> set (fst (evalConnect v ev base ls c)) \<Longrightarrow> same_source a base"
  by (auto simp: evalConnect_def reconEvents_def Let_def case_prod_beta sources split: option.splits if_splits)

lemma evalSendto_source: "a \<in> set (fst (evalSendto v ev base c)) \<Longrightarrow> same_source a base"
  by (auto simp: evalSendto_def Let_def case_prod_beta sources split: if_splits)

lemma evalExecve_source: "a \<in> set (fst (evalExecve v ev base c)) \<Longrightarrow> same_source a base"
  by (auto simp: evalExecve_def Let_def case_prod_beta sources split: bool.splits option.splits if_splits)

lemma evalSocket_source: "a \<in> set (evalSocket ev base) \<Longrightarrow> same_source a base"
  by (auto simp: evalSocket_def Let_def case_prod_beta sources split: option.splits if_splits)

lemma evalBind_source: "a \<in> set (evalBind ev base) \<Longrightarrow> same_source a base"
  by (auto simp: evalBind_def Let_def same_source_def split: option.splits if_splits)

lemma evalAccept_source: "a \<in> set (evalAccept ev base) \<Longrightarrow> same_source a base"
  by (auto simp: evalAccept_def Let_def same_source_def split: if_splits)

lemma evalOther_source:
  "a \<in> set (evalIOUring base) \<Longrightarrow> same_source a base" "a \<in> set (evalCapset base) \<Longrightarrow> same_source a base"
  by (auto simp: evalIOUring_def evalCapset_def sources split: if_splits)

lemma evalBinaryTamper_source: "a \<in> set (evalBinaryTamper ev base) \<Longrightarrow> same_source a base"
  by (cases "find isSystemBinaryPath (tamperTargetPaths ev)"; cases "find isSystemBinaryName (tamperTargetNames ev)")
    (auto simp: evalBinaryTamper_def Let_def tamper_event_def sources split: if_splits)

lemmas pure_sources = evalSocket_source evalBind_source evalAccept_source evalOther_source evalBinaryTamper_source

lemma dispatch_source:
  assumes "a \<in> set (fst (dispatch v ev base ls c))"
  shows "same_source a base"
proof -
  let ?S = "{ev. same_source ev base}"
  have "set (fst (dispatch v ev base ls c)) \<subseteq> ?S"
    unfolding dispatch_def Let_def
    by (auto simp: sources split: if_splits
        dest: evalConnect_source evalSendto_source evalExecve_source pure_sources)
  with assms show ?thesis by auto
qed

text \<open>C29. Anomalies are attributed to the pod that caused the event, and the system's own namespaces
  and the honeypots themselves raise none: every anomaly reported for an event carries the event's
  namespace, pod, process, container and syscall, and comes from a namespace that is not ignored.\<close>

theorem anomalies_attributed:
  assumes "a \<in> set (fst (evaluateRaw v (Some ev) c))"
  shows "ae_SrcNamespace a = strVal ev ''namespace'' \<and> ae_SrcPod a = strVal ev ''pod'' \<and> ae_SrcProcess a = strVal ev ''process''
    \<and> ae_Syscall a = strVal ev ''syscall'' \<and> ae_SrcContainer a = strVal ev ''container''
    \<and> ae_SrcDeployment a = pi_Deployment (ee_pod v) \<and> ae_SrcNamespace a \<notin> set (ignoredNamespaces (ee_ownNamespace v))
    \<and> \<not> fst (isTrapPod v (ae_SrcNamespace a) (pi_Labels (ee_pod v)) c)"
proof -
  obtain b c1 where t: "isTrapPod v (strVal ev ''namespace'') (pi_Labels (ee_pod v)) c = (b, c1)" by fastforce
  from assms t have b: "\<not> b" "strVal ev ''namespace'' \<notin> set (ignoredNamespaces (ee_ownNamespace v))"
    and "a \<in> set (fst (dispatch v ev (base_event v ev) (pi_Labels (ee_pod v)) c1))"
    by (auto simp: evaluateRaw_def Let_def split: if_splits bool.splits)
  then have "same_source a (base_event v ev)" by (intro dispatch_source)
  then have s: "ae_SrcNamespace a = strVal ev ''namespace''" "ae_SrcPod a = strVal ev ''pod''" "ae_SrcProcess a = strVal ev ''process''"
    "ae_Syscall a = strVal ev ''syscall''" "ae_SrcContainer a = strVal ev ''container''"
    "ae_SrcDeployment a = pi_Deployment (ee_pod v)"
    by (simp_all add: same_source_def base_event_def Let_def)
  with b t show ?thesis by simp
qed


definition env0 :: "nat eval_env" where
  "env0 = \<lparr>ee_now = 100 * second, ee_ownNamespace = ''wolfee'', ee_pod = \<lparr>pi_Deployment = ''dep'', pi_Node = ''n1'', pi_PodIP = ''10.1.0.9'',
     pi_Labels = [], pi_ServiceAccount = []\<rparr>, ee_waitPod = None, ee_service = (\<lambda>_. None), ee_podIPs = (\<lambda>_ _. []),
     ee_traps = None, ee_select = (\<lambda>_. None), ee_listing = Inr [], ee_parsed_ts = None\<rparr>"

definition consumer0 :: "nat Consumer" where
  "consumer0 = \<lparr>co_base = baseline_New True (10 * minute), co_cache = [], co_recon = [],
     co_traps = \<lparr>ti_list = [], ti_at = 0, ti_warns = 0\<rparr>, co_memfd = []\<rparr>"

definition ptrace_map :: gomap where
  "ptrace_map = [(''syscall'', VStr ''ptrace''), (''namespace'', VStr ''shop''), (''pod'', VStr ''p''), (''process'', VStr ''gdb'')]"

theorem anomalies_attributed_witness:
  "\<exists>a. fst (evaluateRaw env0 (Some ptrace_map) consumer0) = [a] \<and> ae_SrcNamespace a = ''shop'' \<and> ae_SrcPod a = ''p''"
proof -
  let ?a = "withDetail (base_event env0 ptrace_map) KindProcessInjection []"
  have e: "fst (evaluateRaw env0 (Some ptrace_map) consumer0) = [?a]"
    by (simp add: evaluateRaw_def ptrace_map_def strVal_def env0_def ignoredNamespaces_def isTrapPod_def dispatch_def base_event_def Let_def)
  then have "?a \<in> set (fst (evaluateRaw env0 (Some ptrace_map) consumer0))" by simp
  from anomalies_attributed [OF this] e show ?thesis by (simp add: ptrace_map_def strVal_def)
qed

end
