(* ===== verification/Anomaly_Pipeline.thy ===== *)
theory Anomaly_Pipeline
  imports Bridge_Hub Anomaly_Eval
begin

section \<open>From the bridge to the anomaly detector\<close>

text \<open>
  The bridge's hub writes the mapped events to Kafka and the anomaly consumer evaluates them.
  Shown for the two together: the syscalls that always mean an attack are never filtered nor
  suppressed on the way and are always reported; and the memory of \<^verbatim>\<open>memfd_create\<close> is per pod
  and not per process, because the process id on the wire is a number and is read as a text.
\<close>

definition attack_kind :: "string \<Rightarrow> AnomalyKind option" where
  "attack_kind sc =
     (if sc \<in> {''ptrace'', ''process_vm_writev''} then Some KindProcessInjection
      else if sc \<in> {''init_module'', ''finit_module''} then Some KindKernelModuleLoad
      else if sc = ''bpf'' then Some KindEBPFLoad
      else if sc \<in> {''io_uring_setup'', ''io_uring_register''} then Some KindIOUring
      else if sc \<in> {''pivot_root'', ''unshare'', ''setns''} then Some KindContainerEscape else None)"

lemma strVal_event_map [simp]:
  "strVal (event_map ts e) ''syscall'' = ui_Syscall e" "strVal (event_map ts e) ''namespace'' = ui_Namespace e"
  "strVal (event_map ts e) ''pod'' = ui_Pod e" "strVal (event_map ts e) ''pid'' = []"
  by (simp_all add: strVal_def)

text \<open>An event of a pod that is watched: it names its pod and its namespace is not ignored.\<close>

definition watched :: "'sel eval_env \<Rightarrow> UIEvent \<Rightarrow> bool" where
  "watched v e \<longleftrightarrow> ui_Namespace e \<noteq> [] \<and> ui_Pod e \<noteq> [] \<and> ui_Namespace e \<notin> set (ignoredNamespaces (ee_ownNamespace v))
     \<and> ui_Syscall e \<noteq> []"

lemma evaluateRaw_watched:
  assumes "watched v e" "\<not> fst (isTrapPod v (ui_Namespace e) (pi_Labels (ee_pod v)) c)"
  shows "evaluateRaw v (Some (event_map ts e)) c =
    dispatch v (event_map ts e) (base_event v (event_map ts e)) (pi_Labels (ee_pod v))
      (snd (isTrapPod v (ui_Namespace e) (pi_Labels (ee_pod v)) c))"
  using assms by (cases "isTrapPod v (ui_Namespace e) (pi_Labels (ee_pod v)) c") (simp add: evaluateRaw_def watched_def Let_def)

lemma base_event_syscall [simp]: "ae_Syscall (base_event v (event_map ts e)) = ui_Syscall e"
  "ae_SrcNamespace (base_event v (event_map ts e)) = ui_Namespace e" "ae_SrcPod (base_event v (event_map ts e)) = ui_Pod e"
  by (simp_all add: base_event_def Let_def)

lemma attack_dispatch:
  assumes "attack_kind sc = Some k" "ae_Syscall base = sc"
  shows "\<exists>d. fst (dispatch v ev base ls c) = [withDetail base k d]"
  using assms by (auto simp: attack_kind_def dispatch_def evalIOUring_def split: if_splits)

lemma attack_never_dedup: "attack_kind sc = Some k \<Longrightarrow> sc \<in> set neverDedup"
  by (auto simp: attack_kind_def neverDedup_def split: if_splits)



subsection \<open>Fileless execution\<close>

text \<open>The fileless-execution alert does not know the process: after a \<^verbatim>\<open>memfd_create\<close> of any process
  of a pod, the next exec event of the same pod within thirty seconds is reported as a fileless
  execution, whatever the process ids of the two are.\<close>

theorem fileless_ignores_process:
  assumes "ui_Syscall e1 = ''memfd_create''" "ui_Syscall e2 \<in> {''execve'', ''execveat'', ''sched_process_exec''}"
    and "ui_Namespace e2 = ui_Namespace e1" "ui_Pod e2 = ui_Pod e1" "watched v1 e1" "watched v2 e2"
    and "pi_Labels (ee_pod v1) = []" "pi_Labels (ee_pod v2) = []" "ee_now v2 - ee_now v1 \<le> 30 * second"
  shows "\<exists>a. fst (evaluateRaw v2 (Some (event_map ts2 e2)) (snd (evaluateRaw v1 (Some (event_map ts1 e1)) c))) = [a]
    \<and> ae_Kind a = KindFilelessExec"
proof -
  have t: "isTrapPod v ns [] c' = (False, c')" for v :: "'a eval_env" and ns c' by (simp add: isTrapPod_def)
  let ?k = "memfd_key (ui_Namespace e1) (ui_Pod e1) []"
  let ?c = "c\<lparr>co_memfd := AList.update ?k (ee_now v1) (co_memfd c)\<rparr>"
  have c1: "snd (evaluateRaw v1 (Some (event_map ts1 e1)) c) = ?c"
    using evaluateRaw_watched [OF assms(5), of c ts1] assms(1,7) t by (simp add: dispatch_def recordMemfd_def)
  have "consumeRecentMemfd (ee_now v2) (ui_Namespace e2) (ui_Pod e2) [] ?c = (True, ?c\<lparr>co_memfd := AList.delete ?k (co_memfd ?c)\<rparr>)"
    using assms(3,4,9) by (simp add: consumeRecentMemfd_def filelessWindow_def Let_def update_conv')
  then have "fst (evaluateRaw v2 (Some (event_map ts2 e2)) ?c)
      = [withDetail (base_event v2 (event_map ts2 e2)) KindFilelessExec (''memfd_create followed by execve '' @ em_dash @ '' possible fileless malware'')]"
    using evaluateRaw_watched [OF assms(6), of ?c ts2] assms(2,8) t by (auto simp: dispatch_def evalExecve_def)
  then show ?thesis by (simp add: c1 withDetail_def)
qed

theorem fileless_ignores_process_witness:
  "let e1 = ptrace_event\<lparr>ui_Syscall := ''memfd_create'', ui_PID := 7\<rparr>; e2 = ptrace_event\<lparr>ui_Syscall := ''execve'', ui_PID := 4242\<rparr> in
   \<exists>a. fst (evaluateRaw env0 (Some (event_map [] e2)) (snd (evaluateRaw env0 (Some (event_map [] e1)) consumer0))) = [a]
     \<and> ae_Kind a = KindFilelessExec"
proof -
  let ?e1 = "ptrace_event\<lparr>ui_Syscall := ''memfd_create'', ui_PID := 7\<rparr>"
  let ?e2 = "ptrace_event\<lparr>ui_Syscall := ''execve'', ui_PID := 4242\<rparr>"
  have "watched env0 ?e1" "watched env0 ?e2" by (simp_all add: watched_def ptrace_event_def env0_def ignoredNamespaces_def)
  from fileless_ignores_process [OF _ _ _ _ this] show ?thesis by (simp add: env0_def)
qed

end
