(* ===== verification/Anomaly_Consumer.thy ===== *)
theory Anomaly_Consumer
  imports Anomaly_Eval Bridge_Alerter
begin

section \<open>Storing and forwarding anomalies (anomaly/internal/consumer/emit.go, consumer.go)\<close>

text \<open>
  The consumer reads runtime events from Kafka, suppresses anomalies it emitted less than five
  minutes before, stores the others under an identifier made of partition, offset and index, and
  forwards and broadcasts what was newly stored. A failed store leaves the offsets uncommitted. The
  database's answer to every attempt is an argument; an answer may be lost after the row was
  written. The Kafka client is a parameter of the model with its documented behaviour: a poll
  returns the records after the position and moves it, and a commit commits the position.
\<close>

definition emitDBAttempts :: nat where "emitDBAttempts = 3"
definition dedupWindow :: duration where "dedupWindow = 5 * minute"

datatype db_answer = DbReached | DbError string | DbLostAck string

type_synonym anomaly_table = "(string \<times> AnomalyEvent) list"

definition table_add :: "string \<Rightarrow> AnomalyEvent \<Rightarrow> anomaly_table \<Rightarrow> anomaly_table" where
  "table_add extID a db = (if map_of db extID = None then (extID, a) # db else db)"

text \<open>
  \<^verbatim>\<open>insertAnomaly\<close>: an error, or the identifier of the new row, or nothing when the row was there.
  No more answers means that the context was cancelled during the wait.
\<close>

fun insert_loop :: "nat \<Rightarrow> db_answer list \<Rightarrow> string \<Rightarrow> AnomalyEvent \<Rightarrow> anomaly_table \<Rightarrow> (string + nat option) \<times> anomaly_table" where
  "insert_loop attempt [] extID a db = (Inl ''context canceled'', db)"
| "insert_loop attempt (ans # rest) extID a db =
     (case ans of
        DbReached \<Rightarrow> (Inr (if map_of db extID = None then Some (length db + 1) else None), table_add extID a db)
      | DbError e \<Rightarrow> if attempt = emitDBAttempts then (Inl e, db) else insert_loop (attempt + 1) rest extID a db
      | DbLostAck e \<Rightarrow> if attempt = emitDBAttempts then (Inl e, table_add extID a db)
                       else insert_loop (attempt + 1) rest extID a (table_add extID a db))"

definition insertAnomaly :: "db_answer list \<Rightarrow> string \<Rightarrow> AnomalyEvent \<Rightarrow> anomaly_table \<Rightarrow> (string + nat option) \<times> anomaly_table" where
  "insertAnomaly answers extID a db = insert_loop 1 answers extID a db"

subsection \<open>Suppression\<close>

definition dedupExtra :: "AnomalyEvent \<Rightarrow> string" where
  "dedupExtra a =
     (case ae_Kind a of
        KindUnexpectedBinary \<Rightarrow> ae_Detail a | KindBinaryTampering \<Rightarrow> ae_Detail a
      | KindSuspiciousBind \<Rightarrow> nat_str (ae_DstPort a) | KindSuspiciousPort \<Rightarrow> nat_str (ae_DstPort a)
      | KindUnexpectedListen \<Rightarrow> nat_str (ae_DstPort a) | _ \<Rightarrow> [])"

definition anomaly_dedupKey :: "AnomalyEvent \<Rightarrow> string" where
  "anomaly_dedupKey a =
     ae_SrcNamespace a @ ''/'' @ ae_SrcPod a @ ''/'' @ ae_SrcProcess a @ ''/'' @ ae_Syscall a @ ''/'' @ kind_name (ae_Kind a)
     @ (if ae_DstIP a \<noteq> [] then ''/'' @ ae_DstIP a else [])
     @ (if dedupExtra a \<noteq> [] then ''/'' @ dedupExtra a else [])"

definition sweep_seen :: "gotime \<Rightarrow> (string \<times> gotime) list \<Rightarrow> (string \<times> gotime) list" where
  "sweep_seen now seen = forget_where (\<lambda>t. dedupWindow < now - t) seen"

definition isDuplicate :: "gotime \<Rightarrow> string \<Rightarrow> (string \<times> gotime) list \<Rightarrow> bool \<times> (string \<times> gotime) list" where
  "isDuplicate now key seen =
     (let kept = sweep_seen now seen in
      (case map_of kept key of Some prev \<Rightarrow> now - prev < dedupWindow | None \<Rightarrow> False, kept))"

definition markEmitted :: "gotime \<Rightarrow> string \<Rightarrow> (string \<times> gotime) list \<Rightarrow> (string \<times> gotime) list" where
  "markEmitted now key seen = AList.update key now seen"

subsection \<open>Emitting\<close>

record 'sel anomaly_state =
  as_consumer :: "'sel Consumer"
  as_seen :: "(string \<times> gotime) list"
  as_db :: anomaly_table
  as_sent :: "AnomalyEvent AlertLog list"
  as_broadcast :: "AnomalyEvent list"
  as_processed :: nat
  as_anomalies :: nat
  as_emitFailures :: nat
  as_detected :: "string list"
  as_suppressed :: "string list"

definition dst_text :: "AnomalyEvent \<Rightarrow> string" where
  "dst_text a =
     (let dst = (if ae_DstService a \<noteq> [] then ae_DstService a @ '' ('' @ ae_DstIP a @ '')'' else ae_DstIP a) in
      if dst = [] then ae_Detail a else dst)"

definition anomaly_alert :: "AnomalyEvent \<Rightarrow> AnomalyEvent AlertLog" where
  "anomaly_alert a = \<lparr>al_ID = 0, al_ClusterID = [], al_ClusterName = [], al_Timestamp = ae_Ts a, al_DetType = ''Anomaly'',
     al_Source = ''anomaly-detector'', al_RuleID = [], al_RuleName = kind_name (ae_Kind a), al_Severity = [],
     al_Namespace = ae_SrcNamespace a, al_Target = (if ae_SrcPod a = [] then ae_SrcDeployment a else ae_SrcPod a),
     al_Syscall = ae_Syscall a, al_Detail = (if ae_Detail a = [] then dst_text a else ae_Detail a), al_Persist = True,
     al_Fingerprint = ae_SrcNamespace a @ ''/'' @ ae_SrcPod a @ ''/'' @ kind_name (ae_Kind a) @ ''/'' @ ae_DstIP a @ dedupExtra a,
     al_Data = a\<rparr>"

definition emit :: "db_answer list \<Rightarrow> string \<Rightarrow> AnomalyEvent \<Rightarrow> 'sel anomaly_state \<Rightarrow> string option \<times> 'sel anomaly_state" where
  "emit answers extID a s =
     (case insertAnomaly answers extID a (as_db s) of
        (Inl e, db) \<Rightarrow> (Some (''insert anomaly_events ext_id='' @ extID @ '': '' @ e), s\<lparr>as_db := db\<rparr>)
      | (Inr None, db) \<Rightarrow> (None, s\<lparr>as_db := db\<rparr>)
      | (Inr (Some n), db) \<Rightarrow>
          (let a' = a\<lparr>ae_ID := nat_str n\<rparr> in
           (None, s\<lparr>as_db := db, as_sent := as_sent s @ [anomaly_alert a'], as_broadcast := as_broadcast s @ [a']\<rparr>)))"

text \<open>
  The anomalies of one record, in order: \<open>answers\<close> holds the database's answers per anomaly. The
  fields \<open>as_detected\<close> and \<open>as_suppressed\<close> are a history of what was found and what was dropped
  as a repeat, by identifier.
\<close>

definition ext_id :: "string \<Rightarrow> nat \<Rightarrow> string" where
  "ext_id rid i = rid @ '':'' @ nat_str i"

fun emit_events :: "gotime \<Rightarrow> string \<Rightarrow> nat \<Rightarrow> db_answer list list \<Rightarrow> AnomalyEvent list \<Rightarrow> 'sel anomaly_state
    \<Rightarrow> string option \<times> 'sel anomaly_state" where
  "emit_events now rid i answers [] s = (None, s)"
| "emit_events now rid i answers (a # as) s =
     (let s0 = s\<lparr>as_detected := ext_id rid i # as_detected s\<rparr>;
          (dup, kept) = isDuplicate now (anomaly_dedupKey a) (as_seen s0)
      in if dup then emit_events now rid (i + 1) (tl answers) as (s0\<lparr>as_seen := kept, as_suppressed := ext_id rid i # as_suppressed s0\<rparr>)
         else case emit (case answers of [] \<Rightarrow> [] | x # _ \<Rightarrow> x) (ext_id rid i) a (s0\<lparr>as_seen := kept\<rparr>) of
           (Some e, s1) \<Rightarrow> (Some e, s1\<lparr>as_emitFailures := as_emitFailures s1 + 1\<rparr>)
         | (None, s1) \<Rightarrow> emit_events now rid (i + 1) (tl answers) as
             (s1\<lparr>as_seen := markEmitted now (anomaly_dedupKey a) (as_seen s1), as_anomalies := as_anomalies s1 + 1\<rparr>))"

text \<open>One record: its identifier \<^verbatim>\<open>partition:offset\<close>, what it decodes to, and the answers it meets.\<close>

record 'sel input =
  in_rid :: string
  in_data :: "gomap option"
  in_env :: "'sel eval_env"
  in_answers :: "db_answer list list"

definition process_record :: "'sel input \<Rightarrow> 'sel anomaly_state \<Rightarrow> string option \<times> 'sel anomaly_state" where
  "process_record r s =
     (let (es, c) = evaluateRaw (in_env r) (in_data r) (as_consumer s) in
      emit_events (ee_now (in_env r)) (in_rid r) 0 (in_answers r) es (s\<lparr>as_consumer := c, as_processed := as_processed s + 1\<rparr>))"

fun process_batch :: "'sel input list \<Rightarrow> 'sel anomaly_state \<Rightarrow> string option \<times> 'sel anomaly_state" where
  "process_batch [] s = (None, s)"
| "process_batch (r # rs) s =
     (case process_record r s of (Some e, s1) \<Rightarrow> (Some e, s1) | (None, s1) \<Rightarrow> process_batch rs s1)"

subsection \<open>The run loop\<close>

record 'sel kafka_state =
  kf_records :: "'sel input list"
  kf_position :: nat
  kf_committed :: nat
  kf_state :: "'sel anomaly_state"

text \<open>
  One turn of \<^verbatim>\<open>Run\<close> that fetches \<open>n\<close> records; \<open>errs\<close>: the poll also reported errors;
  \<open>commit_ok\<close>: the commit was accepted.
\<close>

definition run_turn :: "nat \<Rightarrow> bool \<Rightarrow> bool \<Rightarrow> 'sel kafka_state \<Rightarrow> 'sel kafka_state" where
  "run_turn n errs commit_ok k =
     (let batch = take n (drop (kf_position k) (kf_records k));
          pos = kf_position k + length batch;
          (err, s) = process_batch batch (kf_state k);
          k1 = k\<lparr>kf_position := pos, kf_state := s\<rparr>
      in case err of
           Some e \<Rightarrow> k1
         | None \<Rightarrow> if errs \<and> batch = [] then k1
                   else if commit_ok then k1\<lparr>kf_committed := pos\<rparr> else k1)"

text \<open>A restart reads again from the committed offset; what the process remembered is gone.\<close>

definition restart :: "'sel Consumer \<Rightarrow> 'sel kafka_state \<Rightarrow> 'sel kafka_state" where
  "restart c k = k\<lparr>kf_position := kf_committed k,
     kf_state := (kf_state k)\<lparr>as_consumer := c, as_seen := [], as_emitFailures := 0\<rparr>\<rparr>"


subsection \<open>Suppression is spaced\<close>

definition seen_mark :: "gotime \<Rightarrow> string \<Rightarrow> (string \<times> gotime) list \<Rightarrow> bool \<times> (string \<times> gotime) list" where
  "seen_mark now key seen =
     (let (dup, kept) = isDuplicate now key seen in (\<not> dup, if dup then kept else markEmitted now key kept))"

lemma map_of_sweep:
  "map_of (sweep_seen now seen) k = Some l \<Longrightarrow> now - l \<le> dedupWindow"
  by (induction seen) (auto simp: sweep_seen_def forget_where_def split: if_splits)

lemma sweep_seen_keeps: "map_of seen k = Some l \<Longrightarrow> now - l \<le> dedupWindow \<Longrightarrow> map_of (sweep_seen now seen) k = Some l"
  by (simp add: sweep_seen_def forget_keeps)

text \<open>A table whose keys are distinct, as a Go map's are; every operation keeps them so.\<close>

typedef seen_table = "{m :: (string \<times> gotime) list. distinct (map fst m)}"
  by (intro exI [of _ "[]"]) simp

setup_lifting type_definition_seen_table

lift_definition st_lookup :: "seen_table \<Rightarrow> string \<Rightarrow> gotime option" is "\<lambda>m. map_of m" .

lift_definition st_sweep :: "gotime \<Rightarrow> seen_table \<Rightarrow> seen_table" is sweep_seen
  by (simp add: sweep_seen_def)

lift_definition st_fresh :: "gotime \<Rightarrow> string \<Rightarrow> seen_table \<Rightarrow> bool" is "\<lambda>now k m. fst (seen_mark now k m)" .

lift_definition st_next :: "gotime \<Rightarrow> string \<Rightarrow> seen_table \<Rightarrow> seen_table" is "\<lambda>now k m. snd (seen_mark now k m)"
  by (simp add: seen_mark_def isDuplicate_def markEmitted_def sweep_seen_def Let_def distinct_update)

lemma sweep_seen_lookup:
  "distinct (map fst m) \<Longrightarrow> map_of (sweep_seen now m) k =
     (case map_of m k of None \<Rightarrow> None | Some l \<Rightarrow> if dedupWindow < now - l then None else Some l)"
proof (induction m)
  case (Cons kv m)
  have "map_of (sweep_seen now m) (fst kv) = None"
    using Cons.prems by (force simp: sweep_seen_def forget_where_def map_of_eq_None_iff)
  with Cons show ?case by (cases kv) (auto simp: sweep_seen_def forget_where_def)
qed (simp add: sweep_seen_def forget_where_def)

interpretation anomaly_dedup: dedup_table st_lookup "\<lambda>now k t. (st_fresh now k t, st_next now k t)" st_sweep "\<lambda>_. 0" "\<lambda>_. dedupWindow"
proof unfold_locales
  show "fst (st_fresh now k t, st_next now k t) = (case st_lookup t k of None \<Rightarrow> True | Some l \<Rightarrow> dedupWindow \<le> now - l)" for now k t
    by (transfer, auto simp: seen_mark_def isDuplicate_def Let_def sweep_seen_lookup split: option.splits)
  show "st_lookup (snd (st_fresh now k t, st_next now k t)) k = Some now" if "fst (st_fresh now k t, st_next now k t)" for now k t
    using that by (transfer, auto simp: seen_mark_def isDuplicate_def markEmitted_def Let_def update_conv' split: if_splits)
  show "st_lookup (snd (st_fresh now k t, st_next now k t)) j = Some l"
    if "st_lookup t j = Some l" "now - l < dedupWindow" for now k t j l
    using that by (transfer, auto simp: seen_mark_def isDuplicate_def markEmitted_def Let_def update_conv' sweep_seen_keeps
        sweep_seen_lookup split: option.splits if_splits)
  show "st_lookup (st_sweep now t) j = Some l" if "st_lookup t j = Some l" "now - l < dedupWindow" for now t j l
    using that by (transfer, simp add: sweep_seen_keeps)
qed simp_all

lemma anomaly_repeats_spaced:
  assumes "anomaly_dedup.run ops t = (t', marks)" and "sorted (map fst ops)"
  shows "sorted_wrt (\<lambda>x y. snd x = snd y \<longrightarrow> 5 * minute \<le> fst y - fst x) marks"
  using anomaly_dedup.fresh_marks_spaced [OF assms(1) _ _ assms(2)] by (simp add: dedupWindow_def)

subsection \<open>What is detected is stored\<close>

lemma table_add_dom: "dom (map_of (table_add x a db)) = insert x (dom (map_of db))"
  by (auto simp: table_add_def split: if_splits)

lemma insert_loop_dom:
  "insert_loop n answers x a db = (r, db') \<Longrightarrow>
     dom (map_of db) \<subseteq> dom (map_of db') \<and> (\<forall>y. r = Inr y \<longrightarrow> x \<in> dom (map_of db'))"
proof (induction n answers x a db rule: insert_loop.induct)
  case (2 n ans rest x a db)
  show ?case
  proof (cases ans)
    case DbReached
    with "2.prems" have "db' = table_add x a db" by simp
    then show ?thesis by (auto simp: table_add_dom)
  next
    case (DbError e)
    with 2 show ?thesis by (cases "n = emitDBAttempts") auto
  next
    case (DbLostAck e)
    show ?thesis
    proof (cases "n = emitDBAttempts")
      case True
      with DbLostAck "2.prems" have "db' = table_add x a db" "\<exists>e. r = Inl e" by auto
      then show ?thesis by (auto simp: table_add_dom)
    next
      case False
      with "2.IH"(2) [OF DbLostAck] "2.prems" DbLostAck show ?thesis by (auto simp: table_add_dom)
    qed
  qed
qed auto

text \<open>The bookkeeping of an emission: only the table and the outputs change.\<close>

lemma emit_effect:
  assumes "emit answers x a s = (r, s')"
  shows "as_detected s' = as_detected s" "as_suppressed s' = as_suppressed s" "as_emitFailures s' = as_emitFailures s"
    "dom (map_of (as_db s)) \<subseteq> dom (map_of (as_db s'))" "r = None \<Longrightarrow> x \<in> dom (map_of (as_db s'))"
proof -
  obtain q db where q: "insertAnomaly answers x a (as_db s) = (q, db)" by fastforce
  have "as_db s' = db" "r = None \<Longrightarrow> \<exists>y. q = Inr y"
    "as_detected s' = as_detected s" "as_suppressed s' = as_suppressed s" "as_emitFailures s' = as_emitFailures s"
    using assms q by (auto simp: emit_def Let_def split: sum.splits option.splits)
  with insert_loop_dom [of 1 answers x a "as_db s" q db] q
  show "as_detected s' = as_detected s" "as_suppressed s' = as_suppressed s" "as_emitFailures s' = as_emitFailures s"
    "dom (map_of (as_db s)) \<subseteq> dom (map_of (as_db s'))" "r = None \<Longrightarrow> x \<in> dom (map_of (as_db s'))"
    by (auto simp: insertAnomaly_def)
qed

definition accounted :: "'sel anomaly_state \<Rightarrow> bool" where
  "accounted s \<longleftrightarrow> set (as_detected s) \<subseteq> dom (map_of (as_db s)) \<union> set (as_suppressed s)"

lemma emit_events_accounted:
  "emit_events now rid i answers as s = (r, s') \<Longrightarrow> accounted s \<Longrightarrow>
     (r = None \<longrightarrow> accounted s' \<and> as_emitFailures s' = as_emitFailures s)
     \<and> (r \<noteq> None \<longrightarrow> as_emitFailures s' = as_emitFailures s + 1)"
proof (induction as arbitrary: i answers s)
  case (Cons a as)
  let ?s0 = "s\<lparr>as_detected := ext_id rid i # as_detected s\<rparr>"
  obtain dup kept where d: "isDuplicate now (anomaly_dedupKey a) (as_seen s) = (dup, kept)" by fastforce
  show ?case
  proof (cases dup)
    case True
    let ?s = "?s0\<lparr>as_seen := kept, as_suppressed := ext_id rid i # as_suppressed ?s0\<rparr>"
    have "accounted ?s" using Cons.prems(2) by (auto simp: accounted_def)
    moreover have "emit_events now rid (i + 1) (tl answers) as ?s = (r, s')" using Cons.prems(1) d True by (simp add: Let_def)
    ultimately show ?thesis using Cons.IH [of "i + 1" "tl answers" ?s] by simp
  next
    case False
    obtain q s1 where e: "emit (case answers of [] \<Rightarrow> [] | x # _ \<Rightarrow> x) (ext_id rid i) a (?s0\<lparr>as_seen := kept\<rparr>) = (q, s1)" by fastforce
    note ef = emit_effect [OF e]
    show ?thesis
    proof (cases q)
      case None
      let ?s = "s1\<lparr>as_seen := markEmitted now (anomaly_dedupKey a) (as_seen s1), as_anomalies := as_anomalies s1 + 1\<rparr>"
      have "accounted ?s" using Cons.prems(2) ef None by (auto simp: accounted_def)
      moreover have "emit_events now rid (i + 1) (tl answers) as ?s = (r, s')" using Cons.prems(1) d False e None by (simp add: Let_def)
      ultimately show ?thesis using Cons.IH [of "i + 1" "tl answers" ?s] ef(3) by simp
    next
      case (Some er)
      with Cons.prems(1) d False e ef(3) show ?thesis by (auto simp: Let_def)
    qed
  qed
qed auto


lemma emit_events_mono: "emit_events now rid i answers as s = (r, s') \<Longrightarrow> as_emitFailures s \<le> as_emitFailures s'"
proof (induction as arbitrary: i answers s)
  case (Cons a as)
  let ?s0 = "s\<lparr>as_detected := ext_id rid i # as_detected s\<rparr>"
  obtain dup kept where d: "isDuplicate now (anomaly_dedupKey a) (as_seen s) = (dup, kept)" by fastforce
  obtain q s1 where e: "emit (case answers of [] \<Rightarrow> [] | x # _ \<Rightarrow> x) (ext_id rid i) a (?s0\<lparr>as_seen := kept\<rparr>) = (q, s1)" by fastforce
  note ef = emit_effect(3) [OF e]
  show ?case
  proof (cases "dup \<or> q = None")
    case True
    then obtain s2 where "emit_events now rid (i + 1) (tl answers) as s2 = (r, s')" "as_emitFailures s2 = as_emitFailures s"
      using Cons.prems d e ef by (cases dup) (fastforce simp: Let_def)+
    then show ?thesis using Cons.IH by metis
  next
    case False
    then show ?thesis using Cons.prems d e ef by (auto simp: Let_def)
  qed
qed simp

lemma process_batch_mono: "process_batch rs s = (r, s') \<Longrightarrow> as_emitFailures s \<le> as_emitFailures s'"
proof (induction rs arbitrary: s)
  case (Cons x rs)
  obtain q s1 where p: "process_record x s = (q, s1)" by fastforce
  obtain es c where v: "evaluateRaw (in_env x) (in_data x) (as_consumer s) = (es, c)" by fastforce
  have "as_emitFailures s \<le> as_emitFailures s1"
    using p v emit_events_mono [of _ _ _ _ _ "s\<lparr>as_consumer := c, as_processed := as_processed s + 1\<rparr>"] by (fastforce simp: process_record_def)
  with Cons p show ?case by (cases q) (auto intro: order_trans)
qed simp

lemma process_batch_accounted:
  "process_batch rs s = (r, s') \<Longrightarrow> accounted s \<Longrightarrow>
     (r = None \<longrightarrow> accounted s' \<and> as_emitFailures s' = as_emitFailures s) \<and> (r \<noteq> None \<longrightarrow> as_emitFailures s < as_emitFailures s')"
proof (induction rs arbitrary: s)
  case (Cons x rs)
  obtain q s1 where p: "process_record x s = (q, s1)" by fastforce
  obtain es c where v: "evaluateRaw (in_env x) (in_data x) (as_consumer s) = (es, c)" by fastforce
  let ?s = "s\<lparr>as_consumer := c, as_processed := as_processed s + 1\<rparr>"
  have "accounted ?s" using Cons.prems(2) by (simp add: accounted_def)
  moreover have "emit_events (ee_now (in_env x)) (in_rid x) 0 (in_answers x) es ?s = (q, s1)"
    using p v by (simp add: process_record_def)
  ultimately have "(q = None \<longrightarrow> accounted s1 \<and> as_emitFailures s1 = as_emitFailures ?s)
      \<and> (q \<noteq> None \<longrightarrow> as_emitFailures s1 = as_emitFailures ?s + 1)"
    by (rule emit_events_accounted [rotated])
  then have step: "(q = None \<longrightarrow> accounted s1 \<and> as_emitFailures s1 = as_emitFailures s)
      \<and> (q \<noteq> None \<longrightarrow> as_emitFailures s1 = as_emitFailures s + 1)"
    by simp
  show ?case using Cons.IH [of s1] Cons.prems p step by (cases q) auto
qed simp

text \<open>The states one life of the process goes through, from the start on a topic and an empty history.\<close>

inductive consumer_reach :: "'sel input list \<Rightarrow> 'sel kafka_state \<Rightarrow> bool" for rs where
  start: "kf_records k = rs \<Longrightarrow> kf_position k = kf_committed k \<Longrightarrow> kf_committed k \<le> length rs \<Longrightarrow> as_detected (kf_state k) = []
      \<Longrightarrow> as_emitFailures (kf_state k) = 0 \<Longrightarrow> consumer_reach rs k"
| turn: "consumer_reach rs k \<Longrightarrow> consumer_reach rs (run_turn n errs commit_ok k)"

lemma run_turn_state: "kf_state (run_turn n errs ok k) = snd (process_batch (take n (drop (kf_position k) (kf_records k))) (kf_state k))"
  by (simp add: run_turn_def Let_def split: prod.split option.split)

lemma run_turn_kafka:
  "kf_records (run_turn n errs ok k) = kf_records k"
  "kf_position (run_turn n errs ok k) = kf_position k + min n (length (kf_records k) - kf_position k)"
  "kf_committed (run_turn n errs ok k) \<in> {kf_committed k, kf_position (run_turn n errs ok k)}"
  by (simp_all add: run_turn_def Let_def min.commute split: prod.split option.split)

lemma consumer_reach_inv:
  "consumer_reach rs k \<Longrightarrow>
     kf_records k = rs \<and> kf_committed k \<le> kf_position k \<and> kf_position k \<le> length rs
     \<and> (as_emitFailures (kf_state k) = 0 \<longrightarrow> accounted (kf_state k))"
proof (induction rule: consumer_reach.induct)
  case (turn k n errs ok)
  obtain r s' where b: "process_batch (take n (drop (kf_position k) (kf_records k))) (kf_state k) = (r, s')" by fastforce
  have s': "kf_state (run_turn n errs ok k) = s'" by (simp add: run_turn_state b)
  have "as_emitFailures s' = 0 \<longrightarrow> accounted s'"
  proof
    assume z: "as_emitFailures s' = 0"
    have "as_emitFailures (kf_state k) \<le> as_emitFailures s'" using process_batch_mono [OF b] .
    with z turn.IH process_batch_accounted [OF b] show "accounted s'" by (cases r) auto
  qed
  then show ?case using turn.IH s' run_turn_kafka [of n errs ok k] by auto
qed (simp add: accounted_def)


text \<open>C11. As long as no store has failed, every anomaly the consumer detected has a row of its own
  identifier or was dropped by the repeat check, and the committed offset never passes what was
  read.\<close>

theorem detected_is_stored:
  assumes "consumer_reach rs k" and "as_emitFailures (kf_state k) = 0" and "x \<in> set (as_detected (kf_state k))"
  shows "(map_of (as_db (kf_state k)) x \<noteq> None \<or> x \<in> set (as_suppressed (kf_state k))) \<and> kf_committed k \<le> kf_position k"
  using consumer_reach_inv [OF assms(1)] assms(2,3) by (auto simp: accounted_def)

definition input0 :: "db_answer list list \<Rightarrow> nat input" where
  "input0 answers = \<lparr>in_rid = ''0:0'', in_data = Some ptrace_map, in_env = env0, in_answers = answers\<rparr>"

definition kafka0 :: "nat input list \<Rightarrow> nat kafka_state" where
  "kafka0 rs = \<lparr>kf_records = rs, kf_position = 0, kf_committed = 0, kf_state = \<lparr>as_consumer = consumer0, as_seen = [], as_db = [],
     as_sent = [], as_broadcast = [], as_processed = 0, as_anomalies = 0, as_emitFailures = 0, as_detected = [], as_suppressed = []\<rparr>\<rparr>"

lemma ptrace_evaluates:
  "evaluateRaw env0 (Some ptrace_map) consumer0 = ([withDetail (base_event env0 ptrace_map) KindProcessInjection []], consumer0)"
  by (simp add: evaluateRaw_def ptrace_map_def strVal_def env0_def ignoredNamespaces_def isTrapPod_def dispatch_def base_event_def Let_def)

lemmas consumer_run_simps = kafka0_def input0_def process_record_def ptrace_evaluates isDuplicate_def sweep_seen_def forget_where_def
  emit_def insertAnomaly_def emitDBAttempts_def Let_def

theorem detected_is_stored_witness:
  "let k = run_turn 1 False True (kafka0 [input0 [[DbError ''busy'', DbReached]]]) in
   as_detected (kf_state k) = [''0:0:0''] \<and> map_of (as_db (kf_state k)) ''0:0:0'' \<noteq> None \<and> kf_committed k = 1"
proof -
  let ?rs = "[input0 [[DbError ''busy'', DbReached]]]"
  let ?k = "run_turn 1 False True (kafka0 ?rs)"
  have reach: "consumer_reach ?rs ?k"
    by (intro consumer_reach.turn consumer_reach.start) (simp_all add: kafka0_def)
  have ids: "ext_id ''0:0'' 0 = ''0:0:0''" by (simp add: ext_id_def nat_str.simps digit_char_def char_of_def bit_0)
  have st: "as_emitFailures (kf_state ?k) = 0" "as_detected (kf_state ?k) = [''0:0:0'']" "as_suppressed (kf_state ?k) = []" "kf_committed ?k = 1"
    by (simp_all add: run_turn_def consumer_run_simps table_add_def ids)
  from detected_is_stored [OF reach st(1), of "''0:0:0''"] st show ?thesis by (simp add: Let_def)
qed

text \<open>C38. A record whose anomaly could not be stored is skipped: the loop leaves its offsets
  uncommitted, but goes on from the position after it, and the next turn that succeeds commits past
  it. A restart then does not read the record again.\<close>

theorem failed_record_committed_past:
  assumes "drop (kf_position k) (kf_records k) = r # r' # rest"
    and "process_record r (kf_state k) = (Some e, s1)" and "process_record r' s1 = (None, s2)"
  shows "kf_committed (run_turn 1 False ok k) = kf_committed k
    \<and> kf_position (restart c (run_turn 1 False True (run_turn 1 False ok k))) = kf_position k + 2"
proof -
  have d: "drop (kf_position k + 1) (kf_records k) = r' # rest"
    using arg_cong [OF assms(1), of tl] by (simp add: drop_Suc tl_drop)
  let ?k1 = "k\<lparr>kf_position := kf_position k + 1, kf_state := s1\<rparr>"
  have one: "run_turn 1 False ok k = ?k1" using assms by (simp add: run_turn_def)
  have "run_turn 1 False True ?k1 = ?k1\<lparr>kf_position := kf_position k + 2, kf_state := s2, kf_committed := kf_position k + 2\<rparr>"
    using assms(3) d by (simp add: run_turn_def)
  then show ?thesis by (simp only: one restart_def) simp
qed

definition bad_input :: "nat input" where
  "bad_input = \<lparr>in_rid = ''0:1'', in_data = None, in_env = env0, in_answers = []\<rparr>"

theorem failed_record_committed_past_witness:
  "let k = kafka0 [input0 [replicate 3 (DbError ''down'')], bad_input];
       k' = run_turn 1 False True (run_turn 1 False True k)
   in as_detected (kf_state k') = [''0:0:0''] \<and> as_db (kf_state k') = [] \<and> as_suppressed (kf_state k') = []
      \<and> kf_position (restart consumer0 k') = 2"
proof -
  let ?r = "input0 [replicate 3 (DbError ''down'')]"
  let ?k = "kafka0 [?r, bad_input]"
  have ids: "ext_id ''0:0'' 0 = ''0:0:0''" by (simp add: ext_id_def nat_str.simps digit_char_def char_of_def bit_0)
  define s1 where "s1 = snd (process_record ?r (kf_state ?k))"
  have d1: "as_detected s1 = [''0:0:0'']" "as_db s1 = []" "as_suppressed s1 = []"
    by (simp_all add: s1_def consumer_run_simps ids numeral_3_eq_3)
  obtain e where r1: "process_record ?r (kf_state ?k) = (Some e, s1)"
    by (simp add: s1_def consumer_run_simps numeral_3_eq_3)
  let ?s2 = "s1\<lparr>as_consumer := snd (evaluateRaw env0 None (as_consumer s1)), as_processed := as_processed s1 + 1\<rparr>"
  have r2: "process_record bad_input s1 = (None, ?s2)"
    by (simp add: process_record_def bad_input_def evaluateRaw_def)
  have p: "kf_position (restart consumer0 (run_turn 1 False True (run_turn 1 False True ?k))) = 0 + 2"
    using failed_record_committed_past [of ?k ?r bad_input "[]" e s1 ?s2 True consumer0] r1 r2 by (simp add: kafka0_def)
  have "kf_state (run_turn 1 False True (run_turn 1 False True ?k)) = ?s2"
    using r1 r2 by (simp add: run_turn_def) (simp add: kafka0_def run_turn_def)
  with p d1 show ?thesis by (simp add: Let_def)
qed

text \<open>When the answer to an insert is lost and the retry finds the row, the anomaly is stored
  but neither forwarded nor broadcast, and counts as emitted.\<close>

theorem lost_answer_drops_alert:
  assumes "map_of (as_db s) x = None"
  shows "emit [DbLostAck e, DbReached] x a s = (None, s\<lparr>as_db := (x, a) # as_db s\<rparr>)
    \<and> (\<exists>a'. emit [DbReached] x a s = (None, s\<lparr>as_db := (x, a) # as_db s, as_sent := as_sent s @ [anomaly_alert a'],
           as_broadcast := as_broadcast s @ [a']\<rparr>))"
  using assms by (auto simp: emit_def insertAnomaly_def emitDBAttempts_def table_add_def Let_def)

theorem lost_answer_drops_alert_witness:
  "as_sent (snd (emit [DbLostAck ''reset'', DbReached] ''0:0:0'' (base_event env0 ptrace_map) (kf_state (kafka0 [])))) = []
   \<and> length (as_sent (snd (emit [DbReached] ''0:0:0'' (base_event env0 ptrace_map) (kf_state (kafka0 []))))) = 1"
proof -
  have s: "map_of (as_db (kf_state (kafka0 []))) ''0:0:0'' = None" "as_sent (kf_state (kafka0 [])) = []" by (simp_all add: kafka0_def)
  from lost_answer_drops_alert [OF s(1), of "''reset''" "base_event env0 ptrace_map"] s(2)
  show ?thesis by auto
qed

end
