(* ===== verification/Go_Net_Text.thy ===== *)
theory Go_Net_Text
  imports Client_IP
begin

section \<open>Writing and reading back dotted addresses\<close>

text \<open>
  \<^verbatim>\<open>IP.String\<close> and \<^verbatim>\<open>IPNet.String\<close> followed by \<^verbatim>\<open>net.ParseIP\<close> and \<^verbatim>\<open>net.ParseCIDR\<close> give the
  address or network back, for addresses in dotted form.
\<close>

lemma of_char_digit: "d < 10 \<Longrightarrow> (of_char (digit_char d) :: nat) = 48 + d"
  by (simp add: digit_char_def of_char_of)

lemma digit_char_neq: "d < 10 \<Longrightarrow> of_char c < (48 :: nat) \<or> (57 :: nat) < of_char c \<Longrightarrow> digit_char d \<noteq> c"
  using of_char_digit [of d] by auto

lemma punct_code: "(of_char (CHR ''.'') :: nat) = 46" "(of_char (CHR ''/'') :: nat) = 47" "(of_char (CHR '':'') :: nat) = 58"
    "(of_char (CHR ''%'') :: nat) = 37"
  by simp_all

lemma nat_str_no_punct: "of_char c < (48 :: nat) \<or> (57 :: nat) < of_char c \<Longrightarrow> c \<notin> set (nat_str n)"
  using nat_str_digits digit_char_neq by blast

lemma nat_str_small:
  "n < 256 \<Longrightarrow> nat_str n =
     (if n < 10 then [digit_char n]
      else if n < 100 then [digit_char (n div 10), digit_char (n mod 10)]
      else [digit_char (n div 100), digit_char (n div 10 mod 10), digit_char (n mod 10)])"
proof -
  assume "n < 256"
  then have "n div 10 div 10 < 10" by simp
  moreover have "n < 100 \<longleftrightarrow> n div 10 < 10" by auto
  moreover have "n div 10 div 10 = n div 100" by simp
  ultimately show ?thesis
    by (simp add: nat_str.simps [of n] nat_str.simps [of "n div 10"] nat_str.simps [of "n div 100"])
qed

lemma ipv4_two_digits: "0 < a \<Longrightarrow> a < 10 \<Longrightarrow> b < 10 \<Longrightarrow>
    ipv4_loop prev 0 0 acc (digit_char a # digit_char b # s) = ipv4_loop (Some (digit_char b)) (10 * a + b) 2 acc s"
  by (simp add: numeral_2_eq_2)

lemma ipv4_three_digits: "0 < a \<Longrightarrow> a < 10 \<Longrightarrow> b < 10 \<Longrightarrow> c < 10 \<Longrightarrow> 10 * (10 * a + b) + c \<le> 255 \<Longrightarrow>
    ipv4_loop prev 0 0 acc (digit_char a # digit_char b # digit_char c # s)
    = ipv4_loop (Some (digit_char c)) (10 * (10 * a + b) + c) 3 acc s"
  by (simp add: numeral_3_eq_3)

lemma ipv4_octet:
  assumes "n < 256"
  shows "\<exists>p. p \<noteq> CHR ''.'' \<and> ipv4_loop prev 0 0 acc (nat_str n @ s) = ipv4_loop (Some p) n (length (nat_str n)) acc s"
proof -
  have ones: "10 * (n div 10) + n mod 10 = n" by simp
  have "10 * (n div 10 div 10) + n div 10 mod 10 = n div 10" by simp
  then have tens: "10 * (n div 100) + n div 10 mod 10 = n div 10" by (simp add: div_mult2_eq [symmetric])
  have small: "n div 100 < 10" "n div 10 mod 10 < 10" "n mod 10 < 10" using assms by auto
  consider "n < 10" | "10 \<le> n" "n < 100" | "100 \<le> n" by linarith
  then show ?thesis
  proof cases
    case 1
    then show ?thesis using digit_char_neq [of n "CHR ''.''"] assms
      by (intro exI [of _ "digit_char n"]) (simp add: nat_str_small punct_code)
  next
    case 2
    then have str: "nat_str n = [digit_char (n div 10), digit_char (n mod 10)]" and d: "0 < n div 10" "n div 10 < 10"
      using assms by (auto simp: nat_str_small)
    have "ipv4_loop prev 0 0 acc (nat_str n @ s) = ipv4_loop (Some (digit_char (n mod 10))) n 2 acc s"
      using ipv4_two_digits [OF d small(3)] ones by (simp only: str append_Cons append_Nil)
    moreover have "length (nat_str n) = 2" by (simp add: str)
    moreover have "digit_char (n mod 10) \<noteq> CHR ''.''" using small(3) by (rule digit_char_neq) (simp add: punct_code)
    ultimately show ?thesis by metis
  next
    case 3
    then have str: "nat_str n = [digit_char (n div 100), digit_char (n div 10 mod 10), digit_char (n mod 10)]" and d: "0 < n div 100"
      using assms by (auto simp: nat_str_small)
    have "ipv4_loop prev 0 0 acc (nat_str n @ s) = ipv4_loop (Some (digit_char (n mod 10))) n 3 acc s"
      using ipv4_three_digits [OF d small] assms by (simp only: str append_Cons append_Nil tens ones)
    moreover have "length (nat_str n) = 3" by (simp add: str)
    moreover have "digit_char (n mod 10) \<noteq> CHR ''.''" using small(3) by (rule digit_char_neq) (simp add: punct_code)
    ultimately show ?thesis by metis
  qed
qed

lemma digit_val_dot [simp]: "digit_val (CHR ''.'') = None"
  by (simp add: digit_val_def)

lemma ipv4_dot:
  "p \<noteq> CHR ''.'' \<Longrightarrow> length acc < 3 \<Longrightarrow> s \<noteq> [] \<Longrightarrow>
     ipv4_loop (Some p) v l acc (CHR ''.'' # s) = ipv4_loop (Some (CHR ''.'')) 0 0 (acc @ [of_nat v]) s"
  by simp

lemma byte_str_octet: "\<exists>p. p \<noteq> CHR ''.'' \<and> ipv4_loop prev 0 0 acc (byte_str b @ s) = ipv4_loop (Some p) (unat b) (length (byte_str b)) acc s"
  unfolding byte_str_def using unsigned_less [of b, where ?'a = nat] by (intro ipv4_octet) simp

lemma byte_str_nonempty [simp]: "byte_str b \<noteq> []"
  by (simp add: byte_str_def)

lemma dotted_parts: "length v = 4 \<Longrightarrow>
    join ''.'' (map byte_str v) = byte_str (v ! 0) @ ''.'' @ byte_str (v ! 1) @ ''.'' @ byte_str (v ! 2) @ ''.'' @ byte_str (v ! 3)"
  by (auto simp: length_Suc_conv numeral_eq_Suc)

lemma parse_ipv4_dotted:
  assumes "length v = 4"
  shows "parse_ipv4 (join ''.'' (map byte_str v)) = Some v"
proof -
  obtain a b c d where v: "v = [a, b, c, d]" using assms by (auto simp: length_Suc_conv numeral_eq_Suc)
  let ?D = "CHR ''.''"
  let ?t3 = "byte_str d" let ?t2 = "byte_str c @ ?D # ?t3" let ?t1 = "byte_str b @ ?D # ?t2"
  have step: "ipv4_loop prev 0 0 acc (byte_str x @ ?D # t) = ipv4_loop (Some ?D) 0 0 (acc @ [x]) t"
    if "length acc < 3" "t \<noteq> []" for prev acc x t
  proof -
    from byte_str_octet [of prev acc x "?D # t"] obtain p where p: "p \<noteq> ?D"
      and "ipv4_loop prev 0 0 acc (byte_str x @ ?D # t) = ipv4_loop (Some p) (unat x) (length (byte_str x)) acc (?D # t)" by blast
    with ipv4_dot [OF p that, of "unat x" "length (byte_str x)"] show ?thesis by (simp only: of_nat_unat ucast_id)
  qed
  from byte_str_octet [of "Some ?D" "[a, b, c]" d "[]"] obtain p
    where "ipv4_loop (Some ?D) 0 0 [a, b, c] (?t3 @ []) = ipv4_loop (Some p) (unat d) (length ?t3) [a, b, c] []" by blast
  then have last: "ipv4_loop (Some ?D) 0 0 [a, b, c] ?t3 = Some [a, b, c, d]" by (simp only: append_Nil2 ipv4_loop.simps(1)) simp
  have "join ''.'' (map byte_str v) = byte_str a @ ?D # ?t1" by (simp add: v)
  then have "parse_ipv4 (join ''.'' (map byte_str v)) = ipv4_loop None 0 0 [] (byte_str a @ ?D # ?t1)"
    by (simp only: parse_ipv4_def)
  also have "\<dots> = ipv4_loop (Some ?D) 0 0 ([] @ [a]) ?t1" by (rule step) simp_all
  also have "\<dots> = ipv4_loop (Some ?D) 0 0 (([] @ [a]) @ [b]) ?t2" by (rule step) simp_all
  also have "\<dots> = ipv4_loop (Some ?D) 0 0 ((([] @ [a]) @ [b]) @ [c]) ?t3" by (rule step) simp_all
  also have "\<dots> = Some v" using last by (simp only: v append_Cons append_Nil)
  finally show ?thesis .
qed

lemma dotted_chars: "length v = 4 \<Longrightarrow> c \<in> set (join ''.'' (map byte_str v)) \<Longrightarrow> c = CHR ''.'' \<or> (\<exists>d<10. c = digit_char d)"
  by (auto simp: dotted_parts byte_str_def dest: nat_str_digits)

lemma addr_family_dotted:
  assumes "length v = 4"
  shows "addr_family (join ''.'' (map byte_str v)) = Some (CHR ''.'')"
proof -
  have skip: "\<forall>c\<in>set s. \<exists>d<10. c = digit_char d \<Longrightarrow> addr_family (s @ t) = addr_family t" for s t
    using digit_char_neq punct_code by (induction s) auto
  show ?thesis using skip [of "byte_str (v ! 0)"] nat_str_digits
    by (simp add: dotted_parts [OF assms] byte_str_def)
qed

lemma parse_addr_dotted: "length v = 4 \<Longrightarrow> parse_addr (join ''.'' (map byte_str v)) = Some (V4 v)"
  by (simp add: parse_addr_def addr_family_dotted parse_ipv4_dotted)

lemma parse_IP_string:
  assumes "to4 a = Some v" "length a = 16"
  shows "parse_IP (ip_string a) = Some a"
proof -
  have "length v = 4" using assms(1) by (rule to4_length)
  moreover have "a = v4_in_v6_prefix @ v" using assms by (auto simp: to4_def split: if_splits) (metis append_take_drop_id)
  moreover have "ip_string a = join ''.'' (map byte_str v)" using assms by (simp add: ip_string_def)
  ultimately show ?thesis by (simp add: parse_IP_def parse_addr_dotted)
qed

lemma cut_at: "c \<notin> set a \<Longrightarrow> cut c (a @ c # b) = (a, b, True)"
  by (induction a) auto

lemma dtoi_small: "n < 100 \<Longrightarrow> dtoi (nat_str n) = Some n"
proof -
  assume "n < 100"
  moreover have "10 * (n div 10) + n mod 10 = n" by simp
  moreover have "n mod 10 < 10" "n < 100 \<Longrightarrow> n div 10 < 10" by auto
  ultimately show ?thesis by (auto simp: nat_str_small dtoi_def)
qed

lemma and_bytes_idem: "and_bytes (and_bytes a m) m = and_bytes a m"
  by (auto simp: and_bytes_def intro!: nth_equalityI)

lemma parse_CIDR_string:
  assumes "parse_CIDR s = Some n" "length (net_IP n) = 4"
  shows "parse_CIDR (ipnet_string n) = Some n"
proof -
  from assms(1) obtain a ad k where ad: "parse_addr a = Some ad" and k: "k \<le> bit_len ad"
    and i: "ip_mask (as16 ad) (CIDRMask k (bit_len ad)) = Some (net_IP n)" and m: "net_Mask n = CIDRMask k (bit_len ad)"
    by (auto simp: parse_CIDR_def Let_def split: prod.splits if_splits option.splits) (metis linorder_not_less)
  have b: "bit_len ad = 32"
    using i assms(2) ad parse_addr_length
    by (cases ad) (auto simp: ip_mask_def and_bytes_def Let_def split: if_splits dest!: arg_cong [of _ _ length])
  let ?i = "net_IP n" and ?m = "CIDRMask k 32"
  have idem: "and_bytes ?i ?m = ?i"
    using i b by (auto simp: ip_mask_def Let_def split: if_splits) (metis and_bytes_idem)+
  have str: "ipnet_string n = join ''.'' (map byte_str ?i) @ CHR ''/'' # nat_str k"
    using assms(2) m b k simple_mask_length_range [of 0 4 k]
    by (simp add: ipnet_string_def network_number_and_mask_def to4_def ip_string_def CIDRMask_def)
  have "CHR ''/'' \<notin> set (join ''.'' (map byte_str ?i))"
  proof
    assume "CHR ''/'' \<in> set (join ''.'' (map byte_str ?i))"
    then obtain d where "d < 10" "CHR ''/'' = digit_char d" using dotted_chars [OF assms(2)] by blast
    moreover from \<open>d < 10\<close> have "digit_char d \<noteq> CHR ''/''" by (rule digit_char_neq) (simp add: punct_code)
    ultimately show False by simp
  qed
  then have "cut (CHR ''/'') (ipnet_string n) = (join ''.'' (map byte_str ?i), nat_str k, True)"
    unfolding str by (rule cut_at)
  moreover have "ip_mask (v4_in_v6_prefix @ ?i) ?m = Some ?i"
    using idem assms(2) by (simp add: ip_mask_def)
  moreover have "k < 100" "k \<le> 32" using k b by auto
  ultimately show ?thesis
    using m b parse_addr_dotted [OF assms(2)] by (simp add: parse_CIDR_def dtoi_small Let_def)
qed

end
