(* ===== verification/Audit_Silence.thy ===== *)
theory Audit_Silence
  imports Audit_Match Go_Net_Text
begin

section \<open>Silences (kvisior/internal/store/auditsilence.go)\<close>

text \<open>
  A silence hides audit events that match its action, object, user and source address. This theory
  holds the silence itself: its validation and normalisation, and when it matches an event. The
  tables of silences and silenced events are in the theory of the audit store. Shown: the wildcard
  matcher, a third implementation next to the ones of audit rules and runtime rules, decides the same
  pattern language; a silence that passed \<^verbatim>\<open>Normalize\<close> says something, and matches exactly the
  events all its set fields accept.
\<close>

definition AuditSilenceMaxDuration :: duration where "AuditSilenceMaxDuration = 90 * 24 * hour"
definition auditSilenceFieldMax :: nat where "auditSilenceFieldMax = 512"
definition auditSilenceReasonMax :: nat where "auditSilenceReasonMax = 500"

record AuditSilence =
  si_ID :: nat
  si_Action :: string
  si_Object :: string
  si_User :: string
  si_SourceIP :: string
  si_Reason :: string
  si_CreatedBy :: string
  si_CreatedAt :: gotime
  si_ExpiresAt :: "gotime option"

record auditSilenceTarget =
  tg_action :: string
  tg_object :: string
  tg_user :: string
  tg_ip :: string

datatype silence_error = SilenceEmpty | SilenceText string | SilenceReason | SilenceAction | SilenceAddress string | SilenceDuration

text \<open>\<^verbatim>\<open>utf8.ValidString\<close>: the byte sequences of Unicode scalar values.\<close>

definition cont_byte :: "char \<Rightarrow> bool" where
  "cont_byte c \<longleftrightarrow> 128 \<le> (of_char c :: nat) \<and> (of_char c :: nat) \<le> 191"

definition in_bytes :: "nat \<Rightarrow> nat \<Rightarrow> char \<Rightarrow> bool" where
  "in_bytes lo hi c \<longleftrightarrow> lo \<le> (of_char c :: nat) \<and> (of_char c :: nat) \<le> hi"

definition utf8_2 :: "char \<Rightarrow> char \<Rightarrow> bool" where
  "utf8_2 a b \<longleftrightarrow> in_bytes 194 223 a \<and> cont_byte b"

definition utf8_3 :: "char \<Rightarrow> char \<Rightarrow> char \<Rightarrow> bool" where
  "utf8_3 a b c \<longleftrightarrow> cont_byte c \<and>
     (in_bytes 224 224 a \<and> in_bytes 160 191 b \<or> in_bytes 225 236 a \<and> cont_byte b
      \<or> in_bytes 237 237 a \<and> in_bytes 128 159 b \<or> in_bytes 238 239 a \<and> cont_byte b)"

definition utf8_4 :: "char \<Rightarrow> char \<Rightarrow> char \<Rightarrow> char \<Rightarrow> bool" where
  "utf8_4 a b c d \<longleftrightarrow> cont_byte c \<and> cont_byte d \<and>
     (in_bytes 240 240 a \<and> in_bytes 144 191 b \<or> in_bytes 241 243 a \<and> cont_byte b \<or> in_bytes 244 244 a \<and> in_bytes 128 143 b)"

fun valid_utf8 :: "string \<Rightarrow> bool" where
  "valid_utf8 [] = True"
| "valid_utf8 (a # s) =
     (if (of_char a :: nat) < 128 then valid_utf8 s
      else case s of [] \<Rightarrow> False
        | b # t \<Rightarrow>
          if utf8_2 a b then valid_utf8 t
          else (case t of [] \<Rightarrow> False
                | c # u \<Rightarrow>
                  if utf8_3 a b c then valid_utf8 u
                  else (case u of [] \<Rightarrow> False | d # v \<Rightarrow> utf8_4 a b c d \<and> valid_utf8 v)))"

definition bad_text :: "nat \<Rightarrow> string \<Rightarrow> bool" where
  "bad_text limit s \<longleftrightarrow> limit < length s \<or> \<not> valid_utf8 s \<or> CHR 0x00 \<in> set s"

text \<open>
  \<^verbatim>\<open>Normalize\<close>. The source checks the four fields in the order of a map; when several are bad
  the error names one of them, here the first.
\<close>

definition normalize_ip :: "string \<Rightarrow> silence_error + string" where
  "normalize_ip ip =
     (if ip = [] then Inr ip
      else if contains ip ''/'' then (case parse_CIDR ip of None \<Rightarrow> Inl (SilenceAddress ip) | Some n \<Rightarrow> Inr (ipnet_string n))
      else (case parse_IP ip of None \<Rightarrow> Inl (SilenceAddress ip) | Some a \<Rightarrow> Inr (ip_string a)))"

definition silence_Normalize :: "AuditSilence \<Rightarrow> silence_error + AuditSilence" where
  "silence_Normalize s0 =
     (let s = s0\<lparr>si_Action := to_lower (trim_space (si_Action s0)), si_Object := trim_space (si_Object s0),
                 si_User := trim_space (si_User s0), si_SourceIP := trim_space (si_SourceIP s0),
                 si_Reason := trim_space (si_Reason s0)\<rparr> in
      if si_Action s = [] \<and> si_Object s = [] \<and> si_User s = [] \<and> si_SourceIP s = [] then Inl SilenceEmpty
      else case List.find (\<lambda>nv. bad_text auditSilenceFieldMax (snd nv))
             [(''action'', si_Action s), (''object'', si_Object s), (''user'', si_User s), (''source IP'', si_SourceIP s)] of
        Some nv \<Rightarrow> Inl (SilenceText (fst nv))
      | None \<Rightarrow>
        if bad_text auditSilenceReasonMax (si_Reason s) then Inl SilenceReason
        else if list_ex (\<lambda>c. c \<in> set '' */'') (si_Action s) then Inl SilenceAction
        else (case normalize_ip (si_SourceIP s) of Inl e \<Rightarrow> Inl e | Inr ip \<Rightarrow> Inr (s\<lparr>si_SourceIP := ip\<rparr>)))"

subsection \<open>Matching\<close>

fun silence_glob_loop :: "string list \<Rightarrow> string \<Rightarrow> string \<Rightarrow> bool" where
  "silence_glob_loop [] lst value = (length lst \<le> length value \<and> has_suffix value lst)"
| "silence_glob_loop (part # parts) lst value =
     (case index_of value part of None \<Rightarrow> False
      | Some at \<Rightarrow> silence_glob_loop parts lst (drop (at + length part) value))"

definition silence_globMatch :: "string \<Rightarrow> string \<Rightarrow> bool" where
  "silence_globMatch pattern value =
     (if \<not> contains pattern ''*'' then pattern = value
      else let parts = split_char (CHR ''*'') pattern in
        if \<not> has_prefix value (hd parts) then False
        else silence_glob_loop (butlast (tl parts)) (last parts) (drop (length (hd parts)) value))"

definition ipMatches :: "string \<Rightarrow> string \<Rightarrow> bool" where
  "ipMatches rule value =
     (case parse_IP value of None \<Rightarrow> False
      | Some ip \<Rightarrow>
        if contains rule ''/'' then (case parse_CIDR rule of None \<Rightarrow> False | Some n \<Rightarrow> net_contains n ip)
        else (case parse_IP rule of None \<Rightarrow> False | Some want \<Rightarrow> ip_equal want ip))"

definition silence_matches :: "AuditSilence \<Rightarrow> auditSilenceTarget \<Rightarrow> bool" where
  "silence_matches s t =
     (if si_Action s \<noteq> [] \<and> si_Action s \<noteq> tg_action t then False
      else if si_Object s \<noteq> [] \<and> \<not> silence_globMatch (si_Object s) (tg_object t) then False
      else if si_User s \<noteq> [] \<and> \<not> silence_globMatch (si_User s) (tg_user t) then False
      else if si_SourceIP s \<noteq> [] \<and> \<not> ipMatches (si_SourceIP s) (tg_ip t) then False
      else True)"

definition auditObjectText :: "string \<Rightarrow> string \<Rightarrow> string \<Rightarrow> string" where
  "auditObjectText resource namespace name =
     join ''/'' ([resource] @ (if namespace \<noteq> [] then [namespace] else []) @ (if name \<noteq> [] then [name] else []))"

definition eventTarget :: "Event \<Rightarrow> auditSilenceTarget" where
  "eventTarget ev = \<lparr>tg_action = to_lower (ev_Kind ev), tg_object = auditObjectText (ev_Resource ev) (ev_Namespace ev) (ev_Name ev),
     tg_user = ev_User ev, tg_ip = SourceIP ev\<rparr>"

text \<open>\<^verbatim>\<open>firstSilence\<close>; the identifier 0 of the source, which means none, is \<open>None\<close> here.\<close>

definition firstSilence :: "AuditSilence list \<Rightarrow> Event \<Rightarrow> nat option" where
  "firstSilence silences ev = map_option si_ID (List.find (\<lambda>s. silence_matches s (eventTarget ev)) silences)"

subsection \<open>The wildcard matcher\<close>

lemma silence_glob_loop_greedy: "silence_glob_loop ps l s = greedy (ps @ [l]) s"
proof (induction ps l s rule: silence_glob_loop.induct)
  case (1 lst v)
  then show ?case by (auto simp: has_suffix_def suffix_def)
next
  case (2 p ps lst s)
  then show ?case by (cases "ps @ [lst]") (auto split: option.splits)
qed

lemma silence_globMatch_lang: "silence_globMatch p s \<longleftrightarrow> glob_lang p s"
proof (cases "star \<in> set p")
  case False
  then show ?thesis by (auto simp: silence_globMatch_def contains_singleton glob_lang_literal)
next
  case True
  have "2 \<le> length (split_char star p)" using True by (rule length_split_char_sep)
  then obtain w ws where sp: "split_char star p = w # ws" "ws \<noteq> []"
    by (cases "split_char star p"; cases "tl (split_char star p)") auto
  have "silence_globMatch p s = (has_prefix s w \<and> greedy ws (drop (length w) s))"
    using True sp by (auto simp: silence_globMatch_def contains_singleton silence_glob_loop_greedy Let_def)
  then show ?thesis using greedy_decides_glob [OF sp(1)] by simp
qed

interpretation silence_glob: glob_matcher silence_globMatch "\<lambda>s. s"
  by unfold_locales (simp_all add: silence_globMatch_lang)

subsection \<open>What a silence means\<close>

lemma silence_matches_iff:
  "silence_matches s t \<longleftrightarrow> (si_Action s = [] \<or> si_Action s = tg_action t) \<and> (si_Object s = [] \<or> glob_lang (si_Object s) (tg_object t))
     \<and> (si_User s = [] \<or> glob_lang (si_User s) (tg_user t)) \<and> (si_SourceIP s = [] \<or> ipMatches (si_SourceIP s) (tg_ip t))"
  by (auto simp: silence_matches_def silence_globMatch_lang)

lemma dotted_no_slash: "length v = 4 \<Longrightarrow> \<not> contains (join ''.'' (map byte_str v)) ''/''"
proof
  assume v: "length v = 4" and "contains (join ''.'' (map byte_str v)) ''/''"
  then have "CHR ''/'' \<in> set (join ''.'' (map byte_str v))" by (simp add: contains_singleton)
  then obtain d where d: "d < 10" "CHR ''/'' = digit_char d" using dotted_chars [OF v] by auto
  from d(1) have "digit_char d \<noteq> CHR ''/''" by (rule digit_char_neq) (simp add: punct_code)
  with d(2) show False by simp
qed

lemma parse_IP_v4:
  assumes "parse_IP s = Some a" "addr_family s = Some (CHR ''.'')"
  shows "\<exists>v. to4 a = Some v \<and> length a = 16"
  using assms parse_IP_length [OF assms(1)]
  by (auto simp: parse_IP_def parse_addr_def to4_def)

lemma parse_CIDR_v4:
  assumes "parse_CIDR s = Some n" "addr_family s = Some (CHR ''.'')"
  shows "length (net_IP n) = 4"
proof -
  from assms(1) obtain a m ad k where c: "cut (CHR ''/'') s = (a, m, True)" and ad: "parse_addr a = Some ad"
    and i: "ip_mask (as16 ad) (CIDRMask k (bit_len ad)) = Some (net_IP n)"
    by (auto simp: parse_CIDR_def Let_def split: prod.splits if_splits option.splits)
  have fam: "addr_family a = Some c' \<Longrightarrow> addr_family s = Some c'" for c'
    using c by (induction s arbitrary: a) (auto split: if_splits prod.splits)
  obtain c' where "addr_family a = Some c'" using ad by (auto simp: parse_addr_def split: option.splits)
  with fam assms(2) have "addr_family a = Some (CHR ''.'')" by auto
  then obtain v where "ad = V4 v" using ad by (auto simp: parse_addr_def)
  with i ad parse_addr_length(1) [of a v] show ?thesis by (auto simp: ip_mask_def and_bytes_def CIDRMask_def Let_def split: if_splits dest!: sym [of _ "net_IP n"])
qed

lemma cut_found: "cut c s = (a, b, True) \<Longrightarrow> c \<in> set s"
  by (induction s arbitrary: a) (auto split: if_splits prod.splits)

text \<open>C37. Normalising the source address of a silence, which rewrites it in canonical text, keeps
  the set of addresses it silences, for addresses and networks in dotted form, and is idempotent.\<close>

theorem normalize_ip_keeps_meaning:
  assumes "addr_family ip = Some (CHR ''.'')" "normalize_ip ip = Inr ip'"
  shows "ipMatches ip' v = ipMatches ip v \<and> normalize_ip ip' = Inr ip'"
proof (cases "contains ip ''/''")
  case True
  with assms obtain n where n: "parse_CIDR ip = Some n" and ip': "ip' = ipnet_string n"
    by (auto simp: normalize_ip_def split: if_splits option.splits)
  have again: "parse_CIDR ip' = Some n" unfolding ip' using n parse_CIDR_v4 [OF n assms(1)] by (rule parse_CIDR_string)
  have "contains ip' ''/''"
    using again by (auto simp: parse_CIDR_def contains_singleton split: prod.splits if_splits dest: cut_found)
  moreover have "ip' \<noteq> []" using again by (auto simp: parse_CIDR_def)
  ultimately show ?thesis using True n again ip' by (simp add: ipMatches_def normalize_ip_def split: option.splits)
next
  case False
  have "ip \<noteq> []" using assms(1) by auto
  with False assms obtain a where a: "parse_IP ip = Some a" and ip': "ip' = ip_string a"
    by (auto simp: normalize_ip_def split: if_splits option.splits)
  obtain w where w: "to4 a = Some w" "length a = 16" using parse_IP_v4 [OF a assms(1)] by blast
  have again: "parse_IP ip' = Some a" unfolding ip' using w by (rule parse_IP_string)
  have dotted: "ip' = join ''.'' (map byte_str w)" "length w = 4" using w to4_length [OF w(1)] by (simp_all add: ip' ip_string_def)
  have "\<not> contains ip' ''/''" using dotted_no_slash dotted by simp
  moreover have "ip' \<noteq> []" using again by (auto simp: parse_IP_def parse_addr_def)
  ultimately show ?thesis using False a again ip' by (simp add: ipMatches_def normalize_ip_def split: option.splits)
qed

theorem normalize_ip_keeps_meaning_witness:
  "normalize_ip ''10.1.2.3/8'' = Inr ''10.0.0.0/8'' \<and> ipMatches ''10.0.0.0/8'' ''10.9.8.7'' \<and> \<not> ipMatches ''10.0.0.0/8'' ''11.9.8.7''"
proof -
  have a: "addr_family ''10.1.2.3/8'' = Some (CHR ''.'')" by simp
  have c: "parse_CIDR ''10.1.2.3/8'' = Some \<lparr>net_IP = [10, 0, 0, 0], net_Mask = [255, 0, 0, 0]\<rparr>"
    by (simp add: parse_CIDR_def go_simps Let_def upt_conv_Cons)
  have n: "normalize_ip ''10.1.2.3/8'' = Inr ''10.0.0.0/8''"
    by (simp add: normalize_ip_def c ipnet_string_def network_number_and_mask_def to4_def ip_string_def byte_str_def
        nat_str.simps digit_char_def char_of_def bit_0 contains_singleton)
  have "ipMatches ''10.1.2.3/8'' ''10.9.8.7''" "\<not> ipMatches ''10.1.2.3/8'' ''11.9.8.7''"
    by (simp_all add: ipMatches_def contains_singleton go_simps Let_def upt_conv_Cons)
  with normalize_ip_keeps_meaning [OF a n] n show ?thesis by simp
qed

end
