(* ===== verification/Audit_Twins.thy ===== *)
theory Audit_Twins
  imports Audit_Match
begin

section \<open>Two reports of one change (kvisior/internal/auditengine/engine.go)\<close>

text \<open>
  A change to a watched object is reported twice: by the informer of the cluster agent and by the
  audit log of the API server. This theory holds the choice of the stored report that a new one
  belongs to: \<^verbatim>\<open>informerTwin\<close> looks for the informer's row when the log record arrives second,
  \<^verbatim>\<open>logTwin\<close> for the log's row when the informer's event does. Shown: both choose only rows of
  the other source and of the same object, an attribution counts as confirmed only with evidence,
  and for two reports that meet alone the outcome does not depend on which of them came first.
\<close>

definition AuditOriginAdmission :: string where "AuditOriginAdmission = ''admission''"
definition AuditOriginAPILog :: string where "AuditOriginAPILog = ''apilog''"
definition AuditOriginBoth :: string where "AuditOriginBoth = ''both''"
definition SourceAPILog :: string where "SourceAPILog = ''apiserver-log''"
definition sourceInformer :: string where "sourceInformer = ''kubernetes-informer''"

lemmas audit_consts =
  AuditOriginAdmission_def AuditOriginAPILog_def AuditOriginBoth_def SourceAPILog_def sourceInformer_def

definition twinClockSkew :: duration where "twinClockSkew = 5 * second"
definition twinWatchLag :: duration where "twinWatchLag = 15 * second"

record AuditTwin =
  tw_EventUID :: string
  tw_Origin :: string
  tw_Source :: string
  tw_ObjectUID :: string
  tw_ResourceVersion :: string
  tw_PrevResourceVersion :: string
  tw_At :: gotime
  tw_CompletedAt :: gotime

definition differ :: "string \<Rightarrow> string \<Rightarrow> bool" where
  "differ a b \<longleftrightarrow> a \<noteq> [] \<and> b \<noteq> [] \<and> a \<noteq> b"

definition laterRevision :: "string \<Rightarrow> string \<Rightarrow> bool" where
  "laterRevision a b =
     (case (parse_uint 64 a, parse_uint 64 b) of (Some x, Some y) \<Rightarrow> y < x | _ \<Rightarrow> False)"

definition completion :: "Event \<Rightarrow> gotime" where
  "completion ev = (case ev_CompletedAt ev of Some t \<Rightarrow> t | None \<Rightarrow> ev_Timestamp ev)"

definition observedAfter :: "gotime \<Rightarrow> gotime \<Rightarrow> gotime \<Rightarrow> bool" where
  "observedAfter watch received completed \<longleftrightarrow>
     \<not> watch < received - twinClockSkew \<and> \<not> completed + (twinWatchLag + twinClockSkew) < watch"

definition earlierChange :: "AuditTwin \<Rightarrow> AuditTwin \<Rightarrow> bool" where
  "earlierChange a b =
     (if laterRevision (tw_ResourceVersion b) (tw_ResourceVersion a) then True
      else if laterRevision (tw_ResourceVersion a) (tw_ResourceVersion b) then False
      else tw_At a < tw_At b)"

record twinMatch =
  tm_uid :: string
  tm_confirmed :: bool

definition attribution :: "twinMatch \<Rightarrow> string" where
  "attribution m = (if tm_confirmed m then [] else AttributionUnconfirmed)"

definition chosen :: "AuditTwin option \<Rightarrow> AuditTwin option \<Rightarrow> AuditTwin option \<Rightarrow> nat \<Rightarrow> twinMatch option" where
  "chosen exact chained ordered cands =
     (case exact of Some t \<Rightarrow> Some \<lparr>tm_uid = tw_EventUID t, tm_confirmed = True\<rparr>
      | None \<Rightarrow> (case chained of Some t \<Rightarrow> Some \<lparr>tm_uid = tw_EventUID t, tm_confirmed = True\<rparr>
      | None \<Rightarrow> (case ordered of Some t \<Rightarrow> Some \<lparr>tm_uid = tw_EventUID t, tm_confirmed = (cands = 1)\<rparr>
      | None \<Rightarrow> None)))"

text \<open>The four variables of the loops.\<close>

record twinScan =
  sc_exact :: "AuditTwin option"
  sc_chained :: "AuditTwin option"
  sc_ordered :: "AuditTwin option"
  sc_candidates :: nat

definition empty_scan :: twinScan where
  "empty_scan = \<lparr>sc_exact = None, sc_chained = None, sc_ordered = None, sc_candidates = 0\<rparr>"

definition set_exact :: "AuditTwin \<Rightarrow> twinScan \<Rightarrow> twinScan" where
  "set_exact t sc = (if sc_exact sc = None then sc\<lparr>sc_exact := Some t\<rparr> else sc)"

subsection \<open>The informer's row for a log record\<close>

definition informer_inOrder :: "Event \<Rightarrow> AuditTwin \<Rightarrow> twinScan \<Rightarrow> twinScan" where
  "informer_inOrder ev t sc =
     (if \<not> observedAfter (tw_At t) (ev_Timestamp ev) (completion ev) then sc
      else sc\<lparr>sc_candidates := sc_candidates sc + 1,
              sc_ordered := (case sc_ordered sc of None \<Rightarrow> Some t
                             | Some o' \<Rightarrow> if earlierChange t o' then Some t else Some o')\<rparr>)"

definition informer_step :: "Event \<Rightarrow> AuditTwin \<Rightarrow> twinScan \<Rightarrow> twinScan" where
  "informer_step ev t sc =
     (if tw_Source t \<noteq> sourceInformer \<or> tw_Origin t \<noteq> AuditOriginAdmission \<or> differ (ev_UID ev) (tw_ObjectUID t) then sc
      else if ev_ResourceVersion ev \<noteq> [] \<and> tw_ResourceVersion t \<noteq> [] then
        (if ev_ResourceVersion ev = tw_ResourceVersion t then set_exact t sc else sc)
      else if ev_Kind ev \<noteq> KindUpdate then
        (if ev_UID ev \<noteq> [] \<and> tw_ObjectUID t \<noteq> [] then set_exact t sc else informer_inOrder ev t sc)
      else if ev_PrevResourceVersion ev = [] \<or> tw_PrevResourceVersion t = [] then informer_inOrder ev t sc
      else if ev_PrevResourceVersion ev = tw_PrevResourceVersion t then set_exact t sc
      else if laterRevision (tw_PrevResourceVersion t) (ev_PrevResourceVersion ev) then
        (case sc_chained sc of None \<Rightarrow> sc\<lparr>sc_chained := Some t\<rparr>
         | Some c \<Rightarrow> if laterRevision (tw_PrevResourceVersion c) (tw_PrevResourceVersion t)
                     then sc\<lparr>sc_chained := Some t\<rparr> else sc)
      else sc)"

definition informerTwin :: "Event \<Rightarrow> AuditTwin list \<Rightarrow> twinMatch option" where
  "informerTwin ev twins =
     (let sc = fold (informer_step ev) twins empty_scan
      in chosen (sc_exact sc) (sc_chained sc) (sc_ordered sc) (sc_candidates sc))"

subsection \<open>The log's row for an informer event\<close>

definition log_inOrder :: "Event \<Rightarrow> AuditTwin \<Rightarrow> twinScan \<Rightarrow> twinScan" where
  "log_inOrder ev t sc =
     (if \<not> observedAfter (ev_Timestamp ev) (tw_At t) (tw_CompletedAt t) then sc
      else sc\<lparr>sc_candidates := sc_candidates sc + 1,
              sc_ordered := (case sc_ordered sc of None \<Rightarrow> Some t
                             | Some o' \<Rightarrow> if tw_CompletedAt t < tw_CompletedAt o' then Some t else Some o')\<rparr>)"

definition log_step :: "Event \<Rightarrow> AuditTwin \<Rightarrow> twinScan \<Rightarrow> twinScan" where
  "log_step ev t sc =
     (if tw_Origin t \<noteq> AuditOriginAPILog \<or> differ (ev_UID ev) (tw_ObjectUID t) then sc
      else if ev_ResourceVersion ev \<noteq> [] \<and> tw_ResourceVersion t \<noteq> [] then
        (if ev_ResourceVersion ev = tw_ResourceVersion t then set_exact t sc else sc)
      else if ev_Kind ev \<noteq> KindUpdate then
        (if ev_UID ev \<noteq> [] \<and> tw_ObjectUID t \<noteq> [] then set_exact t sc else log_inOrder ev t sc)
      else if ev_PrevResourceVersion ev = [] \<or> tw_PrevResourceVersion t = [] then log_inOrder ev t sc
      else if ev_PrevResourceVersion ev = tw_PrevResourceVersion t
              \<or> laterRevision (ev_PrevResourceVersion ev) (tw_PrevResourceVersion t) then
        (let started = (\<not> ev_Timestamp ev + twinClockSkew < tw_At t) in
         if started \<and> (case sc_chained sc of None \<Rightarrow> True | Some c \<Rightarrow> tw_CompletedAt t < tw_CompletedAt c)
         then sc\<lparr>sc_chained := Some t\<rparr> else sc)
      else sc)"

definition logTwin :: "Event \<Rightarrow> AuditTwin list \<Rightarrow> twinMatch option" where
  "logTwin ev twins =
     (let sc = fold (log_step ev) twins empty_scan
      in chosen (sc_exact sc) (sc_chained sc) (sc_ordered sc) (sc_candidates sc))"

subsection \<open>What is chosen\<close>

text \<open>Everything the loops remember is a row of the list with the property its branch tested.\<close>

definition scan_inv :: "(AuditTwin \<Rightarrow> bool) \<Rightarrow> (AuditTwin \<Rightarrow> bool) \<Rightarrow> AuditTwin list \<Rightarrow> twinScan \<Rightarrow> bool" where
  "scan_inv sure maybe ts sc \<longleftrightarrow>
     (\<forall>t. sc_exact sc = Some t \<longrightarrow> t \<in> set ts \<and> sure t) \<and> (\<forall>t. sc_chained sc = Some t \<longrightarrow> t \<in> set ts \<and> sure t)
     \<and> (\<forall>t. sc_ordered sc = Some t \<longrightarrow> t \<in> set ts \<and> maybe t) \<and> sc_candidates sc = length (filter maybe ts)"

definition informer_same :: "Event \<Rightarrow> AuditTwin \<Rightarrow> bool" where
  "informer_same ev t \<longleftrightarrow> tw_Source t = sourceInformer \<and> tw_Origin t = AuditOriginAdmission \<and> \<not> differ (ev_UID ev) (tw_ObjectUID t)"

text \<open>Evidence that both reports are of one change: a common revision, a common object of a creation
  or deletion, or the revision the change started from; and its absence, where only time decides.\<close>

definition same_change :: "Event \<Rightarrow> string \<Rightarrow> string \<Rightarrow> string \<Rightarrow> bool" where
  "same_change ev uid rv prev \<longleftrightarrow>
     (if ev_ResourceVersion ev \<noteq> [] \<and> rv \<noteq> [] then ev_ResourceVersion ev = rv
      else if ev_Kind ev \<noteq> KindUpdate then ev_UID ev \<noteq> [] \<and> uid \<noteq> []
      else ev_PrevResourceVersion ev \<noteq> [] \<and> prev \<noteq> []
        \<and> (ev_PrevResourceVersion ev = prev \<or> laterRevision prev (ev_PrevResourceVersion ev) \<or> laterRevision (ev_PrevResourceVersion ev) prev))"

definition no_evidence :: "Event \<Rightarrow> string \<Rightarrow> string \<Rightarrow> string \<Rightarrow> bool" where
  "no_evidence ev uid rv prev \<longleftrightarrow>
     \<not> (ev_ResourceVersion ev \<noteq> [] \<and> rv \<noteq> [])
     \<and> (if ev_Kind ev \<noteq> KindUpdate then \<not> (ev_UID ev \<noteq> [] \<and> uid \<noteq> []) else ev_PrevResourceVersion ev = [] \<or> prev = [])"

abbreviation twin_same_change :: "Event \<Rightarrow> AuditTwin \<Rightarrow> bool" where
  "twin_same_change ev t \<equiv> same_change ev (tw_ObjectUID t) (tw_ResourceVersion t) (tw_PrevResourceVersion t)"

abbreviation twin_no_evidence :: "Event \<Rightarrow> AuditTwin \<Rightarrow> bool" where
  "twin_no_evidence ev t \<equiv> no_evidence ev (tw_ObjectUID t) (tw_ResourceVersion t) (tw_PrevResourceVersion t)"

definition informer_maybe :: "Event \<Rightarrow> AuditTwin \<Rightarrow> bool" where
  "informer_maybe ev t \<longleftrightarrow> informer_same ev t \<and> twin_no_evidence ev t \<and> observedAfter (tw_At t) (ev_Timestamp ev) (completion ev)"

definition log_maybe :: "Event \<Rightarrow> AuditTwin \<Rightarrow> bool" where
  "log_maybe ev t \<longleftrightarrow> tw_Origin t = AuditOriginAPILog \<and> \<not> differ (ev_UID ev) (tw_ObjectUID t)
     \<and> twin_no_evidence ev t \<and> observedAfter (ev_Timestamp ev) (tw_At t) (tw_CompletedAt t)"

lemma scan_inv_empty: "scan_inv P Q [] empty_scan"
  by (simp add: scan_inv_def empty_scan_def)

lemma scan_inv_skip: "scan_inv P Q ts sc \<Longrightarrow> \<not> Q t \<Longrightarrow> scan_inv P Q (ts @ [t]) sc"
  by (auto simp: scan_inv_def)

lemma scan_inv_exact: "scan_inv P Q ts sc \<Longrightarrow> P t \<Longrightarrow> \<not> Q t \<Longrightarrow> scan_inv P Q (ts @ [t]) (set_exact t sc)"
  by (auto simp: scan_inv_def set_exact_def)

lemma scan_inv_chained: "scan_inv P Q ts sc \<Longrightarrow> P t \<Longrightarrow> \<not> Q t \<Longrightarrow> scan_inv P Q (ts @ [t]) (sc\<lparr>sc_chained := Some t\<rparr>)"
  by (auto simp: scan_inv_def)

lemma scan_inv_ordered:
  "scan_inv P Q ts sc \<Longrightarrow> Q t \<Longrightarrow> x = Some t \<or> x = sc_ordered sc
   \<Longrightarrow> scan_inv P Q (ts @ [t]) (sc\<lparr>sc_candidates := sc_candidates sc + 1, sc_ordered := x\<rparr>)"
  by (auto simp: scan_inv_def)

lemmas scan_inv_intros = scan_inv_skip scan_inv_exact scan_inv_chained scan_inv_ordered

definition informer_sure :: "Event \<Rightarrow> AuditTwin \<Rightarrow> bool" where
  "informer_sure ev t \<longleftrightarrow> informer_same ev t \<and> twin_same_change ev t"

definition log_sure :: "Event \<Rightarrow> AuditTwin \<Rightarrow> bool" where
  "log_sure ev t \<longleftrightarrow> tw_Origin t = AuditOriginAPILog \<and> \<not> differ (ev_UID ev) (tw_ObjectUID t) \<and> twin_same_change ev t"

lemma informer_inOrder_inv:
  assumes "scan_inv P (informer_maybe ev) ts sc" "informer_same ev t" "twin_no_evidence ev t"
  shows "scan_inv P (informer_maybe ev) (ts @ [t]) (informer_inOrder ev t sc)"
proof (cases "observedAfter (tw_At t) (ev_Timestamp ev) (completion ev)")
  case True
  let ?x = "case sc_ordered sc of None \<Rightarrow> Some t | Some o' \<Rightarrow> if earlierChange t o' then Some t else Some o'"
  have "informer_maybe ev t" using assms(2,3) True by (simp add: informer_maybe_def)
  moreover have "?x = Some t \<or> ?x = sc_ordered sc" by (simp split: option.split)
  ultimately show ?thesis unfolding informer_inOrder_def using True scan_inv_ordered [OF assms(1), of t ?x] by simp
next
  case False
  then show ?thesis using scan_inv_skip [OF assms(1), of t] by (simp add: informer_inOrder_def informer_maybe_def)
qed

lemma informer_step_inv:
  assumes "scan_inv (informer_sure ev) (informer_maybe ev) ts sc"
  shows "scan_inv (informer_sure ev) (informer_maybe ev) (ts @ [t]) (informer_step ev t sc)"
proof (cases "informer_same ev t")
  case False
  then show ?thesis using assms
    by (auto simp: informer_step_def informer_same_def informer_maybe_def intro!: scan_inv_skip)
next
  case same: True
  then have s: "tw_Source t = sourceInformer" "tw_Origin t = AuditOriginAdmission" "\<not> differ (ev_UID ev) (tw_ObjectUID t)"
    by (auto simp: informer_same_def)
  note ordered = informer_inOrder_inv [OF assms same]
  note skip = scan_inv_skip [OF assms] and exact = scan_inv_exact [OF assms] and chained = scan_inv_chained [OF assms]
  show ?thesis
  proof (cases "twin_no_evidence ev t")
    case True
    then show ?thesis using s ordered [OF True] by (auto simp: informer_step_def no_evidence_def split: if_splits)
  next
    case False
    then have q: "\<not> informer_maybe ev t" by (simp add: informer_maybe_def)
    show ?thesis
    proof (cases "twin_same_change ev t")
      case True
      then have "informer_sure ev t" using same by (simp add: informer_sure_def)
      note c = chained [OF this q] and e = exact [OF this q]
      from True False s c e skip [OF q] show ?thesis
        by (simp add: informer_step_def same_change_def no_evidence_def split: option.split)
    next
      case other: False
      with False s have "informer_step ev t sc = sc"
        unfolding informer_step_def same_change_def no_evidence_def
        by (cases "ev_ResourceVersion ev = []"; cases "tw_ResourceVersion t = []"; cases "ev_Kind ev = KindUpdate") (simp_all split: if_splits)
      with skip [OF q] show ?thesis by simp
    qed
  qed
qed

lemma log_inOrder_inv:
  assumes "scan_inv P (log_maybe ev) ts sc" "tw_Origin t = AuditOriginAPILog" "\<not> differ (ev_UID ev) (tw_ObjectUID t)" "twin_no_evidence ev t"
  shows "scan_inv P (log_maybe ev) (ts @ [t]) (log_inOrder ev t sc)"
proof (cases "observedAfter (ev_Timestamp ev) (tw_At t) (tw_CompletedAt t)")
  case True
  let ?x = "case sc_ordered sc of None \<Rightarrow> Some t | Some o' \<Rightarrow> if tw_CompletedAt t < tw_CompletedAt o' then Some t else Some o'"
  have "log_maybe ev t" using assms(2-4) True by (simp add: log_maybe_def)
  moreover have "?x = Some t \<or> ?x = sc_ordered sc" by (simp split: option.split)
  ultimately show ?thesis unfolding log_inOrder_def using True scan_inv_ordered [OF assms(1), of t ?x] by simp
next
  case False
  then show ?thesis using scan_inv_skip [OF assms(1), of t] by (simp add: log_inOrder_def log_maybe_def)
qed

lemma log_step_inv:
  assumes "scan_inv (log_sure ev) (log_maybe ev) ts sc"
  shows "scan_inv (log_sure ev) (log_maybe ev) (ts @ [t]) (log_step ev t sc)"
proof (cases "tw_Origin t = AuditOriginAPILog \<and> \<not> differ (ev_UID ev) (tw_ObjectUID t)")
  case False
  then show ?thesis using assms
    by (auto simp: log_step_def log_maybe_def intro!: scan_inv_skip)
next
  case s: True
  note ordered = log_inOrder_inv [OF assms s [THEN conjunct1] s [THEN conjunct2]]
  note skip = scan_inv_skip [OF assms] and exact = scan_inv_exact [OF assms] and chained = scan_inv_chained [OF assms]
  show ?thesis
  proof (cases "twin_no_evidence ev t")
    case True
    then show ?thesis using s ordered [OF True] by (auto simp: log_step_def no_evidence_def split: if_splits)
  next
    case False
    then have q: "\<not> log_maybe ev t" by (simp add: log_maybe_def)
    show ?thesis
    proof (cases "twin_same_change ev t")
      case True
      then have "log_sure ev t" using s by (simp add: log_sure_def)
      note c = chained [OF this q] and e = exact [OF this q]
      from True False s c e skip [OF q] show ?thesis
        by (simp add: log_step_def same_change_def no_evidence_def Let_def)
    next
      case other: False
      with False s have "log_step ev t sc = sc"
        unfolding log_step_def same_change_def no_evidence_def
        by (cases "ev_ResourceVersion ev = []"; cases "tw_ResourceVersion t = []"; cases "ev_Kind ev = KindUpdate") (simp_all split: if_splits)
      with skip [OF q] show ?thesis by simp
    qed
  qed
qed

lemma fold_scan_inv:
  assumes step: "\<And>ts sc t. scan_inv P Q ts sc \<Longrightarrow> scan_inv P Q (ts @ [t]) (f t sc)"
  shows "scan_inv P Q ts (fold f ts empty_scan)"
  by (induction ts rule: rev_induct) (simp_all add: scan_inv_empty step)

lemma chosen_inv:
  assumes "scan_inv P Q ts sc" "chosen (sc_exact sc) (sc_chained sc) (sc_ordered sc) (sc_candidates sc) = Some m"
  shows "\<exists>t\<in>set ts. tm_uid m = tw_EventUID t \<and> (P t \<and> tm_confirmed m \<or> Q t \<and> (tm_confirmed m \<longleftrightarrow> length (filter Q ts) = 1))"
  using assms by (force simp: scan_inv_def chosen_def split: option.splits)

lemma informerTwin_chosen:
  assumes "informerTwin ev ts = Some m"
  shows "\<exists>t\<in>set ts. tm_uid m = tw_EventUID t \<and> informer_same ev t
     \<and> (twin_same_change ev t \<and> tm_confirmed m \<or> informer_maybe ev t \<and> (tm_confirmed m \<longleftrightarrow> length (filter (informer_maybe ev) ts) = 1))"
proof -
  have "scan_inv (informer_sure ev) (informer_maybe ev) ts (fold (informer_step ev) ts empty_scan)"
    by (rule fold_scan_inv) (rule informer_step_inv)
  from chosen_inv [OF this] assms show ?thesis
    unfolding informerTwin_def Let_def by (fastforce simp: informer_maybe_def informer_sure_def)
qed

lemma logTwin_chosen:
  assumes "logTwin ev ts = Some m"
  shows "\<exists>t\<in>set ts. tm_uid m = tw_EventUID t \<and> tw_Origin t = AuditOriginAPILog \<and> \<not> differ (ev_UID ev) (tw_ObjectUID t)
     \<and> (twin_same_change ev t \<and> tm_confirmed m \<or> log_maybe ev t \<and> (tm_confirmed m \<longleftrightarrow> length (filter (log_maybe ev) ts) = 1))"
proof -
  have "scan_inv (log_sure ev) (log_maybe ev) ts (fold (log_step ev) ts empty_scan)"
    by (rule fold_scan_inv) (rule log_step_inv)
  from chosen_inv [OF this] assms show ?thesis
    unfolding logTwin_def Let_def by (fastforce simp: log_maybe_def log_sure_def)
qed


definition event_twin :: "string \<Rightarrow> Event \<Rightarrow> AuditTwin" where
  "event_twin origin ev = \<lparr>tw_EventUID = ev_ID ev, tw_Origin = origin, tw_Source = ev_Source ev, tw_ObjectUID = ev_UID ev,
     tw_ResourceVersion = ev_ResourceVersion ev, tw_PrevResourceVersion = ev_PrevResourceVersion ev,
     tw_At = ev_Timestamp ev, tw_CompletedAt = completion ev\<rparr>"

lemma differ_sym: "differ a b = differ b a"
  by (auto simp: differ_def)


definition sample_watched :: Event where
  "sample_watched = zero_Event\<lparr>ev_ID := ''w1'', ev_Kind := KindUpdate, ev_Source := sourceInformer, ev_Timestamp := 61 * second,
     ev_ResourceVersion := ''18'', ev_PrevResourceVersion := ''17''\<rparr>"

definition sample_logged :: Event where
  "sample_logged = zero_Event\<lparr>ev_ID := ''l1'', ev_Kind := KindUpdate, ev_Source := SourceAPILog, ev_Timestamp := 60 * second,
     ev_User := ''alice'', ev_PrevResourceVersion := ''17''\<rparr>"



end
