(* ===== verification/Audit_Store.thy ===== *)
theory Audit_Store
  imports Audit_Silence Audit_Twins "HOL-Library.AList"
begin

section \<open>The audit tables and their statements (kvisior/internal/store)\<close>

text \<open>
  The tables behind the audit page, for one cluster: the progress of each event
  (\<^verbatim>\<open>audit_ingest_state\<close>), the rules it matched (\<^verbatim>\<open>audit_rule_matches\<close>), the counters of
  threshold rules, the events themselves, violations, alerts, silences with the events they hide,
  and the marks of hours whose totals are precomputed. Each SQL statement of auditstate.go, audit.go,
  auditsilence.go and of the invalidation in auditrollup.go is a function on this record. All of them
  are restricted to one \<^verbatim>\<open>cluster_id\<close>, so that the model has one record per cluster. The \<^verbatim>\<open>jsonb\<close>
  column \<^verbatim>\<open>data\<close> holds the event it decodes to, and \<^verbatim>\<open>data || patch\<close> is the update of the fields
  in the patch. Times are stored with microseconds.
\<close>

text \<open>What a transaction sees of the outside: the clock of the process, the clock of the database, the
  configured retention, whether the update behind the savepoint of \<^verbatim>\<open>AttachAuditAlertActor\<close> succeeds,
  and how the transaction ends.\<close>

datatype tx_outcome = TxCommitted | TxFailed bool | TxUnknown

record audit_env =
  x_now :: gotime
  x_dbnow :: gotime
  x_retention :: duration
  x_attach_ok :: bool
  x_outcome :: tx_outcome

definition pg_time :: "gotime \<Rightarrow> gotime" where
  "pg_time t = t - t mod 1000"

definition nullable :: "string \<Rightarrow> string option" where
  "nullable s = (if s = [] then None else Some s)"

subsection \<open>Rows\<close>

record AuditEnrichment =
  en_EventUID :: string
  en_SourceIPs :: "string list"
  en_ClientIP :: string
  en_UserAgent :: string
  en_AuditID :: string
  en_StatusCode :: int
  en_Allowed :: bool
  en_At :: gotime
  en_User :: string
  en_Groups :: "string list"
  en_ImpersonatedUser :: string
  en_ImpersonatedGroups :: "string list"
  en_Attribution :: string
  en_Event :: "Event option"
  en_Materialized :: bool

record AuditState =
  as_Admitted :: bool
  as_Enriched :: bool
  as_Pending :: "AuditEnrichment option"

record ingest_row =
  ig_state :: AuditState
  ig_created_at :: gotime

text \<open>The revision of a threshold is the text of the rule's specification and of its modification
  time; here the two values.\<close>

record threshold_row =
  th_revision :: "Spec \<times> gotime"
  th_hit_at :: "gotime list"
  th_updated_at :: gotime

text \<open>A row of \<^verbatim>\<open>audit_events\<close>. The last field is not a column: it names the event key under which the
  row was written.\<close>

record audit_row =
  ae_id :: nat
  ae_ts :: gotime
  ae_user :: string
  ae_kind :: string
  ae_ns :: string
  ae_resource :: string
  ae_data :: Event
  ae_event_uid :: "string option"
  ae_name :: string
  ae_source_ip :: "string option"
  ae_allowed :: "bool option"
  ae_origin :: string
  ae_rule_id :: "string option"
  ae_sev :: "string option"
  ae_silenced :: bool
  ae_key :: string

record AuditViolationWrite =
  vw_RuleID :: string
  vw_RuleName :: string
  vw_Sev :: string
  vw_Kind :: string
  vw_Resource :: string
  vw_Namespace :: string
  vw_Name :: string
  vw_Actor :: string
  vw_SourceIP :: string
  vw_Fingerprint :: string
  vw_Data :: Event

record violation_row = AuditViolationWrite +
  av_hits :: nat
  av_last_seen :: gotime
  av_state :: string
  av_state_expires_at :: "gotime option"

text \<open>An alert. The field \<open>ia_key\<close> is not stored: it names the event key the alert was raised for.\<close>

record IncomingAlert =
  ia_Timestamp :: gotime
  ia_Source :: string
  ia_DetType :: string
  ia_RuleID :: string
  ia_RuleName :: string
  ia_Severity :: string
  ia_Namespace :: string
  ia_Target :: string
  ia_Detail :: string
  ia_Fingerprint :: string
  ia_Data :: Event
  ia_key :: string

record silencedRow =
  se_silence_id :: nat
  se_uid :: string
  se_ts :: gotime
  se_ev :: Event
  se_origin :: string
  se_rule_id :: "string option"
  se_sev :: "string option"

record hourly_row =
  hr_hour :: gotime
  hr_user :: string
  hr_allowed :: bool
  hr_danger :: bool
  hr_events :: nat
  hr_last_seen :: gotime

text \<open>The tables of one cluster and whether the optional ones exist. The last two fields are not tables:
  they list the event keys whose report was merged into the row of another report, and those that were
  too old to be stored.\<close>

record audit_db =
  db_state :: "(string \<times> ingest_row) list"
  db_matches :: "(string \<times> string) list"
  db_thresholds :: "(string \<times> threshold_row) list"
  db_events :: "audit_row list"
  db_next_id :: nat
  db_violations :: "violation_row list"
  db_alerts :: "IncomingAlert list"
  db_silences :: "AuditSilence list"
  db_silenced :: "silencedRow list"
  db_marks :: "gotime list"
  db_hourly :: "hourly_row list"
  db_silences_ready :: bool
  db_rollups_ready :: bool
  db_merged :: "string list"
  db_expired :: "string list"

definition empty_db :: audit_db where
  "empty_db = \<lparr>db_state = [], db_matches = [], db_thresholds = [], db_events = [], db_next_id = 1, db_violations = [],
     db_alerts = [], db_silences = [], db_silenced = [], db_marks = [], db_hourly = [],
     db_silences_ready = True, db_rollups_ready = True, db_merged = [], db_expired = []\<rparr>"

subsection \<open>Progress of an event\<close>

definition empty_state :: AuditState where
  "empty_state = \<lparr>as_Admitted = False, as_Enriched = False, as_Pending = None\<rparr>"

definition state_of :: "audit_db \<Rightarrow> string \<Rightarrow> AuditState" where
  "state_of db key = (case map_of (db_state db) key of Some r \<Rightarrow> ig_state r | None \<Rightarrow> empty_state)"

text \<open>
  \<^verbatim>\<open>WithAuditEvent\<close>: the row of the key is created when it is missing and locked, the function runs,
  and its changes of the progress are written. A failing statement undoes all of it; the Boolean of
  the error tells a data error of the database (SQLSTATE class 22). A commit whose answer is lost
  reports an error although everything is stored.
\<close>

definition open_state :: "audit_env \<Rightarrow> string \<Rightarrow> audit_db \<Rightarrow> audit_db" where
  "open_state x key db =
     (case map_of (db_state db) key of Some _ \<Rightarrow> db
      | None \<Rightarrow> db\<lparr>db_state := AList.update key \<lparr>ig_state = empty_state, ig_created_at = x_dbnow x\<rparr> (db_state db)\<rparr>)"

definition save_state :: "string \<Rightarrow> AuditState \<Rightarrow> audit_db \<Rightarrow> audit_db" where
  "save_state key st db =
     (case map_of (db_state db) key of None \<Rightarrow> db
      | Some r \<Rightarrow> db\<lparr>db_state := AList.update key (r\<lparr>ig_state := st\<rparr>) (db_state db)\<rparr>)"

definition WithAuditEvent ::
    "audit_env \<Rightarrow> string \<Rightarrow> (audit_db \<Rightarrow> AuditState \<Rightarrow> 'a \<times> audit_db \<times> AuditState) \<Rightarrow> audit_db \<Rightarrow> (bool + 'a) \<times> audit_db" where
  "WithAuditEvent x key fn db =
     (let db1 = open_state x key db; before = state_of db1 key;
          (r, db2, st) = fn db1 before;
          db3 = (if st \<noteq> before then save_state key st db2 else db2) in
      case x_outcome x of
        TxFailed data_error \<Rightarrow> (Inl data_error, db)
      | TxUnknown \<Rightarrow> (Inl False, db3)
      | TxCommitted \<Rightarrow> (Inr r, db3))"

record AuditProgress =
  ap_Admitted :: bool
  ap_Enriched :: bool
  ap_Pending :: bool

definition AuditProgress_of :: "audit_db \<Rightarrow> string \<Rightarrow> AuditProgress" where
  "AuditProgress_of db key =
     (let s = state_of db key in \<lparr>ap_Admitted = as_Admitted s, ap_Enriched = as_Enriched s, ap_Pending = as_Pending s \<noteq> None\<rparr>)"

definition ClaimAuditRule :: "string \<Rightarrow> string \<Rightarrow> audit_db \<Rightarrow> bool \<times> audit_db" where
  "ClaimAuditRule key rule db =
     (if (key, rule) \<in> set (db_matches db) then (False, db)
      else (True, db\<lparr>db_matches := db_matches db @ [(key, rule)]\<rparr>))"

text \<open>\<^verbatim>\<open>AuditThreshold\<close>: the hits within the window since the last alert, forgotten when the rule changed.\<close>

definition threshold_kept :: "gotime \<Rightarrow> Rule \<Rightarrow> threshold_row option \<Rightarrow> gotime list" where
  "threshold_kept now r old =
     (case old of None \<Rightarrow> []
      | Some t \<Rightarrow> if th_revision t = (r_Spec r, r_UpdatedAt r)
                  then filter (\<lambda>at. now - at < s_ThMin (r_Spec r) * minute) (th_hit_at t) else [])"

definition AuditThreshold :: "audit_env \<Rightarrow> Rule \<Rightarrow> audit_db \<Rightarrow> bool \<times> audit_db" where
  "AuditThreshold x r db =
     (if s_AlertEvery (r_Spec r) \<noteq> AlertThreshold then (True, db)
      else
        let kept = threshold_kept (x_dbnow x) r (map_of (db_thresholds db) (r_ID r)) @ [x_dbnow x];
            fire = (s_ThN (r_Spec r) \<le> int (length kept)) in
        (fire, db\<lparr>db_thresholds := AList.update (r_ID r)
           \<lparr>th_revision = (r_Spec r, r_UpdatedAt r), th_hit_at = (if fire then [] else kept), th_updated_at = x_dbnow x\<rparr>
           (db_thresholds db)\<rparr>))"

definition auditJoinSlack :: duration where "auditJoinSlack = hour"
definition auditTwinSlack :: duration where "auditTwinSlack = 30 * second"

definition auditJoinWindow :: "gotime \<Rightarrow> gotime \<Rightarrow> gotime \<times> gotime" where
  "auditJoinWindow now around0 =
     (let around = (if around0 = 0 then now else around0) in (around - auditJoinSlack, around + auditJoinSlack))"

definition in_window :: "gotime \<times> gotime \<Rightarrow> gotime \<Rightarrow> bool" where
  "in_window w ts \<longleftrightarrow> pg_time (fst w) \<le> ts \<and> ts \<le> pg_time (snd w)"

definition ExistingAuditEvent :: "audit_env \<Rightarrow> string \<Rightarrow> gotime \<Rightarrow> audit_db \<Rightarrow> bool \<times> bool" where
  "ExistingAuditEvent x uid around db =
     (let rows = filter (\<lambda>r. ae_event_uid r = Some uid \<and> in_window (auditJoinWindow (x_now x) around) (ae_ts r)) (db_events db)
      in (rows \<noteq> [], list_ex (\<lambda>r. ae_origin r = AuditOriginBoth) rows))"

subsection \<open>Violations and alerts\<close>

definition expired_state :: "audit_env \<Rightarrow> violation_row \<Rightarrow> bool" where
  "expired_state x v \<longleftrightarrow> av_state v \<in> {''FP'', ''ACK'', ''DISMISSED''}
     \<and> (case av_state_expires_at v of None \<Rightarrow> False | Some t \<Rightarrow> t < x_dbnow x)"

definition repeat_violation :: "audit_env \<Rightarrow> AuditViolationWrite \<Rightarrow> violation_row \<Rightarrow> violation_row" where
  "repeat_violation x w v =
     v\<lparr>vw_Data := vw_Data w, vw_RuleName := vw_RuleName w, vw_Sev := vw_Sev w,
       vw_SourceIP := (if vw_SourceIP w \<noteq> [] then vw_SourceIP w else vw_SourceIP v),
       av_hits := av_hits v + 1, av_last_seen := x_dbnow x,
       av_state := (if expired_state x v then ''ACTIVE'' else av_state v),
       av_state_expires_at := (if expired_state x v then None else av_state_expires_at v)\<rparr>"

definition new_violation :: "audit_env \<Rightarrow> AuditViolationWrite \<Rightarrow> violation_row" where
  "new_violation x w = AuditViolationWrite.extend w
     \<lparr>av_hits = 1, av_last_seen = x_dbnow x, av_state = ''ACTIVE'', av_state_expires_at = None\<rparr>"

definition same_violation :: "AuditViolationWrite \<Rightarrow> violation_row \<Rightarrow> bool" where
  "same_violation w v \<longleftrightarrow> vw_Fingerprint w \<noteq> [] \<and> vw_Fingerprint v = vw_Fingerprint w"

definition WriteAuditViolation :: "audit_env \<Rightarrow> AuditViolationWrite \<Rightarrow> audit_db \<Rightarrow> audit_db" where
  "WriteAuditViolation x w db =
     (if list_ex (same_violation w) (db_violations db)
      then db\<lparr>db_violations := map (\<lambda>v. if same_violation w v then repeat_violation x w v else v) (db_violations db)\<rparr>
      else db\<lparr>db_violations := db_violations db @ [new_violation x w]\<rparr>)"

definition AttachAuditViolationSource :: "audit_env \<Rightarrow> string \<Rightarrow> string \<Rightarrow> string \<Rightarrow> Event \<Rightarrow> audit_db \<Rightarrow> audit_db" where
  "AttachAuditViolationSource x uid ip actor data db =
     (if uid = [] then db
      else db\<lparr>db_violations := map (\<lambda>v.
        if ev_ID (vw_Data v) = uid \<and> x_now x - x_retention x < av_last_seen v
        then v\<lparr>vw_SourceIP := ip, vw_Data := data, vw_Actor := (if actor \<noteq> [] then actor else vw_Actor v)\<rparr>
        else v) (db_violations db)\<rparr>)"

definition auditAlertSource :: string where "auditAlertSource = ''sentry-audit''"

definition InsertAlerts :: "audit_env \<Rightarrow> IncomingAlert list \<Rightarrow> audit_db \<Rightarrow> audit_db" where
  "InsertAlerts x alerts db =
     db\<lparr>db_alerts := db_alerts db @
        map (\<lambda>a. a\<lparr>ia_Timestamp := pg_time (if ia_Timestamp a = 0 then x_now x else ia_Timestamp a)\<rparr>) alerts\<rparr>"

text \<open>\<^verbatim>\<open>AttachAuditAlertActor\<close> runs behind a savepoint; when it fails the rest of the transaction goes on.\<close>

definition attach_actor :: "string \<Rightarrow> Event \<Rightarrow> IncomingAlert \<Rightarrow> IncomingAlert" where
  "attach_actor actor data a =
     a\<lparr>ia_Detail := (if has_prefix (ia_Detail a) (ev_User (ia_Data a) @ '' '')
                     then actor @ drop (length (ev_User (ia_Data a))) (ia_Detail a) else ia_Detail a),
       ia_Data := data\<rparr>"

definition AttachAuditAlertActor :: "audit_env \<Rightarrow> string \<Rightarrow> gotime \<Rightarrow> string \<Rightarrow> Event \<Rightarrow> audit_db \<Rightarrow> audit_db" where
  "AttachAuditAlertActor x uid around actor data db =
     (if uid = [] \<or> actor = [] \<or> \<not> x_attach_ok x then db
      else db\<lparr>db_alerts := map (\<lambda>a.
        if ia_Source a = auditAlertSource \<and> in_window (auditJoinWindow (x_now x) around) (ia_Timestamp a) \<and> ev_ID (ia_Data a) = uid
        then attach_actor actor data a else a) (db_alerts db)\<rparr>)"

subsection \<open>Marks of precomputed hours\<close>

definition rollupSettle :: duration where "rollupSettle = 5 * minute"
definition rollupClockSkew :: duration where "rollupClockSkew = minute"

definition hourOf :: "gotime \<Rightarrow> gotime" where "hourOf t = t - t mod hour"

definition rollupBuildable :: "gotime \<Rightarrow> gotime \<Rightarrow> bool" where
  "rollupBuildable h now \<longleftrightarrow> \<not> now < h + (hour + rollupSettle - rollupClockSkew)"

definition dropRollupMarks :: "gotime list \<Rightarrow> audit_db \<Rightarrow> audit_db" where
  "dropRollupMarks hours db = db\<lparr>db_marks := filter (\<lambda>h. h \<notin> set hours) (db_marks db)\<rparr>"

definition invalidateRollupHours :: "audit_env \<Rightarrow> gotime list \<Rightarrow> audit_db \<Rightarrow> audit_db" where
  "invalidateRollupHours x stamps db =
     (let hours = remdups (filter (\<lambda>h. rollupBuildable h (x_now x)) (map hourOf stamps)) in
      if hours = [] \<or> \<not> db_rollups_ready db then db else dropRollupMarks hours db)"

subsection \<open>Silences\<close>

definition activeAuditSilences :: "audit_env \<Rightarrow> audit_db \<Rightarrow> AuditSilence list" where
  "activeAuditSilences x db =
     (if \<not> db_silences_ready db then []
      else sort_key si_ID (filter (\<lambda>s. case si_ExpiresAt s of None \<Rightarrow> True | Some t \<Rightarrow> x_dbnow x < t) (db_silences db)))"

definition storeSilencedEvent :: "nat \<Rightarrow> silencedRow \<Rightarrow> audit_db \<Rightarrow> audit_db" where
  "storeSilencedEvent silence r db =
     (if se_uid r \<in> se_uid ` set (db_silenced db) then db
      else db\<lparr>db_silenced := db_silenced db @ [r\<lparr>se_silence_id := silence\<rparr>]\<rparr>)"

record AuditEventRow =
  ar_ID :: nat
  ar_Ts :: gotime
  ar_RuleID :: string
  ar_Sev :: string
  ar_Origin :: string
  ar_Data :: Event
  ar_Silenced :: bool
  ar_NewlySilenced :: bool

definition set_silenced :: "bool \<Rightarrow> nat \<Rightarrow> gotime \<Rightarrow> audit_db \<Rightarrow> audit_db" where
  "set_silenced b i ts db =
     db\<lparr>db_events := map (\<lambda>r. if ae_id r = i \<and> ae_ts r = ts then r\<lparr>ae_silenced := b\<rparr> else r) (db_events db)\<rparr>"

definition refresh_silenced :: "AuditEventRow \<Rightarrow> string \<Rightarrow> audit_db \<Rightarrow> audit_db" where
  "refresh_silenced row uid db =
     db\<lparr>db_silenced := map (\<lambda>e. if se_uid e = uid
          then e\<lparr>se_ev := ar_Data row, se_origin := ar_Origin row, se_rule_id := nullable (ar_RuleID row), se_sev := nullable (ar_Sev row)\<rparr>
          else e) (db_silenced db)\<rparr>"

definition silenceStoredEvent :: "audit_env \<Rightarrow> AuditEventRow \<Rightarrow> string \<Rightarrow> audit_db \<Rightarrow> AuditEventRow \<times> audit_db" where
  "silenceStoredEvent x row uid db =
     (if \<not> db_silences_ready db then (row, db)
      else if uid \<in> se_uid ` set (db_silenced db) then (row\<lparr>ar_Silenced := True\<rparr>, refresh_silenced row uid db)
      else case firstSilence (activeAuditSilences x db) (ar_Data row) of
        None \<Rightarrow> (row, db)
      | Some i \<Rightarrow>
        let db1 = storeSilencedEvent i \<lparr>se_silence_id = i, se_uid = uid, se_ts = ar_Ts row, se_ev = ar_Data row,
                    se_origin = ar_Origin row, se_rule_id = nullable (ar_RuleID row), se_sev = nullable (ar_Sev row)\<rparr> db;
            db2 = (if db_rollups_ready db1
                   then invalidateRollupHours x [ar_Ts row] (set_silenced True (ar_ID row) (ar_Ts row) db1) else db1)
        in (row\<lparr>ar_Silenced := True, ar_NewlySilenced := True\<rparr>, db2))"

definition CreateAuditSilence :: "audit_env \<Rightarrow> nat \<Rightarrow> AuditSilence \<Rightarrow> duration \<Rightarrow> audit_db \<Rightarrow> (silence_error + AuditSilence) \<times> audit_db" where
  "CreateAuditSilence x serial s0 d db =
     (case silence_Normalize s0 of
        Inl e \<Rightarrow> (Inl e, db)
      | Inr s \<Rightarrow>
        if d < 0 \<or> AuditSilenceMaxDuration < d then (Inl SilenceDuration, db)
        else let s' = s\<lparr>si_ID := serial, si_CreatedAt := x_dbnow x,
                        si_ExpiresAt := (if 0 < d then Some (x_dbnow x + (d div second) * second) else None)\<rparr>
             in (Inr s', db\<lparr>db_silences := db_silences db @ [s']\<rparr>))"

definition silence_active :: "audit_env \<Rightarrow> AuditSilence \<Rightarrow> bool" where
  "silence_active x s \<longleftrightarrow> (case si_ExpiresAt s of None \<Rightarrow> True | Some t \<Rightarrow> x_dbnow x < t)"

definition EndAuditSilence :: "audit_env \<Rightarrow> nat \<Rightarrow> audit_db \<Rightarrow> bool \<times> audit_db" where
  "EndAuditSilence x i db =
     (if list_ex (\<lambda>s. si_ID s = i \<and> silence_active x s) (db_silences db)
      then (True, db\<lparr>db_silences := map (\<lambda>s. if si_ID s = i \<and> silence_active x s then s\<lparr>si_ExpiresAt := Some (x_dbnow x)\<rparr> else s) (db_silences db)\<rparr>)
      else (list_ex (\<lambda>s. si_ID s = i) (db_silences db), db))"

definition unsilenced :: "nat \<Rightarrow> audit_db \<Rightarrow> audit_row \<Rightarrow> bool" where
  "unsilenced i db r \<longleftrightarrow> ae_silenced r
     \<and> list_ex (\<lambda>e. se_silence_id e = i \<and> ae_event_uid r = Some (se_uid e) \<and> ae_ts r = se_ts e) (db_silenced db)"

definition unsilenceEvents :: "audit_env \<Rightarrow> nat \<Rightarrow> audit_db \<Rightarrow> audit_db" where
  "unsilenceEvents x i db =
     invalidateRollupHours x (map ae_ts (filter (unsilenced i db) (db_events db)))
       (db\<lparr>db_events := map (\<lambda>r. if unsilenced i db r then r\<lparr>ae_silenced := False\<rparr> else r) (db_events db)\<rparr>)"

text \<open>Deleting a silence deletes the events it hid from their table (\<^verbatim>\<open>ON DELETE CASCADE\<close>).\<close>

definition delete_silence :: "nat \<Rightarrow> audit_db \<Rightarrow> audit_db" where
  "delete_silence i db =
     (if list_ex (\<lambda>s. si_ID s = i) (db_silences db)
      then db\<lparr>db_silences := filter (\<lambda>s. si_ID s \<noteq> i) (db_silences db), db_silenced := filter (\<lambda>e. se_silence_id e \<noteq> i) (db_silenced db)\<rparr>
      else db)"

definition DeleteAuditSilence :: "audit_env \<Rightarrow> nat \<Rightarrow> audit_db \<Rightarrow> bool \<times> audit_db" where
  "DeleteAuditSilence x i db =
     (list_ex (\<lambda>s. si_ID s = i) (db_silences db),
      delete_silence i (if db_rollups_ready db then unsilenceEvents x i db else db))"

text \<open>\<^verbatim>\<open>silencedFilter\<close>: a row the audit page shows.\<close>

definition shown :: "audit_db \<Rightarrow> audit_row \<Rightarrow> bool" where
  "shown db r \<longleftrightarrow>
     (if db_rollups_ready db then \<not> ae_silenced r
      else if \<not> db_silences_ready db then True
      else \<not> list_ex (\<lambda>e. ae_event_uid r = Some (se_uid e)) (db_silenced db))"

subsection \<open>Audit events\<close>

definition partitionedTS :: "gotime \<Rightarrow> gotime \<Rightarrow> duration \<Rightarrow> gotime option" where
  "partitionedTS now ts ttl = (if ts < now - ttl then None else if now + hour < ts then Some now else Some ts)"

record AuditEventInsert =
  it_Event :: Event
  it_Origin :: string
  it_RuleID :: string
  it_Sev :: string

text \<open>The rows that are copied: the item, its time and the silence that hides it. An item older than
  the retention is left out.\<close>

definition stored_items :: "audit_env \<Rightarrow> AuditSilence list \<Rightarrow> AuditEventInsert list \<Rightarrow> (AuditEventInsert \<times> gotime \<times> nat option) list" where
  "stored_items x silences items =
     List.map_filter (\<lambda>it. let ev = it_Event it; ts = (if ev_Timestamp ev = 0 then x_now x else ev_Timestamp ev) in
       map_option (\<lambda>t. (it, pg_time t, if ev_ID ev \<noteq> [] then firstSilence silences ev else None))
         (partitionedTS (x_now x) ts (x_retention x))) items"

definition event_row :: "bool \<Rightarrow> string \<Rightarrow> nat \<Rightarrow> AuditEventInsert \<times> gotime \<times> nat option \<Rightarrow> audit_row" where
  "event_row flagged key i s =
     (case s of (it, ts, silence) \<Rightarrow> let ev = it_Event it in
      \<lparr>ae_id = i, ae_ts = ts, ae_user = ev_User ev, ae_kind = ev_Kind ev, ae_ns = ev_Namespace ev, ae_resource = ev_Resource ev,
       ae_data = ev, ae_event_uid = nullable (ev_ID ev), ae_name = ev_Name ev, ae_source_ip = nullable (SourceIP ev),
       ae_allowed = ev_Allowed ev, ae_origin = it_Origin it, ae_rule_id = nullable (it_RuleID it), ae_sev = nullable (it_Sev it),
       ae_silenced = (flagged \<and> silence \<noteq> None), ae_key = key\<rparr>)"

definition store_silenced :: "AuditEventInsert \<times> gotime \<times> nat option \<Rightarrow> audit_db \<Rightarrow> audit_db" where
  "store_silenced s db =
     (case s of (it, ts, None) \<Rightarrow> db
      | (it, ts, Some i) \<Rightarrow> storeSilencedEvent i \<lparr>se_silence_id = i, se_uid = ev_ID (it_Event it), se_ts = ts, se_ev = it_Event it,
          se_origin = it_Origin it, se_rule_id = nullable (it_RuleID it), se_sev = nullable (it_Sev it)\<rparr> db)"

text \<open>\<^verbatim>\<open>InsertAuditEvents\<close>; the first result tells for each stored item whether it was silenced.\<close>

definition InsertAuditEvents :: "audit_env \<Rightarrow> string \<Rightarrow> AuditEventInsert list \<Rightarrow> audit_db \<Rightarrow> bool list \<times> audit_db" where
  "InsertAuditEvents x key items db =
     (let rows = stored_items x (activeAuditSilences x db) items in
      if rows = [] then ([], db\<lparr>db_expired := db_expired db @ [key]\<rparr>)
      else
        let n = db_next_id db;
            db1 = db\<lparr>db_events := db_events db @ map2 (event_row (db_rollups_ready db) key) [n..<n + length rows] rows,
                     db_next_id := n + length rows\<rparr>;
            db2 = invalidateRollupHours x (map (\<lambda>s. fst (snd s)) rows) db1
        in (map (\<lambda>s. snd (snd s) \<noteq> None) rows, fold store_silenced rows db2))"

definition update_rows :: "(audit_row \<Rightarrow> bool) \<Rightarrow> (audit_row \<Rightarrow> audit_row) \<Rightarrow> audit_db \<Rightarrow> audit_db" where
  "update_rows P f db = db\<lparr>db_events := map (\<lambda>r. if P r then f r else r) (db_events db)\<rparr>"

text \<open>The first row that \<^verbatim>\<open>RETURNING\<close> yields.\<close>

definition returned_row :: "audit_row \<Rightarrow> AuditEventRow" where
  "returned_row r = \<lparr>ar_ID = ae_id r, ar_Ts = ae_ts r,
     ar_RuleID = (case ae_rule_id r of None \<Rightarrow> [] | Some s \<Rightarrow> s), ar_Sev = (case ae_sev r of None \<Rightarrow> [] | Some s \<Rightarrow> s),
     ar_Origin = AuditOriginBoth, ar_Data = ae_data r, ar_Silenced = False, ar_NewlySilenced = False\<rparr>"

definition enriched_event :: "AuditEnrichment \<Rightarrow> string \<Rightarrow> Event \<Rightarrow> Event" where
  "enriched_event en ip ev0 =
     (let ev = ev0\<lparr>ev_SourceIPs := en_SourceIPs en, ev_ClientIP := ip, ev_UserAgent := en_UserAgent en, ev_AuditID := en_AuditID en,
                   ev_StatusCode := en_StatusCode en, ev_Allowed := Some (en_Allowed en)\<rparr> in
      if en_User en = [] then ev
      else let ev1 = ev\<lparr>ev_User := en_User en, ev_Groups := en_Groups en, ev_ServiceAccount := []\<rparr>;
               ev2 = (if en_ImpersonatedUser en \<noteq> []
                      then ev1\<lparr>ev_ImpersonatedUser := en_ImpersonatedUser en, ev_ImpersonatedGroups := en_ImpersonatedGroups en\<rparr> else ev1)
           in if en_Attribution en \<noteq> [] then ev2\<lparr>ev_Attribution := en_Attribution en\<rparr> else ev2)"

definition enrichment_ip :: "AuditEnrichment \<Rightarrow> string" where
  "enrichment_ip en = (if en_ClientIP en \<noteq> [] then en_ClientIP en else ClientIP (en_SourceIPs en) [])"

definition enriched_row :: "AuditEnrichment \<Rightarrow> audit_row \<Rightarrow> audit_row" where
  "enriched_row en r =
     r\<lparr>ae_source_ip := nullable (enrichment_ip en), ae_allowed := Some (en_Allowed en), ae_origin := AuditOriginBoth,
       ae_data := enriched_event en (enrichment_ip en) (ae_data r),
       ae_user := (if en_User en \<noteq> [] then en_User en else ae_user r)\<rparr>"

definition waiting_row :: "audit_env \<Rightarrow> string \<Rightarrow> gotime \<Rightarrow> string \<Rightarrow> audit_row \<Rightarrow> bool" where
  "waiting_row x uid around origin r \<longleftrightarrow>
     ae_event_uid r = Some uid \<and> in_window (auditJoinWindow (x_now x) around) (ae_ts r) \<and> ae_origin r = origin"

definition EnrichAuditEvent :: "audit_env \<Rightarrow> AuditEnrichment \<Rightarrow> audit_db \<Rightarrow> AuditEventRow option \<times> audit_db" where
  "EnrichAuditEvent x en db =
     (let P = waiting_row x (en_EventUID en) (en_At en) AuditOriginAdmission in
      case List.find P (db_events db) of
        None \<Rightarrow> (None, db)
      | Some r \<Rightarrow>
        let row = returned_row (enriched_row en r);
            db1 = invalidateRollupHours x [ar_Ts row] (update_rows P (enriched_row en) db);
            (row', db2) = silenceStoredEvent x row (en_EventUID en) db1
        in (Some row', db2))"

text \<open>The fields that an admission event adds to the row of its log record: those it has a value for,
  the service account only when nobody was impersonated.\<close>

definition admissionDetails :: "Event \<Rightarrow> Event \<Rightarrow> Event" where
  "admissionDetails ev data =
     data\<lparr>ev_Source := (if ev_Source ev \<noteq> [] then ev_Source ev else ev_Source data),
          ev_WebhookType := (if ev_WebhookType ev \<noteq> [] then ev_WebhookType ev else ev_WebhookType data),
          ev_UID := (if ev_UID ev \<noteq> [] then ev_UID ev else ev_UID data),
          ev_ResourceVersion := (if ev_ResourceVersion ev \<noteq> [] then ev_ResourceVersion ev else ev_ResourceVersion data),
          ev_PrevResourceVersion := (if ev_PrevResourceVersion ev \<noteq> [] then ev_PrevResourceVersion ev else ev_PrevResourceVersion data),
          ev_Container := (if ev_Container ev \<noteq> [] then ev_Container ev else ev_Container data),
          ev_Commands := (if ev_Commands ev \<noteq> [] then ev_Commands ev else ev_Commands data),
          ev_Ports := (if ev_Ports ev \<noteq> [] then ev_Ports ev else ev_Ports data),
          ev_Unchanged := (ev_Unchanged ev \<or> ev_Unchanged data),
          ev_CompletedAt := (if ev_CompletedAt ev \<noteq> None then ev_CompletedAt ev else ev_CompletedAt data),
          ev_ServiceAccount := (if ev_ServiceAccount ev \<noteq> [] \<and> ev_ImpersonatedUser data = [] then ev_ServiceAccount ev else ev_ServiceAccount data)\<rparr>"

definition admission_row :: "Event \<Rightarrow> audit_row \<Rightarrow> audit_row" where
  "admission_row ev r = r\<lparr>ae_origin := AuditOriginBoth, ae_data := admissionDetails ev (ae_data r)\<rparr>"

definition MergeAdmissionDetails :: "audit_env \<Rightarrow> Event \<Rightarrow> gotime \<Rightarrow> audit_db \<Rightarrow> AuditEventRow option \<times> audit_db" where
  "MergeAdmissionDetails x ev around db =
     (let P = waiting_row x (ev_ID ev) around AuditOriginAPILog in
      case List.find P (db_events db) of
        None \<Rightarrow> (None, db)
      | Some r \<Rightarrow>
        let (row, db1) = silenceStoredEvent x (returned_row (admission_row ev r)) (ev_ID ev) (update_rows P (admission_row ev) db)
        in (Some row, db1))"

definition MarkAuditEventRule :: "audit_env \<Rightarrow> AuditEventRow \<Rightarrow> string \<Rightarrow> string \<Rightarrow> string \<Rightarrow> audit_db \<Rightarrow> audit_db" where
  "MarkAuditEventRule x row uid ruleID sev db =
     (let db1 = invalidateRollupHours x [ar_Ts row]
            (update_rows (\<lambda>r. ae_id r = ar_ID row \<and> ae_ts r = ar_Ts row) (\<lambda>r. r\<lparr>ae_rule_id := Some ruleID, ae_sev := Some sev\<rparr>) db) in
      if \<not> ar_Silenced row then db1
      else db1\<lparr>db_silenced := map (\<lambda>e. if se_uid e = uid then e\<lparr>se_rule_id := Some ruleID, se_sev := Some sev\<rparr> else e) (db_silenced db1)\<rparr>)"

subsection \<open>Reports of the same object\<close>

definition auditInformerResources :: "string list" where
  "auditInformerResources = [''mutatingwebhookconfigurations'', ''validatingwebhookconfigurations'']"

definition AuditInformerResource :: "string \<Rightarrow> bool" where
  "AuditInformerResource resource \<longleftrightarrow> resource \<in> set auditInformerResources"

definition row_twin :: "string \<Rightarrow> audit_row \<Rightarrow> AuditTwin" where
  "row_twin uid r = \<lparr>tw_EventUID = uid, tw_Origin = ae_origin r, tw_Source = ev_Source (ae_data r), tw_ObjectUID = ev_UID (ae_data r),
     tw_ResourceVersion = ev_ResourceVersion (ae_data r), tw_PrevResourceVersion = ev_PrevResourceVersion (ae_data r),
     tw_At = ae_ts r, tw_CompletedAt = (case ev_CompletedAt (ae_data r) of Some t \<Rightarrow> t | None \<Rightarrow> ae_ts r)\<rparr>"

text \<open>\<^verbatim>\<open>FindAuditTwins\<close>, nearest in time first.\<close>

definition FindAuditTwins :: "string \<Rightarrow> string \<Rightarrow> string \<Rightarrow> gotime \<Rightarrow> audit_db \<Rightarrow> AuditTwin list" where
  "FindAuditTwins kind resource name around db =
     List.map_filter (\<lambda>r. map_option (\<lambda>uid. row_twin uid r) (ae_event_uid r))
       (sort_key (\<lambda>r. \<bar>ae_ts r - pg_time around\<bar>)
         (filter (\<lambda>r. ae_kind r = kind \<and> ae_resource r = resource \<and> ae_name r = name
            \<and> in_window (around - auditTwinSlack, around + auditTwinSlack) (ae_ts r)
            \<and> ae_allowed r \<noteq> Some False \<and> \<not> ev_Unchanged (ae_data r)) (db_events db)))"

definition merge_meta :: "Event \<Rightarrow> string \<Rightarrow> Event \<Rightarrow> Event" where
  "merge_meta ev attr data =
     data\<lparr>ev_UID := (if ev_UID ev \<noteq> [] then ev_UID ev else ev_UID data),
          ev_ResourceVersion := (if ev_ResourceVersion ev \<noteq> [] then ev_ResourceVersion ev else ev_ResourceVersion data),
          ev_PrevResourceVersion := (if ev_PrevResourceVersion ev \<noteq> [] then ev_PrevResourceVersion ev else ev_PrevResourceVersion data),
          ev_WebhookType := (if ev_WebhookType ev \<noteq> [] then ev_WebhookType ev else ev_WebhookType data),
          ev_Attribution := (if attr \<noteq> [] then attr else ev_Attribution data)\<rparr>"

definition MergeAuditObjectMeta :: "string \<Rightarrow> Event \<Rightarrow> string \<Rightarrow> audit_db \<Rightarrow> audit_db" where
  "MergeAuditObjectMeta uid ev attr db =
     update_rows (\<lambda>r. ae_event_uid r = Some uid
                     \<and> in_window (ev_Timestamp ev - auditTwinSlack, ev_Timestamp ev + auditTwinSlack) (ae_ts r) \<and> ae_origin r = AuditOriginAPILog)
       (\<lambda>r. r\<lparr>ae_origin := AuditOriginBoth, ae_data := merge_meta ev attr (ae_data r)\<rparr>) db"

subsection \<open>Log records whose event never came\<close>

definition StaleAuditPending :: "audit_env \<Rightarrow> duration \<Rightarrow> nat \<Rightarrow> audit_db \<Rightarrow> string list" where
  "StaleAuditPending x grace limit db =
     map fst (take limit (sort_key (\<lambda>kr. ig_created_at (snd kr))
       (filter (\<lambda>kr. \<not> as_Admitted (ig_state (snd kr))
                  \<and> (case as_Pending (ig_state (snd kr)) of None \<Rightarrow> False | Some en \<Rightarrow> en_Event en \<noteq> None)
                  \<and> ig_created_at (snd kr) < x_dbnow x - grace) (db_state db))))"

subsection \<open>Retention of the progress, the counters and the silences\<close>

definition sweep_state :: "audit_env \<Rightarrow> audit_db \<Rightarrow> audit_db" where
  "sweep_state x db =
     (let gone = filter (\<lambda>kr. ig_created_at (snd kr) < x_dbnow x - x_retention x) (db_state db) in
      db\<lparr>db_state := filter (\<lambda>kr. \<not> ig_created_at (snd kr) < x_dbnow x - x_retention x) (db_state db),
         db_matches := filter (\<lambda>m. fst m \<notin> fst ` set gone) (db_matches db),
         db_thresholds := filter (\<lambda>t. \<not> th_updated_at (snd t) < x_dbnow x - 48 * hour) (db_thresholds db)\<rparr>)"

definition sweepAuditSilences :: "audit_env \<Rightarrow> audit_db \<Rightarrow> audit_db" where
  "sweepAuditSilences x db =
     (if \<not> db_silences_ready db then db
      else let limit = x_dbnow x - x_retention x;
               ended = (\<lambda>s. case si_ExpiresAt s of None \<Rightarrow> False | Some t \<Rightarrow> t < limit) in
        db\<lparr>db_silences := filter (\<lambda>s. \<not> ended s) (db_silences db),
           db_silenced := filter (\<lambda>e. \<not> se_ts e < limit \<and> \<not> list_ex (\<lambda>s. ended s \<and> si_ID s = se_silence_id e) (db_silences db)) (db_silenced db)\<rparr>)"

subsection \<open>Totals per hour (auditrollup.go)\<close>

definition auditDanger :: "audit_row \<Rightarrow> bool" where
  "auditDanger r \<longleftrightarrow> ae_rule_id r \<noteq> None \<or> ae_allowed r = Some False"

definition row_allowed :: "audit_row \<Rightarrow> bool" where
  "row_allowed r \<longleftrightarrow> ae_allowed r \<noteq> Some False"

definition hour_rows :: "gotime \<Rightarrow> audit_db \<Rightarrow> audit_row list" where
  "hour_rows h db = filter (\<lambda>r. h \<le> ae_ts r \<and> ae_ts r < h + hour \<and> \<not> ae_silenced r) (db_events db)"

definition row_group :: "audit_row \<Rightarrow> string \<times> bool \<times> bool" where
  "row_group r = (ae_user r, row_allowed r, auditDanger r)"

text \<open>\<^verbatim>\<open>GROUP BY\<close> user, result and danger; the sample of addresses of an hour is left out.\<close>

definition hour_totals :: "gotime \<Rightarrow> audit_db \<Rightarrow> hourly_row list" where
  "hour_totals h db =
     (let rows = hour_rows h db in
      map (\<lambda>g. \<lparr>hr_hour = h, hr_user = fst g, hr_allowed = fst (snd g), hr_danger = snd (snd g),
                hr_events = length (filter (\<lambda>r. row_group r = g) rows),
                hr_last_seen = Max (ae_ts ` set (filter (\<lambda>r. row_group r = g) rows))\<rparr>) (remdups (map row_group rows)))"

definition rebuildRollupHour :: "gotime \<Rightarrow> audit_db \<Rightarrow> audit_db" where
  "rebuildRollupHour h db =
     db\<lparr>db_hourly := filter (\<lambda>t. hr_hour t \<noteq> h) (db_hourly db) @ hour_totals h db,
        db_marks := (if h \<in> set (db_marks db) then db_marks db else db_marks db @ [h])\<rparr>"

definition hours_between :: "gotime \<Rightarrow> gotime \<Rightarrow> gotime list" where
  "hours_between a b = (if b < a then [] else map (\<lambda>i. a + int i * hour) [0..<nat ((b - a) div hour) + 1])"

definition missingRollupHours :: "gotime \<Rightarrow> gotime \<Rightarrow> nat \<Rightarrow> audit_db \<Rightarrow> gotime list" where
  "missingRollupHours a b limit db = take limit (filter (\<lambda>h. h \<notin> set (db_marks db)) (hours_between a b))"

definition rollupBatch :: nat where "rollupBatch = 500"

definition rollup_tasks :: "audit_env \<Rightarrow> audit_db \<Rightarrow> gotime list" where
  "rollup_tasks x db =
     (let oldest = hourOf (x_dbnow x - x_retention x) + hour; newest = hourOf (x_dbnow x - rollupSettle) - hour in
      if newest < oldest then []
      else take rollupBatch (rev (filter (\<lambda>h. h \<notin> set (db_marks db)) (hours_between oldest newest))))"

text \<open>The loop of \<^verbatim>\<open>RefreshAuditRollups\<close>; it stops at the first failing transaction, and when the
  environments are used up, that is, when its time budget is spent or the process is stopped.\<close>

fun refresh_loop :: "gotime list \<Rightarrow> audit_env list \<Rightarrow> nat \<Rightarrow> audit_db \<Rightarrow> nat \<times> audit_db" where
  "refresh_loop [] xs built db = (built, db)"
| "refresh_loop (h # hs) [] built db = (built, db)"
| "refresh_loop (h # hs) (x # xs) built db =
     (case x_outcome x of
        TxFailed _ \<Rightarrow> (built, db)
      | TxUnknown \<Rightarrow> (built, rebuildRollupHour h db)
      | TxCommitted \<Rightarrow> refresh_loop hs xs (built + 1) (rebuildRollupHour h db))"

definition RefreshAuditRollups :: "audit_env \<Rightarrow> audit_env list \<Rightarrow> audit_db \<Rightarrow> nat \<times> audit_db" where
  "RefreshAuditRollups x xs db = (if \<not> db_rollups_ready db then (0, db) else refresh_loop (rollup_tasks x db) xs 0 db)"

definition sweepAuditRollups :: "audit_env \<Rightarrow> audit_db \<Rightarrow> audit_db" where
  "sweepAuditRollups x db =
     (if \<not> db_rollups_ready db then db
      else let limit = x_dbnow x - x_retention x in
        db\<lparr>db_hourly := filter (\<lambda>t. \<not> hr_hour t < limit) (db_hourly db), db_marks := filter (\<lambda>h. \<not> h < limit) (db_marks db)\<rparr>)"

end
