(* ===== verification/Audit_Engine.thy ===== *)
theory Audit_Engine
  imports Audit_Store Go_Value Go_Json
begin

section \<open>The audit engine (kvisior/internal/auditengine)\<close>

text \<open>
  The engine receives admission events and records of the API server's audit log, joins the two
  reports of one request under one event key, evaluates the audit rules and writes rows, violations
  and alerts. Every event is handled in one transaction of \<^verbatim>\<open>WithAuditEvent\<close>; what the engine wants
  to publish is collected in a buffer and published after the commit. The model has one function per
  function of engine.go, pending.go and apilog.go. The identity of the cluster and the two digests the
  code computes with SHA-256 are the parameter \<open>site\<close>; the outcome of each transaction comes with the
  environment \<open>audit_env\<close>.
\<close>

record apiLogIdentity =
  id_AuditID :: string
  id_Received :: gotime
  id_User :: string
  id_ImpersonatedUser :: string
  id_UserAgent :: string
  id_Kind :: string
  id_Resource :: string
  id_Namespace :: string
  id_Name :: string
  id_Container :: string
  id_Groups :: "string list"
  id_ImpersonatedGroups :: "string list"
  id_SourceIPs :: "string list"
  id_Commands :: "string list"
  id_Ports :: "int list"
  id_DryRun :: bool

text \<open>The cluster, the hexadecimal SHA-256 of a byte string, that of the JSON text of an identity, and the
  JSON text of an event.\<close>

record site =
  site_cluster :: string
  site_sha256 :: "string \<Rightarrow> string"
  site_identity :: "apiLogIdentity \<Rightarrow> string"
  site_json :: "Event \<Rightarrow> string"

definition apiLogEventID :: "site \<Rightarrow> Event \<Rightarrow> string" where
  "apiLogEventID st ev = ''apilog-sha256:'' @ site_identity st
     \<lparr>id_AuditID = ev_AuditID ev, id_Received = ev_Timestamp ev, id_User = ev_User ev, id_ImpersonatedUser = ev_ImpersonatedUser ev,
      id_UserAgent = ev_UserAgent ev, id_Kind = ev_Kind ev, id_Resource = ev_Resource ev, id_Namespace = ev_Namespace ev,
      id_Name = ev_Name ev, id_Container = ev_Container ev, id_Groups = ev_Groups ev, id_ImpersonatedGroups = ev_ImpersonatedGroups ev,
      id_SourceIPs = ev_SourceIPs ev, id_Commands = ev_Commands ev, id_Ports = ev_Ports ev, id_DryRun = ev_DryRun ev\<rparr>"

definition DefaultCluster :: string where "DefaultCluster = ''default''"

definition Fingerprint :: "site \<Rightarrow> string \<Rightarrow> string \<Rightarrow> string \<Rightarrow> string \<Rightarrow> string" where
  "Fingerprint st cluster ruleID ns pod =
     take 24 (site_sha256 st ((if cluster = [] then DefaultCluster else cluster) @ [CHR 0x00] @ ruleID @ [CHR 0x00] @ ns @ [CHR 0x00] @ pod))"

definition refreshInterval :: duration where "refreshInterval = 15 * second"
definition alertSource :: string where "alertSource = ''sentry-audit''"
definition alertDetType :: string where "alertDetType = ''Audit''"
definition PendingGrace :: duration where "PendingGrace = 5 * minute"
definition pendingBatch :: nat where "pendingBatch = 200"
definition trustedProxiesRefresh :: duration where "trustedProxiesRefresh = 30 * second"

definition sevRank :: "string \<Rightarrow> nat" where
  "sevRank s = (if s = SevCritical then 4 else if s = SevHigh then 3 else if s = SevMedium then 2 else if s = SevLow then 1 else 0)"

subsection \<open>The engine's own state\<close>

record trustedProxies =
  tp_networks :: "ipnet list"
  tp_until :: gotime

record Engine =
  e_matcher :: Matcher
  e_stamp :: string
  e_loaded :: bool
  e_proxies :: "(string \<times> trustedProxies) list"
  e_started :: gotime

definition New :: "gotime \<Rightarrow> Engine" where
  "New now = \<lparr>e_matcher = NewMatcher, e_stamp = [], e_loaded = False, e_proxies = [], e_started = now\<rparr>"

record AuditProxySettings =
  px_Proxies :: string
  px_HeadersSanitized :: bool

definition trustedProxyNetworks :: "AuditProxySettings \<Rightarrow> ipnet list option" where
  "trustedProxyNetworks s =
     (if \<not> px_HeadersSanitized s then Some []
      else case ParseProxies (px_Proxies s) of Inl _ \<Rightarrow> None | Inr ns \<Rightarrow> Some ns)"

text \<open>The settings of the cluster are the answer of the database; \<open>None\<close> when it fails.\<close>

definition trusted :: "gotime \<Rightarrow> AuditProxySettings option \<Rightarrow> string \<Rightarrow> Engine \<Rightarrow> ipnet list option \<times> Engine" where
  "trusted now settings cluster e =
     (let refetch =
        (case settings of None \<Rightarrow> (None, e)
         | Some s \<Rightarrow> let ns = (case trustedProxyNetworks s of None \<Rightarrow> [] | Some ns \<Rightarrow> ns) in
             (Some ns, e\<lparr>e_proxies := AList.update cluster \<lparr>tp_networks = ns, tp_until = now + trustedProxiesRefresh\<rparr> (e_proxies e)\<rparr>)) in
      case map_of (e_proxies e) cluster of
        Some c \<Rightarrow> if now < tp_until c then (Some (tp_networks c), e) else refetch
      | None \<Rightarrow> refetch)"

text \<open>\<^verbatim>\<open>Reload\<close> reads the stamp before the rules, so that a change in between is loaded again.\<close>

definition Reload :: "string option \<Rightarrow> Rule list option \<Rightarrow> Engine \<Rightarrow> bool \<times> Engine" where
  "Reload stamp rules e =
     (case stamp of None \<Rightarrow> (False, e)
      | Some s \<Rightarrow> (case rules of None \<Rightarrow> (False, e)
        | Some rs \<Rightarrow> (True, e\<lparr>e_matcher := Replace (e_matcher e) rs, e_stamp := s, e_loaded := True\<rparr>)))"

definition ensureRules :: "string option \<Rightarrow> Rule list option \<Rightarrow> Engine \<Rightarrow> bool \<times> Engine" where
  "ensureRules stamp rules e = (if e_loaded e then (True, e) else Reload stamp rules e)"

text \<open>A tick of the refresh timer in \<^verbatim>\<open>Run\<close>; the number of consecutive failures is the second component.\<close>

definition refresh_tick :: "string option \<Rightarrow> string option \<Rightarrow> Rule list option \<Rightarrow> Engine \<times> nat \<Rightarrow> Engine \<times> nat" where
  "refresh_tick seen stamp rules s =
     (case s of (e, failures) \<Rightarrow>
      (case seen of None \<Rightarrow> (e, failures + 1)
       | Some v \<Rightarrow> if v = e_stamp e then (e, 0)
         else (case Reload stamp rules e of (True, e') \<Rightarrow> (e', 0) | (False, e') \<Rightarrow> (e', failures + 1))))"

subsection \<open>Rules that matched\<close>

fun topRule_loop :: "Rule list \<Rightarrow> Rule option \<Rightarrow> Rule option" where
  "topRule_loop [] best = best"
| "topRule_loop (r # rs) best =
     (if \<not> r_Enabled r then topRule_loop rs best
      else case best of None \<Rightarrow> topRule_loop rs (Some r)
        | Some b \<Rightarrow> topRule_loop rs (if sevRank (r_Severity b) < sevRank (r_Severity r) then Some r else best))"

definition topRule :: "Rule list \<Rightarrow> Rule option" where "topRule hits = topRule_loop hits None"

text \<open>A published violation; its fields on the actor and the object are copied from the event.\<close>

record violationEvent =
  ve_Policy :: string
  ve_RuleID :: string
  ve_Sev :: string
  ve_Check :: string
  ve_Event :: Event
  ve_Fingerprint :: string

text \<open>What the engine publishes: a new event with the mark of its rule, a violation, an update of an
  event by a log record or by an admission event, a changed attribution, and an event that a silence
  now hides.\<close>

type_synonym rule_mark = "(string \<times> string \<times> string) option"

datatype hub_event =
    AuditEventMsg Event rule_mark
  | AuditViolationMsg violationEvent
  | EnrichedMsg AuditEnrichment rule_mark
  | AdmittedMsg Event rule_mark
  | AttributionMsg string string
  | SilencedMsg string

definition mark_of :: "Rule \<Rightarrow> string \<times> string \<times> string" where
  "mark_of r = (r_ID r, r_Name r, to_upper (r_Severity r))"

definition withRule :: "Event \<Rightarrow> Rule option \<Rightarrow> hub_event" where
  "withRule raw best = AuditEventMsg raw (map_option mark_of best)"

definition fingerprint :: "site \<Rightarrow> Rule \<Rightarrow> Event \<Rightarrow> string" where
  "fingerprint st r ev = Fingerprint st (site_cluster st) (r_ID r) (ev_Namespace ev)
     (ev_Kind ev @ ''/'' @ ev_Resource ev @ ''/'' @ ev_Name ev @ ''/'' @ ev_User ev)"

definition objectText :: "Event \<Rightarrow> string" where
  "objectText ev = join ''/'' ([ev_Resource ev] @ (if ev_Namespace ev \<noteq> [] then [ev_Namespace ev] else [])
     @ (if ev_Name ev \<noteq> [] then [ev_Name ev] else []))"

definition alertDetail :: "Event \<Rightarrow> Rule \<Rightarrow> string" where
  "alertDetail ev r =
     ev_User ev @ '' '' @ ev_Kind ev @ '' '' @ objectText ev
     @ (let ip = SourceIP ev in if ip \<noteq> [] then '' from '' @ ip else [])
     @ (if ev_Commands ev \<noteq> [] then '' command '' @ join '' '' (ev_Commands ev) else [])
     @ (if \<not> IsAllowed ev then '' (denied)'' else [])
     @ (if s_AlertEvery (r_Spec r) = AlertThreshold
        then '', '' @ int_str (s_ThN (r_Spec r)) @ '' times in '' @ int_str (s_ThMin (r_Spec r)) @ '' min'' else [])"

definition violation_write :: "site \<Rightarrow> Rule \<Rightarrow> Event \<Rightarrow> AuditViolationWrite" where
  "violation_write st r ev =
     \<lparr>vw_RuleID = r_ID r, vw_RuleName = r_Name r, vw_Sev = to_upper (r_Severity r), vw_Kind = ev_Kind ev, vw_Resource = ev_Resource ev,
      vw_Namespace = ev_Namespace ev, vw_Name = ev_Name ev, vw_Actor = ev_User ev, vw_SourceIP = SourceIP ev,
      vw_Fingerprint = fingerprint st r ev, vw_Data = ev\<rparr>"

definition violation_event :: "site \<Rightarrow> Rule \<Rightarrow> Event \<Rightarrow> violationEvent" where
  "violation_event st r ev =
     \<lparr>ve_Policy = r_Name r, ve_RuleID = r_ID r, ve_Sev = to_upper (r_Severity r),
      ve_Check = (if r_Origin r = OriginBuiltin then r_ID r else []), ve_Event = ev, ve_Fingerprint = fingerprint st r ev\<rparr>"

definition rule_alert :: "site \<Rightarrow> string \<Rightarrow> Rule \<Rightarrow> Event \<Rightarrow> IncomingAlert" where
  "rule_alert st key r ev =
     \<lparr>ia_Timestamp = ev_Timestamp ev, ia_Source = alertSource, ia_DetType = alertDetType, ia_RuleID = r_ID r, ia_RuleName = r_Name r,
      ia_Severity = to_upper (r_Severity r), ia_Namespace = (if ev_Namespace ev = [] then em_dash else ev_Namespace ev),
      ia_Target = (if ev_Name ev = [] then ev_Resource ev else ev_Name ev), ia_Detail = alertDetail ev r,
      ia_Fingerprint = ''aud|'' @ Fingerprint st (site_cluster st) (r_ID r) key [], ia_Data = ev, ia_key = key\<rparr>"

fun act_loop :: "site \<Rightarrow> audit_env \<Rightarrow> string \<Rightarrow> Event \<Rightarrow> Rule list \<Rightarrow> audit_db \<Rightarrow> IncomingAlert list \<times> hub_event list \<times> audit_db" where
  "act_loop st x key ev [] db = ([], [], db)"
| "act_loop st x key ev (r # rs) db =
     (case ClaimAuditRule key (r_ID r) db of
        (False, db1) \<Rightarrow> act_loop st x key ev rs db1
      | (True, db1) \<Rightarrow>
        let db2 = (if r_Enabled r then WriteAuditViolation x (violation_write st r ev) db1 else db1);
            msgs = (if r_Enabled r then [AuditViolationMsg (violation_event st r ev)] else []);
            (fire, db3) = (if r_Alert r then AuditThreshold x r db2 else (False, db2));
            (alerts, msgs', db4) = act_loop st x key ev rs db3
        in ((if fire then [rule_alert st key r ev] else []) @ alerts, msgs @ msgs', db4))"

text \<open>\<^verbatim>\<open>act\<close>; rule identifiers are a primary key, so that the order of \<^verbatim>\<open>sort.Slice\<close> is determined.\<close>

definition act :: "site \<Rightarrow> audit_env \<Rightarrow> string \<Rightarrow> Event \<Rightarrow> Rule list \<Rightarrow> audit_db \<Rightarrow> IncomingAlert list \<times> hub_event list \<times> audit_db" where
  "act st x key ev hits db = act_loop st x key ev (sort_key r_ID hits) db"

text \<open>\<^verbatim>\<open>act\<close> followed by \<^verbatim>\<open>InsertAlerts\<close>, as its three callers have it.\<close>

definition act_and_alert :: "site \<Rightarrow> audit_env \<Rightarrow> string \<Rightarrow> Event \<Rightarrow> Rule list \<Rightarrow> audit_db \<Rightarrow> hub_event list \<times> audit_db" where
  "act_and_alert st x key ev hits db =
     (case act st x key ev hits db of (alerts, msgs, db1) \<Rightarrow> (msgs, InsertAlerts x alerts db1))"

subsection \<open>New events\<close>

record prepared =
  pr_ev :: Event
  pr_hits :: "Rule list"
  pr_top :: "Rule option"

definition prepare :: "site \<Rightarrow> Engine \<Rightarrow> gotime \<Rightarrow> Event \<Rightarrow> string \<Rightarrow> prepared" where
  "prepare st e now ev0 raw =
     (let ev1 = (if ev_ID ev0 = [] then ev0\<lparr>ev_ID := ''sha256:'' @ site_sha256 st raw\<rparr> else ev0);
          ev = (if ev_Timestamp ev1 = 0 then ev1\<lparr>ev_Timestamp := now\<rparr> else ev1);
          hits = Match (e_matcher e) (site_cluster st) ev False
      in \<lparr>pr_ev = ev, pr_hits = hits, pr_top = topRule hits\<rparr>)"

definition persist :: "site \<Rightarrow> audit_env \<Rightarrow> string \<Rightarrow> string \<Rightarrow> prepared \<Rightarrow> audit_db \<Rightarrow> hub_event list \<times> audit_db" where
  "persist st x origin key p db =
     (let it = \<lparr>it_Event = pr_ev p, it_Origin = origin,
                it_RuleID = (case pr_top p of None \<Rightarrow> [] | Some r \<Rightarrow> r_ID r),
                it_Sev = (case pr_top p of None \<Rightarrow> [] | Some r \<Rightarrow> to_upper (r_Severity r))\<rparr>;
          (silenced, db1) = InsertAuditEvents x key [it] db;
          msgs = (if silenced = [True] then [] else [withRule (pr_ev p) (pr_top p)]);
          (msgs', db2) = act_and_alert st x key (pr_ev p) (pr_hits p) db1
      in (msgs @ msgs', db2))"

definition clean :: "string \<Rightarrow> string" where "clean s = replace_char (CHR 0x00) replacement_char s"

definition sanitize :: "Event \<Rightarrow> Event" where
  "sanitize ev =
     ev\<lparr>ev_ID := clean (ev_ID ev), ev_User := clean (ev_User ev), ev_ImpersonatedUser := clean (ev_ImpersonatedUser ev),
        ev_ServiceAccount := clean (ev_ServiceAccount ev), ev_UserAgent := clean (ev_UserAgent ev), ev_Kind := clean (ev_Kind ev),
        ev_Resource := clean (ev_Resource ev), ev_WebhookType := clean (ev_WebhookType ev), ev_Namespace := clean (ev_Namespace ev),
        ev_Name := clean (ev_Name ev), ev_UID := clean (ev_UID ev), ev_ResourceVersion := clean (ev_ResourceVersion ev),
        ev_PrevResourceVersion := clean (ev_PrevResourceVersion ev), ev_Source := clean (ev_Source ev),
        ev_Container := clean (ev_Container ev), ev_AuditID := clean (ev_AuditID ev),
        ev_Groups := map clean (ev_Groups ev), ev_ImpersonatedGroups := map clean (ev_ImpersonatedGroups ev),
        ev_SourceIPs := map clean (ev_SourceIPs ev), ev_Commands := map clean (ev_Commands ev)\<rparr>"

subsection \<open>Joining the two reports\<close>

definition publishUpdate :: "string \<Rightarrow> AuditEventRow \<Rightarrow> hub_event \<Rightarrow> hub_event list" where
  "publishUpdate uid row update =
     (if ar_NewlySilenced row then [SilencedMsg uid] else if ar_Silenced row then [] else [update])"

text \<open>The stronger rule of a joined event is marked on its row.\<close>

definition mark_stronger :: "audit_env \<Rightarrow> Rule list \<Rightarrow> AuditEventRow \<Rightarrow> string \<Rightarrow> audit_db \<Rightarrow> rule_mark \<times> audit_db" where
  "mark_stronger x hits row uid db =
     (case topRule hits of
        Some r \<Rightarrow>
          if sevRank (to_lower (ar_Sev row)) < sevRank (r_Severity r)
          then (Some (mark_of r), MarkAuditEventRule x row uid (r_ID r) (to_upper (r_Severity r)) db)
          else (None, db)
      | None \<Rightarrow> (None, db))"

text \<open>The fields of an enrichment that are published: neither its time nor the waiting event.\<close>

definition published :: "AuditEnrichment \<Rightarrow> AuditEnrichment" where
  "published en = en\<lparr>en_At := 0, en_Event := None, en_Materialized := False\<rparr>"

definition enrich :: "site \<Rightarrow> Engine \<Rightarrow> audit_env \<Rightarrow> string \<Rightarrow> AuditEnrichment \<Rightarrow> audit_db \<Rightarrow> (bool \<times> hub_event list) \<times> audit_db" where
  "enrich st e x key en db =
     (case EnrichAuditEvent x en db of
        (None, db1) \<Rightarrow> ((False, []), db1)
      | (Some row, db1) \<Rightarrow>
        let ev = ar_Data row;
            db2 = (if ar_RuleID row \<noteq> [] then AttachAuditViolationSource x (en_EventUID en) (SourceIP ev) (en_User en) ev db1 else db1);
            db3 = AttachAuditAlertActor x (en_EventUID en) (ar_Ts row) (en_User en) ev db2;
            hits = Match (e_matcher e) (site_cluster st) ev False;
            (mark, db4) = mark_stronger x hits row (en_EventUID en) db3;
            (msgs, db5) = act_and_alert st x key ev hits db4
        in ((True, publishUpdate (en_EventUID en) row (EnrichedMsg (published en) mark) @ msgs), db5))"

definition mergeAdmission :: "site \<Rightarrow> Engine \<Rightarrow> audit_env \<Rightarrow> string \<Rightarrow> Event \<Rightarrow> gotime \<Rightarrow> audit_db \<Rightarrow> hub_event list \<times> audit_db" where
  "mergeAdmission st e x key ev around db =
     (case MergeAdmissionDetails x ev around db of
        (None, db1) \<Rightarrow> ([], db1)
      | (Some row, db1) \<Rightarrow>
        let merged = ar_Data row;
            hits = Match (e_matcher e) (site_cluster st) merged False;
            (mark, db2) = mark_stronger x hits row (ev_ID ev) db1;
            (msgs, db3) = act_and_alert st x key merged hits db2
        in (publishUpdate (ev_ID ev) row (AdmittedMsg ev mark) @ msgs, db3))"

subsection \<open>Admission events\<close>

definition objectTwins :: "Event \<Rightarrow> audit_db \<Rightarrow> AuditTwin list" where
  "objectTwins ev db = FindAuditTwins (ev_Kind ev) (ev_Resource ev) (ev_Name ev) (ev_Timestamp ev) db"

text \<open>The report of a key now lives in the row of another report.\<close>

definition note_merged :: "string \<Rightarrow> audit_db \<Rightarrow> audit_db" where
  "note_merged key db = db\<lparr>db_merged := db_merged db @ [key]\<rparr>"

text \<open>The first half of the transaction of an admission event: unless its row exists, it is merged into
  the log's row for the same change or stored. The first component tells that the transaction ends.\<close>

definition admit_event :: "site \<Rightarrow> audit_env \<Rightarrow> string \<Rightarrow> prepared \<Rightarrow> audit_db \<Rightarrow> AuditState \<Rightarrow> (bool \<times> hub_event list) \<times> audit_db \<times> AuditState" where
  "admit_event st x key p db state0 =
     (if as_Admitted state0 then ((False, []), db, state0)
      else
        let ev = pr_ev p;
            (admitted, enriched) = ExistingAuditEvent x (ev_ID ev) (ev_Timestamp ev) db;
            state = state0\<lparr>as_Admitted := admitted, as_Enriched := enriched\<rparr> in
        case (if \<not> admitted \<and> ev_Source ev = sourceInformer \<and> AuditInformerResource (ev_Resource ev)
              then logTwin ev (objectTwins ev db) else None) of
          Some m \<Rightarrow> ((True, if attribution m \<noteq> [] then [AttributionMsg (tm_uid m) (attribution m)] else []),
                     note_merged key (MergeAuditObjectMeta (tm_uid m) ev (attribution m) db), state\<lparr>as_Admitted := True\<rparr>)
        | None \<Rightarrow>
          if admitted then ((False, []), db, state)
          else (case persist st x AuditOriginAdmission key p db of
                  (msgs, db1) \<Rightarrow> ((False, msgs), db1, state\<lparr>as_Admitted := True\<rparr>)))"

text \<open>The second half: the log record that was waiting for the event.\<close>

definition join_pending :: "site \<Rightarrow> Engine \<Rightarrow> audit_env \<Rightarrow> string \<Rightarrow> Event \<Rightarrow> audit_db \<Rightarrow> AuditState \<Rightarrow> hub_event list \<times> audit_db \<times> AuditState" where
  "join_pending st e x key ev db state =
     (case as_Pending state of
        None \<Rightarrow> ([], db, state)
      | Some en \<Rightarrow>
        if en_Materialized en then
          (case mergeAdmission st e x key ev (en_At en) db of
             (msgs, db1) \<Rightarrow> (msgs, db1, state\<lparr>as_Enriched := True, as_Pending := None\<rparr>))
        else if \<not> as_Enriched state then
          (case enrich st e x key (en\<lparr>en_At := ev_Timestamp ev\<rparr>) db of
             ((ok, msgs), db1) \<Rightarrow> (msgs, db1, if ok then state\<lparr>as_Enriched := True, as_Pending := None\<rparr> else state))
        else ([], db, state))"

definition admit_tx :: "site \<Rightarrow> Engine \<Rightarrow> audit_env \<Rightarrow> string \<Rightarrow> prepared \<Rightarrow> audit_db \<Rightarrow> AuditState \<Rightarrow> hub_event list \<times> audit_db \<times> AuditState" where
  "admit_tx st e x key p db state0 =
     (case admit_event st x key p db state0 of
        ((True, msgs), db1, state) \<Rightarrow> (msgs, db1, state)
      | ((False, msgs), db1, state) \<Rightarrow>
        (case join_pending st e x key (pr_ev p) db1 state of (msgs', db2, state2) \<Rightarrow> (msgs @ msgs', db2, state2)))"

text \<open>A raw message: its bytes and what \<^verbatim>\<open>json.Unmarshal\<close> makes of them.\<close>

record raw_event =
  rw_text :: string
  rw_event :: "Event option"

definition admission_key :: "string \<Rightarrow> string" where "admission_key uid = ''admission:'' @ uid"
definition apilog_key :: "string \<Rightarrow> string" where "apilog_key uid = ''apilog:'' @ uid"

definition accept_event :: "site \<Rightarrow> Engine \<Rightarrow> audit_env \<Rightarrow> ipnet list \<Rightarrow> raw_event \<Rightarrow> (string \<times> prepared) option" where
  "accept_event st e x proxies raw =
     (case rw_event raw of None \<Rightarrow> None
      | Some ev0 \<Rightarrow>
        let ev1 = sanitize ev0;
            ev = ev1\<lparr>ev_ClientIP := ClientIP (ev_SourceIPs ev1) proxies, ev_Allowed := None, ev_StatusCode := 0\<rparr>;
            p = prepare st e (x_now x) ev (rw_text raw) in
        if ev_Timestamp (pr_ev p) < x_now x - x_retention x then None
        else Some (admission_key (ev_ID (pr_ev p)), p))"

text \<open>
  The loop over the accepted events. The list \<open>xs\<close> gives the environment of each transaction; when it
  is used up the process was stopped. A data error skips the event, any other error ends the loop.
\<close>

fun ingest_loop :: "site \<Rightarrow> Engine \<Rightarrow> (string \<Rightarrow> AuditProgress) \<Rightarrow> (string \<times> prepared) list \<Rightarrow> audit_env list \<Rightarrow> audit_db
    \<Rightarrow> bool \<times> hub_event list \<times> audit_db" where
  "ingest_loop st e progress [] xs db = (True, [], db)"
| "ingest_loop st e progress (kp # items) xs db =
     (let d = progress (fst kp) in
      if ap_Admitted d \<and> (ap_Enriched d \<or> \<not> ap_Pending d) then ingest_loop st e progress items xs db
      else case xs of [] \<Rightarrow> (False, [], db)
        | x # xs' \<Rightarrow>
          (case WithAuditEvent x (fst kp) (admit_tx st e x (fst kp) (snd kp)) db of
             (Inl data_error, db1) \<Rightarrow> if data_error then ingest_loop st e progress items xs' db1 else (False, [], db1)
           | (Inr msgs, db1) \<Rightarrow>
             (case ingest_loop st e progress items xs' db1 of (ok, msgs', db2) \<Rightarrow> (ok, msgs @ msgs', db2))))"

record ingest_answers =
  an_stamp :: "string option"
  an_rules :: "Rule list option"
  an_settings :: "AuditProxySettings option"
  an_progress :: bool

definition IngestEvents :: "site \<Rightarrow> audit_env \<Rightarrow> ingest_answers \<Rightarrow> raw_event list \<Rightarrow> audit_env list \<Rightarrow> Engine \<Rightarrow> audit_db
    \<Rightarrow> (bool \<times> hub_event list) \<times> Engine \<times> audit_db" where
  "IngestEvents st x a raws xs e0 db =
     (case ensureRules (an_stamp a) (an_rules a) e0 of
        (False, e1) \<Rightarrow> ((False, []), e1, db)
      | (True, e1) \<Rightarrow>
        (case trusted (x_now x) (an_settings a) (site_cluster st) e1 of
           (None, e2) \<Rightarrow> ((False, []), e2, db)
         | (Some proxies, e2) \<Rightarrow>
           if \<not> an_progress a then ((False, []), e2, db)
           else (case ingest_loop st e2 (AuditProgress_of db) (List.map_filter (accept_event st e2 x proxies) raws) xs db of
                   (ok, msgs, db1) \<Rightarrow> ((ok, msgs), e2, db1))))"

subsection \<open>Records of the audit log\<close>

record LogRecord =
  lr_EventUID :: string
  lr_Event :: Event

definition enrichment :: "string \<Rightarrow> Event \<Rightarrow> bool \<Rightarrow> AuditEnrichment" where
  "enrichment uid ev actor =
     \<lparr>en_EventUID = uid, en_SourceIPs = ev_SourceIPs ev, en_ClientIP = ev_ClientIP ev, en_UserAgent = ev_UserAgent ev,
      en_AuditID = ev_AuditID ev, en_StatusCode = ev_StatusCode ev, en_Allowed = IsAllowed ev, en_At = ev_Timestamp ev,
      en_User = (if actor then ev_User ev else []), en_Groups = (if actor then ev_Groups ev else []),
      en_ImpersonatedUser = (if actor then ev_ImpersonatedUser ev else []),
      en_ImpersonatedGroups = (if actor then ev_ImpersonatedGroups ev else []),
      en_Attribution = [], en_Event = None, en_Materialized = False\<rparr>"

text \<open>A record of a request that no admission event reported.\<close>

definition log_tx :: "site \<Rightarrow> Engine \<Rightarrow> audit_env \<Rightarrow> string \<Rightarrow> bool \<Rightarrow> prepared \<Rightarrow> audit_db \<Rightarrow> AuditState \<Rightarrow> hub_event list \<times> audit_db \<times> AuditState" where
  "log_tx st e x key watched p db state =
     (if as_Admitted state then ([], db, state)
      else
        let ev = pr_ev p;
            store = (\<lambda>d. case persist st x AuditOriginAPILog key p d of (msgs, d1) \<Rightarrow> (msgs, d1, state\<lparr>as_Admitted := True\<rparr>)) in
        case (if watched then informerTwin ev (objectTwins ev db) else None) of
          None \<Rightarrow> store db
        | Some m \<Rightarrow>
          (case enrich st e x (admission_key (tm_uid m)) ((enrichment (tm_uid m) ev True)\<lparr>en_Attribution := attribution m\<rparr>) db of
             ((True, msgs), db1) \<Rightarrow> (msgs, note_merged key db1, state\<lparr>as_Admitted := True\<rparr>)
           | ((False, _), db1) \<Rightarrow> store db1))"

text \<open>A record that names the admission event of its request.\<close>

definition enrich_tx :: "site \<Rightarrow> Engine \<Rightarrow> audit_env \<Rightarrow> string \<Rightarrow> string \<Rightarrow> Event \<Rightarrow> audit_db \<Rightarrow> AuditState \<Rightarrow> hub_event list \<times> audit_db \<times> AuditState" where
  "enrich_tx st e x key uid ev db state0 =
     (let en = enrichment uid ev (ev_ImpersonatedUser ev \<noteq> []) in
      if as_Enriched state0 \<or> (case as_Pending state0 of None \<Rightarrow> False | Some q \<Rightarrow> en_Materialized q) then ([], db, state0)
      else
        let state = (if as_Admitted state0 then state0
                     else let (admitted, enriched) = ExistingAuditEvent x uid (ev_Timestamp ev) db
                          in state0\<lparr>as_Admitted := admitted, as_Enriched := enriched\<rparr>) in
        if \<not> as_Admitted state0 \<and> as_Enriched state then ([], db, state)
        else if \<not> as_Admitted state then ([], db, state\<lparr>as_Pending := Some (en\<lparr>en_Event := Some ev\<rparr>)\<rparr>)
        else (case enrich st e x key en db of
                ((ok, msgs), db1) \<Rightarrow> (msgs, db1, state\<lparr>as_Enriched := ok, as_Pending := (if ok then None else Some en)\<rparr>)))"

record log_item =
  li_key :: string
  li_legacy :: string
  li_uid :: string
  li_event :: Event
  li_prepared :: "prepared option"
  li_watched :: bool

definition accept_record :: "site \<Rightarrow> Engine \<Rightarrow> audit_env \<Rightarrow> ipnet list \<Rightarrow> LogRecord \<Rightarrow> log_item option" where
  "accept_record st e x proxies rec =
     (let ev0 = lr_Event rec in
      if ev_Timestamp ev0 \<noteq> 0 \<and> ev_Timestamp ev0 < x_now x - x_retention x then None
      else
        let ev1 = sanitize ev0;
            ev2 = ev1\<lparr>ev_ClientIP := ClientIP (ev_SourceIPs ev1) proxies\<rparr>;
            uid = clean (lr_EventUID rec) in
        if uid \<noteq> [] then Some \<lparr>li_key = admission_key uid, li_legacy = [], li_uid = uid, li_event = ev2, li_prepared = None, li_watched = False\<rparr>
        else
          let ev3 = ev2\<lparr>ev_Source := SourceAPILog, ev_AuditID := (if ev_AuditID ev2 = [] then ev_ID ev2 else ev_AuditID ev2)\<rparr>;
              ev4 = ev3\<lparr>ev_ID := apiLogEventID st ev3\<rparr>;
              p = prepare st e (x_now x) ev4 (site_json st ev4)
          in Some \<lparr>li_key = apilog_key (ev_ID (pr_ev p)),
                   li_legacy = (if ev_AuditID ev3 \<noteq> [] \<and> ev_Timestamp ev3 < e_started e then apilog_key (ev_AuditID ev3) else []),
                   li_uid = [], li_event = pr_ev p, li_prepared = Some p,
                   li_watched = (IsAllowed ev2 \<and> \<not> ev_Unchanged ev2 \<and> AuditInformerResource (ev_Resource ev2))\<rparr>)"

definition log_item_done :: "(string \<Rightarrow> AuditProgress) \<Rightarrow> log_item \<Rightarrow> bool" where
  "log_item_done progress it \<longleftrightarrow>
     li_legacy it \<noteq> [] \<and> ap_Admitted (progress (li_legacy it))
     \<or> (let d = progress (li_key it) in
        if li_uid it = [] then ap_Admitted d else ap_Enriched d \<or> (ap_Pending d \<and> \<not> ap_Admitted d))"

definition record_tx :: "site \<Rightarrow> Engine \<Rightarrow> audit_env \<Rightarrow> log_item \<Rightarrow> audit_db \<Rightarrow> AuditState \<Rightarrow> hub_event list \<times> audit_db \<times> AuditState" where
  "record_tx st e x it =
     (case li_prepared it of
        Some p \<Rightarrow> log_tx st e x (li_key it) (li_watched it) p
      | None \<Rightarrow> enrich_tx st e x (li_key it) (li_uid it) (li_event it))"

fun log_loop :: "site \<Rightarrow> Engine \<Rightarrow> (string \<Rightarrow> AuditProgress) \<Rightarrow> log_item list \<Rightarrow> audit_env list \<Rightarrow> audit_db \<Rightarrow> bool \<times> hub_event list \<times> audit_db" where
  "log_loop st e progress [] xs db = (True, [], db)"
| "log_loop st e progress (it # items) xs db =
     (if log_item_done progress it then log_loop st e progress items xs db
      else case xs of [] \<Rightarrow> (False, [], db)
        | x # xs' \<Rightarrow>
          (case WithAuditEvent x (li_key it) (record_tx st e x it) db of
             (Inl data_error, db1) \<Rightarrow> if data_error then log_loop st e progress items xs' db1 else (False, [], db1)
           | (Inr msgs, db1) \<Rightarrow>
             (case log_loop st e progress items xs' db1 of (ok, msgs', db2) \<Rightarrow> (ok, msgs @ msgs', db2))))"

definition IngestLog :: "site \<Rightarrow> audit_env \<Rightarrow> ingest_answers \<Rightarrow> LogRecord list \<Rightarrow> audit_env list \<Rightarrow> Engine \<Rightarrow> audit_db
    \<Rightarrow> (bool \<times> hub_event list) \<times> Engine \<times> audit_db" where
  "IngestLog st x a records xs e0 db =
     (case ensureRules (an_stamp a) (an_rules a) e0 of
        (False, e1) \<Rightarrow> ((False, []), e1, db)
      | (True, e1) \<Rightarrow>
        (case trusted (x_now x) (an_settings a) (site_cluster st) e1 of
           (None, e2) \<Rightarrow> ((False, []), e2, db)
         | (Some proxies, e2) \<Rightarrow>
           if \<not> an_progress a then ((False, []), e2, db)
           else (case log_loop st e2 (AuditProgress_of db) (List.map_filter (accept_record st e2 x proxies) records) xs db of
                   (ok, msgs, db1) \<Rightarrow> ((ok, msgs), e2, db1))))"

subsection \<open>Log records whose event never came (pending.go)\<close>

definition materialize_tx :: "site \<Rightarrow> Engine \<Rightarrow> audit_env \<Rightarrow> string \<Rightarrow> audit_db \<Rightarrow> AuditState \<Rightarrow> (bool \<times> hub_event list) \<times> audit_db \<times> AuditState" where
  "materialize_tx st e x key db state =
     (case as_Pending state of
        None \<Rightarrow> ((False, []), db, state)
      | Some pending \<Rightarrow>
        (case en_Event pending of
           None \<Rightarrow> ((False, []), db, state)
         | Some logged \<Rightarrow>
           if as_Admitted state then ((False, []), db, state)
           else
             let en = pending\<lparr>en_Event := None\<rparr>;
                 (admitted, enriched) = ExistingAuditEvent x (en_EventUID en) (ev_Timestamp logged) db in
             if admitted then
               (if enriched then ((False, []), db, state\<lparr>as_Admitted := True, as_Enriched := True, as_Pending := None\<rparr>)
                else (case enrich st e x key en db of
                        ((ok, msgs), db1) \<Rightarrow>
                          ((False, msgs), db1, state\<lparr>as_Admitted := True, as_Enriched := ok, as_Pending := (if ok then None else Some en)\<rparr>)))
             else
               let ev = logged\<lparr>ev_ID := en_EventUID en, ev_Source := SourceAPILog,
                               ev_AuditID := (if ev_AuditID logged = [] then en_AuditID en else ev_AuditID logged)\<rparr>;
                   p = prepare st e (x_now x) ev (site_json st ev);
                   (msgs, db1) = persist st x AuditOriginAPILog key p db in
               ((True, msgs), db1, state\<lparr>as_Admitted := True,
                  as_Pending := Some \<lparr>en_EventUID = en_EventUID en, en_SourceIPs = [], en_ClientIP = [], en_UserAgent = [], en_AuditID = [],
                    en_StatusCode = 0, en_Allowed = False, en_At = ev_Timestamp (pr_ev p), en_User = [], en_Groups = [],
                    en_ImpersonatedUser = [], en_ImpersonatedGroups = [], en_Attribution = [], en_Event = None, en_Materialized = True\<rparr>\<rparr>)))"

definition drop_tx :: "audit_db \<Rightarrow> AuditState \<Rightarrow> unit \<times> audit_db \<times> AuditState" where
  "drop_tx db state = ((), db,
     case as_Pending state of None \<Rightarrow> state
     | Some en \<Rightarrow> if en_Event en \<noteq> None then state\<lparr>as_Pending := Some (en\<lparr>en_Event := None\<rparr>)\<rparr> else state)"

definition dropPendingEvent :: "audit_env \<Rightarrow> string \<Rightarrow> audit_db \<Rightarrow> bool \<times> audit_db" where
  "dropPendingEvent x key db = (case WithAuditEvent x key drop_tx db of (Inl _, db1) \<Rightarrow> (False, db1) | (Inr _, db1) \<Rightarrow> (True, db1))"

text \<open>\<^verbatim>\<open>materializePending\<close>: each stale key takes the environment of its transaction and, for the case
  of a data error, the one of dropping the event.\<close>

fun materialize_loop :: "site \<Rightarrow> Engine \<Rightarrow> string list \<Rightarrow> (audit_env \<times> audit_env) list \<Rightarrow> nat \<Rightarrow> audit_db \<Rightarrow> bool \<times> nat \<times> hub_event list \<times> audit_db" where
  "materialize_loop st e [] xs created db = (True, created, [], db)"
| "materialize_loop st e (key # keys) [] created db = (False, created, [], db)"
| "materialize_loop st e (key # keys) (x # xs) created db =
     (case WithAuditEvent (fst x) key (materialize_tx st e (fst x) key) db of
        (Inl data_error, db1) \<Rightarrow>
          if \<not> data_error then (False, created, [], db1)
          else (case dropPendingEvent (snd x) key db1 of
                  (True, db2) \<Rightarrow> materialize_loop st e keys xs created db2
                | (False, db2) \<Rightarrow> (False, created, [], db2))
      | (Inr (ok, msgs), db1) \<Rightarrow>
          (case materialize_loop st e keys xs (if ok then created + 1 else created) db1 of
             (r, n, msgs', db2) \<Rightarrow> (r, n, msgs @ msgs', db2)))"

definition materializePending :: "site \<Rightarrow> audit_env \<Rightarrow> ingest_answers \<Rightarrow> duration \<Rightarrow> (audit_env \<times> audit_env) list \<Rightarrow> Engine \<Rightarrow> audit_db
    \<Rightarrow> (bool \<times> nat \<times> hub_event list) \<times> Engine \<times> audit_db" where
  "materializePending st x a grace xs e0 db =
     (case ensureRules (an_stamp a) (an_rules a) e0 of
        (False, e1) \<Rightarrow> ((False, 0, []), e1, db)
      | (True, e1) \<Rightarrow>
        (case materialize_loop st e1 (StaleAuditPending x grace pendingBatch db) xs 0 db of
           (ok, n, msgs, db1) \<Rightarrow> ((ok, n, msgs), e1, db1)))"

end
