(* ===== verification/Audit_Once.thy ===== *)
theory Audit_Once
  imports Audit_Engine "HOL-Library.Multiset"
begin

section \<open>Redelivery and lost answers: effects happen once\<close>

text \<open>
  Batches of audit events are delivered at least once: after an error, a restart or a commit whose
  answer was lost, the same events come again. This theory shows that the engine's effects happen at
  most once all the same, for every interleaving of transactions of admission events, log records,
  materialisation and clean-up, whatever their outcomes. The contract of a transaction is the locale
  \<open>audit_transaction\<close>; it is interpreted on the transactions of the engine.
\<close>

abbreviation alert_ids :: "audit_db \<Rightarrow> (string \<times> string) list" where
  "alert_ids db \<equiv> map (\<lambda>a. (ia_key a, ia_RuleID a)) (db_alerts db)"

text \<open>The event keys the database accounts for, each as often as it does: as a row, as merged into the row of
  another report, or as too old.\<close>

definition all_keys :: "audit_db \<Rightarrow> string multiset" where
  "all_keys db = mset (map ae_key (db_events db)) + mset (db_merged db) + mset (db_expired db)"

subsection \<open>What the statements leave alone\<close>

definition uids :: "audit_db \<Rightarrow> string set" where
  "uids db = {u. Some u \<in> ae_event_uid ` set (db_events db)}"

definition same_reports :: "audit_db \<Rightarrow> audit_db \<Rightarrow> bool" where
  "same_reports db db' \<longleftrightarrow> db_state db' = db_state db \<and> all_keys db' = all_keys db
     \<and> db_matches db' = db_matches db \<and> alert_ids db' = alert_ids db \<and> uids db \<subseteq> uids db'"

named_theorems same_reports_intros

lemma same_reports_refl [simp]: "same_reports db db"
  by (simp add: same_reports_def)

lemma same_reports_trans [trans]: "same_reports a b \<Longrightarrow> same_reports b c \<Longrightarrow> same_reports a c"
  by (auto simp: same_reports_def)

lemma same_invalidate [same_reports_intros]: "same_reports db (invalidateRollupHours x ts db)"
  by (simp add: same_reports_def all_keys_def uids_def invalidateRollupHours_def dropRollupMarks_def Let_def)

lemma same_violation_write [same_reports_intros]: "same_reports db (WriteAuditViolation x w db)"
  by (simp add: same_reports_def all_keys_def uids_def WriteAuditViolation_def)

lemma same_violation_source [same_reports_intros]: "same_reports db (AttachAuditViolationSource x u i a d db)"
  by (simp add: same_reports_def all_keys_def uids_def AttachAuditViolationSource_def)

lemma same_threshold: "AuditThreshold x r db = (b, db') \<Longrightarrow> same_reports db db'"
  by (auto simp: same_reports_def all_keys_def uids_def AuditThreshold_def Let_def split: if_splits)

lemma same_alert_actor [same_reports_intros]: "same_reports db (AttachAuditAlertActor x u t a d db)"
  by (auto simp: same_reports_def all_keys_def uids_def AttachAuditAlertActor_def attach_actor_def)

lemma same_update_rows:
  assumes "\<And>r. ae_key (f r) = ae_key r" "\<And>r. ae_event_uid (f r) = ae_event_uid r"
  shows "same_reports db (update_rows P f db)"
proof -
  have "map ae_key (map (\<lambda>r. if P r then f r else r) rs) = map ae_key rs" "ae_event_uid ` set (map (\<lambda>r. if P r then f r else r) rs) = ae_event_uid ` set rs" for rs
    using assms by (induction rs) auto
  then show ?thesis unfolding same_reports_def all_keys_def uids_def update_rows_def
    by (simp del: map_eq_conv mset_map set_map list.map_comp)
qed

lemma same_store_silenced [same_reports_intros]: "same_reports db (store_silenced s db)"
  by (auto simp: same_reports_def all_keys_def uids_def store_silenced_def storeSilencedEvent_def split: prod.splits option.splits)

lemma same_store_silenced_fold [same_reports_intros]: "same_reports db (fold store_silenced rows db)"
  by (induction rows arbitrary: db) (auto intro: same_reports_trans same_store_silenced)

lemma same_set_silenced [same_reports_intros]: "same_reports db (set_silenced b i t db)"
proof -
  have "set_silenced b i t db = update_rows (\<lambda>r. ae_id r = i \<and> ae_ts r = t) (\<lambda>r. r\<lparr>ae_silenced := b\<rparr>) db"
    by (simp add: set_silenced_def update_rows_def)
  then show ?thesis using same_update_rows [of "\<lambda>r. r\<lparr>ae_silenced := b\<rparr>"] by simp
qed

lemma same_silenced [same_reports_intros]:
  "same_reports db (db\<lparr>db_silenced := se\<rparr>)" "same_reports db (refresh_silenced row u db)" "same_reports db (storeSilencedEvent i r db)"
  by (simp_all add: same_reports_def all_keys_def uids_def refresh_silenced_def storeSilencedEvent_def)

lemma same_silence_stored:
  assumes "silenceStoredEvent x row uid db = (row', db')"
  shows "same_reports db db'"
proof -
  have "same_reports d (invalidateRollupHours x ts (set_silenced True i t d))" for d ts i t
    using same_set_silenced same_invalidate by (rule same_reports_trans)
  then have "same_reports db (invalidateRollupHours x ts (set_silenced True i t (storeSilencedEvent n r db)))" for ts i t n r
    using same_reports_trans [OF same_silenced(3)] by blast
  then show ?thesis using assms same_silenced(2,3)
    by (auto simp: silenceStoredEvent_def Let_def split: if_splits option.splits)
qed

lemma same_enriched: "same_reports db (update_rows P (enriched_row en) db)"
  by (rule same_update_rows) (simp_all add: enriched_row_def)

lemma same_enrich:
  assumes "EnrichAuditEvent x en db = (row, db')"
  shows "same_reports db db'"
  using assms same_reports_trans [OF same_reports_trans [OF same_enriched same_invalidate] same_silence_stored]
  by (auto simp: EnrichAuditEvent_def Let_def split: option.splits prod.splits)

lemma same_admission: "same_reports db (update_rows P (admission_row ev) db)"
  by (rule same_update_rows) (simp_all add: admission_row_def)

lemma same_merge:
  assumes "MergeAdmissionDetails x ev t db = (row, db')"
  shows "same_reports db db'"
  using assms same_reports_trans [OF same_admission same_silence_stored]
  by (auto simp: MergeAdmissionDetails_def Let_def split: option.splits prod.splits)

lemma same_meta: "same_reports db (MergeAuditObjectMeta u ev a db)"
  unfolding MergeAuditObjectMeta_def by (rule same_update_rows) simp_all

lemma same_mark: "same_reports db (MarkAuditEventRule x row u r s db)"
proof -
  have "same_reports db (update_rows P (\<lambda>e. e\<lparr>ae_rule_id := Some r, ae_sev := Some s\<rparr>) db)" for P by (rule same_update_rows) simp_all
  from same_reports_trans [OF this same_invalidate] show ?thesis
    using same_reports_trans [OF _ same_silenced(1)] by (simp add: MarkAuditEventRule_def Let_def)
qed

lemma same_mark_stronger: "mark_stronger x hits row u db = (m, db') \<Longrightarrow> same_reports db db'"
  by (auto simp: mark_stronger_def same_mark split: option.splits if_splits)

text \<open>An item of the engine is accounted for once: as a row with its key and identifier, or as too old.\<close>

lemma stored_items_one: "stored_items x s [it] = [] \<or> (\<exists>r. stored_items x s [it] = [r])"
  by (auto simp: stored_items_def Let_def map_filter_simps split: option.splits)

lemma insert_keys:
  assumes "InsertAuditEvents x key [it] db = (b, db')"
  shows "db_state db' = db_state db \<and> all_keys db' = add_mset key (all_keys db) \<and> db_matches db' = db_matches db \<and> alert_ids db' = alert_ids db \<and> uids db \<subseteq> uids db'"
proof (cases "stored_items x (activeAuditSilences x db) [it] = []")
  case True
  with assms show ?thesis by (auto simp: InsertAuditEvents_def all_keys_def uids_def)
next
  case False
  then obtain s where s: "stored_items x (activeAuditSilences x db) [it] = [s]" using stored_items_one by blast
  let ?db1 = "db\<lparr>db_events := db_events db @ [event_row (db_rollups_ready db) key (db_next_id db) s], db_next_id := Suc (db_next_id db)\<rparr>"
  have db': "db' = fold store_silenced [s] (invalidateRollupHours x [fst (snd s)] ?db1)"
    using assms s by (auto simp: InsertAuditEvents_def Let_def)
  have "same_reports ?db1 db'" unfolding db' using same_invalidate same_store_silenced_fold by (rule same_reports_trans)
  moreover have "ae_key (event_row f key i s) = key" for f i by (simp add: event_row_def Let_def split: prod.split)
  ultimately show ?thesis by (auto simp: same_reports_def all_keys_def uids_def)
qed

subsection \<open>Claims and alerts\<close>

definition alerts_once :: "audit_db \<Rightarrow> bool" where
  "alerts_once db \<longleftrightarrow> distinct (db_matches db) \<and> distinct (alert_ids db) \<and> set (alert_ids db) \<subseteq> set (db_matches db)"

lemma claim_cases:
  assumes "ClaimAuditRule key rule db = (b, db')"
  shows "b = ((key, rule) \<notin> set (db_matches db)) \<and> db' = (if b then db\<lparr>db_matches := db_matches db @ [(key, rule)]\<rparr> else db)"
  using assms by (auto simp: ClaimAuditRule_def split: if_splits)

lemma act_step:
  assumes "(if r_Alert r then AuditThreshold x r (if r_Enabled r then WriteAuditViolation x w db1 else db1)
            else (False, if r_Enabled r then WriteAuditViolation x w db1 else db1)) = (fire, db3)"
  shows "same_reports db1 db3"
proof -
  let ?db2 = "if r_Enabled r then WriteAuditViolation x w db1 else db1"
  have "same_reports db1 ?db2" by (simp add: same_violation_write)
  moreover have "same_reports ?db2 db3" using assms same_threshold [of x r ?db2 fire db3] by (cases "r_Alert r") auto
  ultimately show ?thesis by (rule same_reports_trans)
qed

lemma act_loop_once:
  assumes "act_loop st x key ev rs db = (alerts, msgs, db')"
  shows "\<exists>cs. db_matches db' = db_matches db @ cs \<and> distinct cs \<and> set cs \<inter> set (db_matches db) = {}
     \<and> db_state db' = db_state db \<and> all_keys db' = all_keys db \<and> uids db \<subseteq> uids db' \<and> alert_ids db' = alert_ids db
     \<and> distinct (map (\<lambda>a. (ia_key a, ia_RuleID a)) alerts) \<and> set (map (\<lambda>a. (ia_key a, ia_RuleID a)) alerts) \<subseteq> set cs"
  using assms
proof (induction rs arbitrary: db alerts msgs)
  case (Cons r rs)
  obtain b db1 where cl: "ClaimAuditRule key (r_ID r) db = (b, db1)" by (cases "ClaimAuditRule key (r_ID r) db") auto
  note c = claim_cases [OF cl]
  show ?case
  proof (cases b)
    case False
    with Cons.prems cl c have "act_loop st x key ev rs db = (alerts, msgs, db')" by simp
    from Cons.IH [OF this] show ?thesis .
  next
    case True
    let ?db2 = "if r_Enabled r then WriteAuditViolation x (violation_write st r ev) db1 else db1"
    obtain fire db3 where f: "(if r_Alert r then AuditThreshold x r ?db2 else (False, ?db2)) = (fire, db3)" by fastforce
    obtain as ms where l: "act_loop st x key ev rs db3 = (as, ms, db')"
      and a: "alerts = (if fire then [rule_alert st key r ev] else []) @ as"
      using Cons.prems cl True f by (auto simp: Let_def split: prod.splits)
    have s: "db_state db3 = db_state db1" "all_keys db3 = all_keys db1" "db_matches db3 = db_matches db1"
      "alert_ids db3 = alert_ids db1" "uids db1 \<subseteq> uids db3"
      using act_step [OF f] unfolding same_reports_def by blast+
    have m1: "db_matches db1 = db_matches db @ [(key, r_ID r)]" "(key, r_ID r) \<notin> set (db_matches db)"
      "db_state db1 = db_state db" "all_keys db1 = all_keys db" "uids db1 = uids db" "alert_ids db1 = alert_ids db"
      using c True by (auto simp: all_keys_def uids_def)
    from Cons.IH [OF l] obtain cs where cs: "db_matches db' = db_matches db3 @ cs" "distinct cs" "set cs \<inter> set (db_matches db3) = {}"
      "db_state db' = db_state db3" "all_keys db' = all_keys db3" "uids db3 \<subseteq> uids db'" "alert_ids db' = alert_ids db3"
      "distinct (map (\<lambda>a. (ia_key a, ia_RuleID a)) as)" "set (map (\<lambda>a. (ia_key a, ia_RuleID a)) as) \<subseteq> set cs" by blast
    have "uids db \<subseteq> uids db'" using s(5) m1(5) cs(6) by simp
    moreover have "alert_ids db' = alert_ids db" using s(4) m1(6) cs(7) by simp
    moreover have "distinct (map (\<lambda>a. (ia_key a, ia_RuleID a)) alerts) \<and> set (map (\<lambda>a. (ia_key a, ia_RuleID a)) alerts) \<subseteq> set ((key, r_ID r) # cs)"
      using cs(3,8,9) s(3) m1(1) by (auto simp: a rule_alert_def image_iff)
    ultimately show ?thesis
      using cs(1-5) s(1-3) m1(1-4) by (intro exI [of _ "(key, r_ID r) # cs"]) simp
  qed
qed simp

lemma alerts_once_extend:
  assumes "alerts_once db" "db_matches db' = db_matches db @ cs" "distinct cs" "set cs \<inter> set (db_matches db) = {}"
    and "alert_ids db' = alert_ids db @ ids" "distinct ids" "set ids \<subseteq> set cs"
  shows "alerts_once db'"
proof -
  have "set (alert_ids db) \<inter> set ids = {}" using assms(1,4,7) unfolding alerts_once_def by blast
  then show ?thesis using assms unfolding alerts_once_def by (simp only: distinct_append set_append) blast
qed

text \<open>What a step of a transaction does that stores no report of its own.\<close>

definition only_alerts :: "audit_db \<Rightarrow> audit_db \<Rightarrow> bool" where
  "only_alerts db db' \<longleftrightarrow> db_state db' = db_state db \<and> all_keys db' = all_keys db \<and> uids db \<subseteq> uids db' \<and> (alerts_once db \<longrightarrow> alerts_once db')"

lemma only_alerts_refl [simp]: "only_alerts db db"
  by (simp add: only_alerts_def)

lemma only_alerts_trans: "only_alerts a b \<Longrightarrow> only_alerts b c \<Longrightarrow> only_alerts a c"
  by (auto simp: only_alerts_def)

lemma same_only_alerts: "same_reports db db' \<Longrightarrow> only_alerts db db'"
  by (simp add: same_reports_def only_alerts_def alerts_once_def)

lemma act_and_alert_once:
  assumes "act_and_alert st x key ev hits db = (msgs, db')"
  shows "only_alerts db db'"
proof -
  obtain alerts db1 where l: "act_loop st x key ev (sort_key r_ID hits) db = (alerts, msgs, db1)" and d: "db' = InsertAlerts x alerts db1"
    using assms by (auto simp: act_and_alert_def act_def split: prod.splits)
  let ?ids = "map (\<lambda>a. (ia_key a, ia_RuleID a)) alerts"
  have fr: "db_state db' = db_state db1" "all_keys db' = all_keys db1" "uids db' = uids db1" "db_matches db' = db_matches db1"
    "alert_ids db' = alert_ids db1 @ ?ids"
    by (auto simp: d InsertAlerts_def all_keys_def uids_def)
  from act_loop_once [OF l] obtain cs where cs: "db_matches db1 = db_matches db @ cs" "distinct cs" "set cs \<inter> set (db_matches db) = {}"
    "db_state db1 = db_state db" "all_keys db1 = all_keys db" "uids db \<subseteq> uids db1" "alert_ids db1 = alert_ids db" "distinct ?ids" "set ?ids \<subseteq> set cs" by blast
  have "alerts_once db \<Longrightarrow> alerts_once db'"
    by (rule alerts_once_extend [of db db' cs ?ids]) (use cs fr in simp_all)
  then show ?thesis using cs fr by (simp add: only_alerts_def)
qed

lemma persist_once:
  assumes "persist st x origin key p db = (msgs, db')"
  shows "db_state db' = db_state db \<and> all_keys db' = add_mset key (all_keys db) \<and> uids db \<subseteq> uids db' \<and> (alerts_once db \<longrightarrow> alerts_once db')"
proof -
  obtain it b db1 m where i: "InsertAuditEvents x key [it] db = (b, db1)" and a: "act_and_alert st x key (pr_ev p) (pr_hits p) db1 = (m, db')"
    using assms by (auto simp: persist_def Let_def split: prod.splits)
  have "alerts_once db1 = alerts_once db" using insert_keys [OF i] by (simp add: alerts_once_def)
  with insert_keys [OF i] act_and_alert_once [OF a] show ?thesis unfolding only_alerts_def by (simp, blast)
qed

lemma enrich_once:
  assumes "enrich st e x key en db = (r, db')"
  shows "only_alerts db db'"
proof (cases "fst (EnrichAuditEvent x en db)")
  case None
  then show ?thesis using assms same_enrich [of x en db None db']
    by (auto simp: enrich_def intro: same_only_alerts split: prod.splits)
next
  case (Some row)
  obtain db1 where e: "EnrichAuditEvent x en db = (Some row, db1)" using Some by (cases "EnrichAuditEvent x en db") auto
  let ?db2 = "if ar_RuleID row \<noteq> [] then AttachAuditViolationSource x (en_EventUID en) (SourceIP (ar_Data row)) (en_User en) (ar_Data row) db1 else db1"
  let ?db3 = "AttachAuditAlertActor x (en_EventUID en) (ar_Ts row) (en_User en) (ar_Data row) ?db2"
  obtain m db4 where ms: "mark_stronger x (Match (e_matcher e) (site_cluster st) (ar_Data row) False) row (en_EventUID en) ?db3 = (m, db4)" by fastforce
  obtain msgs where a: "act_and_alert st x key (ar_Data row) (Match (e_matcher e) (site_cluster st) (ar_Data row) False) db4 = (msgs, db')"
    using assms e ms by (auto simp: enrich_def Let_def split: prod.splits)
  have "same_reports db1 ?db2" by (simp add: same_violation_source)
  then have "same_reports db1 ?db3" using same_alert_actor by (rule same_reports_trans)
  then have "same_reports db db4" using same_enrich [OF e] same_mark_stronger [OF ms] same_reports_trans by blast
  then show ?thesis using same_only_alerts act_and_alert_once [OF a] only_alerts_trans by blast
qed

lemma merge_once:
  assumes "mergeAdmission st e x key ev t db = (msgs, db')"
  shows "only_alerts db db'"
proof (cases "fst (MergeAdmissionDetails x ev t db)")
  case None
  then show ?thesis using assms same_merge [of x ev t db None db']
    by (auto simp: mergeAdmission_def intro: same_only_alerts split: prod.splits)
next
  case (Some row)
  obtain db1 where e: "MergeAdmissionDetails x ev t db = (Some row, db1)" using Some by (cases "MergeAdmissionDetails x ev t db") auto
  obtain m db2 where ms: "mark_stronger x (Match (e_matcher e) (site_cluster st) (ar_Data row) False) row (ev_ID ev) db1 = (m, db2)" by fastforce
  obtain ms' where a: "act_and_alert st x key (ar_Data row) (Match (e_matcher e) (site_cluster st) (ar_Data row) False) db2 = (ms', db')"
    using assms e ms by (auto simp: mergeAdmission_def Let_def split: prod.splits)
  have "same_reports db db2" using same_merge [OF e] same_mark_stronger [OF ms] by (rule same_reports_trans)
  then show ?thesis using same_only_alerts act_and_alert_once [OF a] only_alerts_trans by blast
qed

subsection \<open>Opening and finishing a transaction\<close>

lemma state_of_cong: "db_state a = db_state b \<Longrightarrow> state_of a k = state_of b k"
  by (simp add: state_of_def)

lemma state_of_open: "state_of (open_state x k db) k' = state_of db k'"
  by (auto simp: open_state_def state_of_def update_conv' split: option.splits)

lemma open_frame:
  "db_events (open_state x k db) = db_events db" "db_matches (open_state x k db) = db_matches db" "db_alerts (open_state x k db) = db_alerts db"
  "all_keys (open_state x k db) = all_keys db"
  by (auto simp: open_state_def all_keys_def split: option.splits)

lemma save_frame:
  "db_events (save_state k s db) = db_events db" "db_matches (save_state k s db) = db_matches db" "db_alerts (save_state k s db) = db_alerts db"
  "all_keys (save_state k s db) = all_keys db"
  by (auto simp: save_state_def all_keys_def split: option.splits)

lemma state_of_save: "map_of (db_state db) k \<noteq> None \<Longrightarrow> state_of (save_state k s db) k' = (if k' = k then s else state_of db k')"
  by (auto simp: save_state_def state_of_def update_conv' split: option.splits)

lemma open_present: "map_of (db_state (open_state x k db)) k \<noteq> None"
  by (auto simp: open_state_def update_conv' split: option.splits)

text \<open>The end of a transaction, once its function has run.\<close>

definition finish :: "string \<Rightarrow> AuditState \<Rightarrow> AuditState \<Rightarrow> audit_db \<Rightarrow> audit_db" where
  "finish key before s db = (if s \<noteq> before then save_state key s db else db)"

lemma finish_frame:
  "db_events (finish k b s db) = db_events db" "db_matches (finish k b s db) = db_matches db" "db_alerts (finish k b s db) = db_alerts db"
  "all_keys (finish k b s db) = all_keys db"
  by (simp_all add: finish_def save_frame)

lemma state_of_finish:
  assumes "db_state db2 = db_state (open_state x key db)"
  shows "state_of (finish key (state_of db key) s db2) k = (if k = key then s else state_of db k)"
  using state_of_save [of db2 key s k] open_present [of x key db] state_of_cong [OF assms, of k] assms
  by (auto simp: finish_def state_of_open)

lemma WithAuditEvent_cases:
  obtains (aborted) d where "x_outcome x = TxFailed d" "WithAuditEvent x key fn db = (Inl d, db)"
  | (lost) r db2 s where "x_outcome x = TxUnknown" "fn (open_state x key db) (state_of db key) = (r, db2, s)"
      "WithAuditEvent x key fn db = (Inl False, finish key (state_of db key) s db2)"
  | (committed) r db2 s where "x_outcome x = TxCommitted" "fn (open_state x key db) (state_of db key) = (r, db2, s)"
      "WithAuditEvent x key fn db = (Inr r, finish key (state_of db key) s db2)"
  by (cases "x_outcome x"; cases "fn (open_state x key db) (state_of db key)")
    (auto simp: WithAuditEvent_def Let_def state_of_open finish_def)

lemma WithAuditEvent_snd:
  obtains "snd (WithAuditEvent x key fn db) = db"
  | r db2 s where "fn (open_state x key db) (state_of db key) = (r, db2, s)"
      "snd (WithAuditEvent x key fn db) = finish key (state_of db key) s db2"
  by (rule WithAuditEvent_cases [of x key fn db]) auto

subsection \<open>The contract of a transaction\<close>

text \<open>A log record that waits under a key names the admission event of that key.\<close>

definition wf_state :: "string \<Rightarrow> AuditState \<Rightarrow> bool" where
  "wf_state key s \<longleftrightarrow> (\<forall>q. as_Pending s = Some q \<longrightarrow> key = admission_key (en_EventUID q))"

text \<open>An admitted report is accounted for: by its own row, in the row of another report, as too old, or by a
  row that carries its identifier.\<close>

definition accounted :: "audit_db \<Rightarrow> string \<Rightarrow> bool" where
  "accounted db key \<longleftrightarrow> key \<in># all_keys db \<or> (\<exists>u\<in>uids db. key = admission_key u)"

definition effects_once :: "audit_db \<Rightarrow> bool" where
  "effects_once db \<longleftrightarrow> (\<forall>k. count (all_keys db) k \<le> 1) \<and> (\<forall>k. k \<in># all_keys db \<longrightarrow> as_Admitted (state_of db k))
     \<and> (\<forall>k. as_Admitted (state_of db k) \<longrightarrow> accounted db k) \<and> (\<forall>k. wf_state k (state_of db k)) \<and> alerts_once db"

text \<open>A transaction for a key may account for that key only, and only when it also turns its progress from
  not admitted to admitted; and it admits only what is accounted for. It never takes an admission back.\<close>

locale audit_transaction =
  fixes key :: string and fn :: "audit_db \<Rightarrow> AuditState \<Rightarrow> 'a \<times> audit_db \<times> AuditState"
  assumes keeps_admitted: "fn db s = (r, db', s') \<Longrightarrow> wf_state key s \<Longrightarrow> as_Admitted s \<Longrightarrow> as_Admitted s'"
    and keeps_wf: "fn db s = (r, db', s') \<Longrightarrow> wf_state key s \<Longrightarrow> wf_state key s'"
    and keeps_progress: "fn db s = (r, db', s') \<Longrightarrow> wf_state key s \<Longrightarrow> db_state db' = db_state db"
    and keeps_rows: "fn db s = (r, db', s') \<Longrightarrow> wf_state key s \<Longrightarrow> uids db \<subseteq> uids db'"
    and accounts_once: "fn db s = (r, db', s') \<Longrightarrow> wf_state key s \<Longrightarrow>
          all_keys db' = all_keys db \<or> all_keys db' = add_mset key (all_keys db) \<and> \<not> as_Admitted s \<and> as_Admitted s'"
    and admits_accounted: "fn db s = (r, db', s') \<Longrightarrow> wf_state key s \<Longrightarrow> \<not> as_Admitted s \<Longrightarrow> as_Admitted s' \<Longrightarrow> accounted db' key"
    and alerts_once: "fn db s = (r, db', s') \<Longrightarrow> wf_state key s \<Longrightarrow> alerts_once db \<Longrightarrow> alerts_once db'"
begin

lemma committed_once:
  assumes once: "effects_once db" and run: "fn (open_state x key db) (state_of db key) = (r, db2, s)"
  shows "effects_once (finish key (state_of db key) s db2)"
proof -
  let ?db1 = "open_state x key db" and ?s = "state_of db key" and ?db3 = "finish key (state_of db key) s db2"
  have wf: "wf_state key ?s" using once by (simp add: effects_once_def)
  note laws = run wf
  have st: "state_of ?db3 k = (if k = key then s else state_of db k)" for k
    using keeps_progress [OF laws] by (rule state_of_finish)
  have k1: "all_keys ?db1 = all_keys db" "uids ?db1 = uids db" by (simp_all add: open_frame uids_def)
  have k3: "all_keys ?db3 = all_keys db2" "uids ?db3 = uids db2" by (simp_all add: finish_frame uids_def)
  have "alerts_once ?db1" using once by (simp add: effects_once_def alerts_once_def open_frame)
  then have a3: "alerts_once ?db3" using alerts_once [OF laws] by (simp add: alerts_once_def finish_frame)
  have wf3: "wf_state k (state_of ?db3 k)" for k using once keeps_wf [OF laws] by (simp add: st effects_once_def)
  have sub: "all_keys db \<subseteq># all_keys ?db3" using accounts_once [OF laws] by (auto simp: k1 k3)
  have mono: "accounted db k \<Longrightarrow> accounted ?db3 k" for k
    using sub keeps_rows [OF laws] unfolding accounted_def k1 k3 by (auto dest: mset_subset_eqD)
  have acc: "accounted ?db3 k" if "as_Admitted (state_of ?db3 k)" for k
  proof (cases "k = key \<and> \<not> as_Admitted ?s")
    case True
    then have "accounted db2 key" using admits_accounted [OF laws] that by (simp add: st)
    then show ?thesis using True by (simp add: accounted_def k3)
  next
    case False
    then have "as_Admitted (state_of db k)" using that by (auto simp: st split: if_splits)
    then show ?thesis using once mono by (simp add: effects_once_def)
  qed
  from accounts_once [OF laws] show ?thesis
  proof
    assume "all_keys db2 = all_keys ?db1"
    then show ?thesis using once a3 wf3 acc keeps_admitted [OF laws] unfolding effects_once_def by (auto simp: k1 k3 st)
  next
    assume new: "all_keys db2 = add_mset key (all_keys ?db1) \<and> \<not> as_Admitted ?s \<and> as_Admitted s"
    then have "key \<notin># all_keys db" using once unfolding effects_once_def by blast
    then have "count (all_keys db) key = 0" by (simp add: not_in_iff)
    with new once a3 wf3 acc show ?thesis unfolding effects_once_def by (auto simp: k1 k3 st)
  qed
qed

lemma transaction_keeps:
  assumes "effects_once db" "as_Admitted (state_of db k)"
  shows "as_Admitted (state_of (snd (WithAuditEvent x key fn db)) k)"
proof (cases rule: WithAuditEvent_snd [of x key fn db])
  case 1
  then show ?thesis using assms(2) by simp
next
  case (2 r db2 s)
  have wf: "wf_state key (state_of db key)" using assms(1) by (simp add: effects_once_def)
  show ?thesis
    using state_of_finish [OF keeps_progress [OF 2(1) wf], of s k] keeps_admitted [OF 2(1) wf] assms(2) 2(2) by (auto split: if_splits)
qed

lemma committed_state:
  assumes "effects_once db" "WithAuditEvent x key fn db = (Inr r, db')"
  obtains db2 s where "fn (open_state x key db) (state_of db key) = (r, db2, s)" "db_state db2 = db_state (open_state x key db)"
    "db' = finish key (state_of db key) s db2" "state_of db' key = s"
proof (rule WithAuditEvent_cases [of x key fn db])
  fix r' db2 s assume c: "fn (open_state x key db) (state_of db key) = (r', db2, s)"
    "WithAuditEvent x key fn db = (Inr r', finish key (state_of db key) s db2)"
  have wf: "wf_state key (state_of db key)" using assms(1) by (simp add: effects_once_def)
  have "db_state db2 = db_state (open_state x key db)" using keeps_progress [OF c(1) wf] .
  with c assms(2) state_of_finish [OF this, of s key] show thesis by (intro that [of db2 s]) auto
qed (use assms in simp_all)

lemma transaction_once: "effects_once db \<Longrightarrow> effects_once (snd (WithAuditEvent x key fn db))"
  by (rule WithAuditEvent_snd [of x key fn db]) (use committed_once in auto)

end

subsection \<open>The transactions of the engine keep the contract\<close>

definition tx_ok :: "string \<Rightarrow> AuditState \<Rightarrow> audit_db \<Rightarrow> AuditState \<Rightarrow> audit_db \<Rightarrow> bool" where
  "tx_ok key s db s' db' \<longleftrightarrow> db_state db' = db_state db \<and> (as_Admitted s \<longrightarrow> as_Admitted s') \<and> wf_state key s' \<and> uids db \<subseteq> uids db'
     \<and> (all_keys db' = all_keys db \<or> all_keys db' = add_mset key (all_keys db) \<and> \<not> as_Admitted s \<and> as_Admitted s')
     \<and> (\<not> as_Admitted s \<longrightarrow> as_Admitted s' \<longrightarrow> accounted db' key) \<and> (alerts_once db \<longrightarrow> alerts_once db')"

lemma tx_ok_same:
  "only_alerts db db' \<Longrightarrow> (as_Admitted s' \<longleftrightarrow> as_Admitted s) \<Longrightarrow> wf_state key s' \<Longrightarrow> tx_ok key s db s' db'"
  by (auto simp: tx_ok_def only_alerts_def)

lemma tx_ok_exists:
  "only_alerts db db' \<Longrightarrow> \<not> as_Admitted s \<Longrightarrow> accounted db key \<Longrightarrow> wf_state key s' \<Longrightarrow> tx_ok key s db s' db'"
  by (auto simp: tx_ok_def only_alerts_def accounted_def)

lemma tx_ok_then: "tx_ok key s db s1 db1 \<Longrightarrow> only_alerts db1 db2 \<Longrightarrow> (as_Admitted s2 \<longleftrightarrow> as_Admitted s1) \<Longrightarrow> wf_state key s2 \<Longrightarrow> tx_ok key s db s2 db2"
  by (auto simp: tx_ok_def only_alerts_def accounted_def)

lemma tx_ok_add:
  assumes "db_state db' = db_state db" "all_keys db' = add_mset key (all_keys db)" "uids db \<subseteq> uids db'" "alerts_once db \<longrightarrow> alerts_once db'"
    and "\<not> as_Admitted s" "as_Admitted s'" "wf_state key s'"
  shows "tx_ok key s db s' db'"
  using assms by (simp add: tx_ok_def accounted_def)

lemma tx_ok_persist:
  assumes "persist st x origin key p db1 = (msgs, db')" "only_alerts db db1" "\<not> as_Admitted s" "as_Admitted s'" "wf_state key s'"
  shows "tx_ok key s db s' db'"
proof (rule tx_ok_add)
  show "db_state db' = db_state db" "all_keys db' = add_mset key (all_keys db)" "uids db \<subseteq> uids db'" "alerts_once db \<longrightarrow> alerts_once db'"
    using persist_once [OF assms(1)] assms(2) unfolding only_alerts_def by (simp, simp, blast, blast)
qed (rule assms)+

lemma tx_ok_merged:
  assumes "only_alerts db db1" "\<not> as_Admitted s" "as_Admitted s'" "wf_state key s'"
  shows "tx_ok key s db s' (note_merged key db1)"
  using assms by (intro tx_ok_add) (auto simp: only_alerts_def note_merged_def all_keys_def alerts_once_def uids_def)

lemma existing_accounted: "ExistingAuditEvent x uid t db = (a, b) \<Longrightarrow> a \<Longrightarrow> accounted db (admission_key uid)"
  by (force simp: ExistingAuditEvent_def Let_def accounted_def uids_def filter_empty_conv image_iff)

lemma admit_event_ok:
  assumes "admit_event st x key p db s = ((stop, msgs), db', s')" "wf_state key s" and key: "key = admission_key (ev_ID (pr_ev p))"
  shows "tx_ok key s db s' db' \<and> as_Pending s' = as_Pending s"
proof (cases "as_Admitted s")
  case True
  with assms show ?thesis by (auto simp: admit_event_def intro: tx_ok_same)
next
  case False
  let ?ev = "pr_ev p"
  obtain adm enr where ex: "ExistingAuditEvent x (ev_ID ?ev) (ev_Timestamp ?ev) db = (adm, enr)" by fastforce
  let ?twin = "if \<not> adm \<and> ev_Source ?ev = sourceInformer \<and> AuditInformerResource (ev_Resource ?ev) then logTwin ?ev (objectTwins ?ev db) else None"
  have same: "as_Pending s' = as_Pending s" using assms(1) False ex
    by (auto simp: admit_event_def Let_def split: option.splits if_splits prod.splits)
  then have wf: "wf_state key s'" using assms(2) by (simp add: wf_state_def)
  have "tx_ok key s db s' db'"
  proof (cases ?twin)
    case (Some m)
    then have "db' = note_merged key (MergeAuditObjectMeta (tm_uid m) ?ev (attribution m) db)" "as_Admitted s'"
      using assms(1) False ex by (auto simp: admit_event_def Let_def)
    then show ?thesis using tx_ok_merged [OF same_only_alerts [OF same_meta] False _ wf] by simp
  next
    case None
    show ?thesis
    proof (cases adm)
      case True
      then have "accounted db key" using existing_accounted ex key by blast
      then show ?thesis using assms(1) False ex None True wf
        by (auto simp: admit_event_def Let_def intro: tx_ok_exists)
    next
      case new: False
      obtain ms where "persist st x AuditOriginAdmission key p db = (ms, db')" "as_Admitted s'"
        using assms(1) False ex None new by (auto simp: admit_event_def Let_def split: prod.splits)
      then show ?thesis using False wf tx_ok_persist only_alerts_refl by blast
    qed
  qed
  then show ?thesis using same by simp
qed

lemma join_pending_ok:
  assumes "join_pending st e x key ev db s = (msgs, db', s')"
  shows "only_alerts db db' \<and> as_Admitted s' = as_Admitted s \<and> (as_Pending s' = as_Pending s \<or> as_Pending s' = None)"
  using assms
  by (auto simp: join_pending_def dest: merge_once enrich_once split: option.splits if_splits prod.splits)

lemma admit_tx_ok:
  assumes "admit_tx st e x key p db s = (msgs, db', s')" "wf_state key s" and key: "key = admission_key (ev_ID (pr_ev p))"
  shows "tx_ok key s db s' db'"
proof -
  obtain stop ms db1 s1 where a: "admit_event st x key p db s = ((stop, ms), db1, s1)" by (metis prod.collapse)
  note ok = admit_event_ok [OF a assms(2) key]
  show ?thesis
  proof (cases stop)
    case True
    with assms a ok show ?thesis by (simp add: admit_tx_def)
  next
    case False
    obtain ms' where j: "join_pending st e x key (pr_ev p) db1 s1 = (ms', db', s')"
      using assms(1) a False by (auto simp: admit_tx_def split: prod.splits)
    have "wf_state key s'" using join_pending_ok [OF j] ok assms(2) by (auto simp: wf_state_def)
    with join_pending_ok [OF j] ok show ?thesis using tx_ok_then by blast
  qed
qed

lemma log_tx_ok:
  assumes "log_tx st e x key watched p db s = (msgs, db', s')" "wf_state key s"
  shows "tx_ok key s db s' db'"
proof (cases "as_Admitted s")
  case True
  with assms show ?thesis by (auto simp: log_tx_def intro: tx_ok_same)
next
  case False
  let ?ev = "pr_ev p" and ?twin = "if watched then informerTwin (pr_ev p) (objectTwins (pr_ev p) db) else None"
  have wf: "wf_state key s'" using assms False
    by (auto simp: log_tx_def Let_def wf_state_def split: option.splits prod.splits bool.splits)
  show ?thesis
  proof (cases ?twin)
    case None
    with assms(1) False obtain ms where "persist st x AuditOriginAPILog key p db = (ms, db')" "as_Admitted s'"
      by (auto simp: log_tx_def Let_def split: prod.splits)
    then show ?thesis using False wf tx_ok_persist only_alerts_refl by blast
  next
    case (Some m)
    let ?en = "(enrichment (tm_uid m) ?ev True)\<lparr>en_Attribution := attribution m\<rparr>"
    obtain ok ms db1 where en: "enrich st e x (admission_key (tm_uid m)) ?en db = ((ok, ms), db1)" by (metis prod.collapse)
    show ?thesis
    proof (cases ok)
      case True
      with assms(1) False Some en have "db' = note_merged key db1" "as_Admitted s'" by (auto simp: log_tx_def Let_def)
      then show ?thesis using tx_ok_merged [OF enrich_once [OF en] False _ wf] by simp
    next
      case no: False
      with assms(1) False Some en obtain ms' where "persist st x AuditOriginAPILog key p db1 = (ms', db')" "as_Admitted s'"
        by (auto simp: log_tx_def Let_def split: prod.splits)
      then show ?thesis using False wf tx_ok_persist enrich_once [OF en] by blast
    qed
  qed
qed

lemma enrich_tx_ok:
  assumes "enrich_tx st e x (admission_key uid) uid ev db s = (msgs, db', s')" "wf_state (admission_key uid) s"
  shows "tx_ok (admission_key uid) s db s' db'"
proof (cases "as_Enriched s \<or> (case as_Pending s of None \<Rightarrow> False | Some q \<Rightarrow> en_Materialized q)")
  case True
  with assms show ?thesis by (auto simp: enrich_tx_def intro: tx_ok_same)
next
  case False
  let ?en = "enrichment uid ev (ev_ImpersonatedUser ev \<noteq> [])"
  have uid: "en_EventUID ?en = uid" by (simp add: enrichment_def)
  obtain adm enr where ex: "ExistingAuditEvent x uid (ev_Timestamp ev) db = (adm, enr)" by fastforce
  obtain ok ms db1 where en: "enrich st e x (admission_key uid) ?en db = ((ok, ms), db1)" by (metis prod.collapse)
  have wf: "wf_state (admission_key uid) s'"
    using assms False ex en uid by (auto simp: enrich_tx_def Let_def wf_state_def split: if_splits)
  have acc: "adm \<Longrightarrow> accounted db (admission_key uid)" using existing_accounted ex by blast
  consider "as_Admitted s" | "\<not> as_Admitted s" "adm" | "\<not> as_Admitted s" "\<not> adm" by blast
  then show ?thesis
  proof cases
    case 1
    then have "db' = db1" "as_Admitted s'" using assms(1) False ex en by (auto simp: enrich_tx_def Let_def)
    then show ?thesis using 1 wf enrich_once [OF en] tx_ok_same by blast
  next
    case 2
    then have "db' = db \<or> db' = db1" using assms(1) False ex en by (auto simp: enrich_tx_def Let_def split: if_splits)
    then show ?thesis using 2 acc wf enrich_once [OF en] only_alerts_refl tx_ok_exists by blast
  next
    case 3
    then have "enr = False" using ex by (auto simp: ExistingAuditEvent_def Let_def filter_empty_conv list_ex_iff)
    then have "db' = db" "\<not> as_Admitted s'" using 3 assms(1) False ex by (auto simp: enrich_tx_def Let_def)
    then show ?thesis using 3 wf tx_ok_same by (simp add: tx_ok_same)
  qed
qed

lemma materialize_tx_ok:
  assumes "materialize_tx st e x key db s = (r, db', s')" "wf_state key s"
  shows "tx_ok key s db s' db'"
proof -
  consider "as_Pending s = None \<or> as_Admitted s \<or> (\<exists>q. as_Pending s = Some q \<and> en_Event q = None)"
    | q ev where "as_Pending s = Some q" "en_Event q = Some ev" "\<not> as_Admitted s"
    by (cases "as_Pending s") auto
  then show ?thesis
  proof cases
    case 1
    with assms have "db' = db" "s' = s" by (auto simp: materialize_tx_def split: option.splits)
    then show ?thesis using assms(2) by (simp add: tx_ok_same)
  next
    case (2 q ev)
    obtain adm enr where ex: "ExistingAuditEvent x (en_EventUID q) (ev_Timestamp ev) db = (adm, enr)" by fastforce
    have key: "key = admission_key (en_EventUID q)" using 2 assms(2) by (simp add: wf_state_def)
    obtain ok ms db1 where en: "enrich st e x key (q\<lparr>en_Event := None\<rparr>) db = ((ok, ms), db1)" by (metis prod.collapse)
    have wf: "wf_state key s'"
      using assms 2 ex en key by (auto simp: materialize_tx_def Let_def wf_state_def split: if_splits prod.splits)
    show ?thesis
    proof (cases adm)
      case True
      then have "accounted db key" using existing_accounted ex key by blast
      moreover have "db' = db \<or> db' = db1"
        using True assms(1) 2 ex en by (auto simp: materialize_tx_def Let_def split: if_splits)
      ultimately show ?thesis using 2 wf enrich_once [OF en] only_alerts_refl tx_ok_exists by blast
    next
      case False
      with assms 2 ex obtain p ms where "persist st x AuditOriginAPILog key p db = (ms, db')" "as_Admitted s'"
        by (auto simp: materialize_tx_def Let_def split: prod.splits)
      then show ?thesis using 2 wf tx_ok_persist only_alerts_refl by blast
    qed
  qed
qed

lemma drop_tx_ok: "drop_tx db s = (r, db', s') \<Longrightarrow> wf_state key s \<Longrightarrow> tx_ok key s db s' db'"
  by (auto simp: drop_tx_def wf_state_def intro!: tx_ok_same split: option.splits if_splits)

interpretation admit_transaction: audit_transaction "admission_key (ev_ID (pr_ev p))" "admit_tx st e x (admission_key (ev_ID (pr_ev p))) p" for st e x p
  by unfold_locales (use admit_tx_ok [OF _ _ refl] in \<open>fastforce simp: tx_ok_def\<close>)+

interpretation log_transaction: audit_transaction key "log_tx st e x key w p" for st e x key w p
  by unfold_locales (use log_tx_ok in \<open>fastforce simp: tx_ok_def\<close>)+

interpretation enrich_transaction: audit_transaction "admission_key uid" "enrich_tx st e x (admission_key uid) uid ev" for st e x uid ev
  by unfold_locales (use enrich_tx_ok in \<open>fastforce simp: tx_ok_def\<close>)+

interpretation materialize_transaction: audit_transaction key "materialize_tx st e x key" for st e x key
  by unfold_locales (use materialize_tx_ok in \<open>fastforce simp: tx_ok_def\<close>)+

interpretation drop_transaction: audit_transaction key drop_tx for key
  by unfold_locales (use drop_tx_ok in \<open>fastforce simp: tx_ok_def\<close>)+

subsection \<open>Runs\<close>

text \<open>
  The database of a cluster under the engine: workers interleave the transactions of admission events,
  log records and pending records in any order, each with its own engine state (rules are reloaded at any
  time), clocks and outcome; operators manage silences and the hourly totals are rebuilt. Not part of a run
  is the retention sweep, which forgets the progress of events older than the retention.
\<close>

inductive audit_step :: "site \<Rightarrow> audit_env \<Rightarrow> audit_db \<Rightarrow> audit_db \<Rightarrow> bool" for st x db where
  admit: "key = admission_key (ev_ID (pr_ev p)) \<Longrightarrow> audit_step st x db (snd (WithAuditEvent x key (admit_tx st e x key p) db))"
| logged: "audit_step st x db (snd (WithAuditEvent x key (log_tx st e x key w p) db))"
| enriched: "key = admission_key uid \<Longrightarrow> audit_step st x db (snd (WithAuditEvent x key (enrich_tx st e x key uid ev) db))"
| materialized: "audit_step st x db (snd (WithAuditEvent x key (materialize_tx st e x key) db))"
| dropped: "audit_step st x db (snd (WithAuditEvent x key drop_tx db))"
| silence: "audit_step st x db (snd (CreateAuditSilence x serial s d db))"
| unsilence: "audit_step st x db (snd (EndAuditSilence x i db))"
| forget_silence: "audit_step st x db (snd (DeleteAuditSilence x i db))"
| rollup: "db_rollups_ready db \<Longrightarrow> h mod hour = 0 \<Longrightarrow> h + hour + rollupSettle \<le> x_dbnow x \<Longrightarrow> audit_step st x db (rebuildRollupHour h db)"

inductive audit_run :: "site \<Rightarrow> audit_db \<Rightarrow> bool" for st where
  start: "audit_run st (empty_db\<lparr>db_silences_ready := a, db_rollups_ready := b\<rparr>)"
| step: "audit_run st db \<Longrightarrow> audit_step st x db db' \<Longrightarrow> audit_run st db'"

lemmas run_admit = audit_run.step [OF _ audit_step.admit]
  and run_logged = audit_run.step [OF _ audit_step.logged]
  and run_enriched = audit_run.step [OF _ audit_step.enriched]
  and run_materialized = audit_run.step [OF _ audit_step.materialized]
  and run_dropped = audit_run.step [OF _ audit_step.dropped]

lemma same_reports_once: "same_reports db db' \<Longrightarrow> effects_once db \<Longrightarrow> effects_once db'"
proof -
  assume s: "same_reports db db'" and o: "effects_once db"
  have "state_of db' = state_of db" using s state_of_cong [of db' db] by (auto simp: same_reports_def)
  moreover have "accounted db k \<Longrightarrow> accounted db' k" for k using s unfolding accounted_def same_reports_def by auto
  moreover have "all_keys db' = all_keys db" "alerts_once db'" using s o unfolding same_reports_def effects_once_def alerts_once_def by auto
  ultimately show ?thesis using o unfolding effects_once_def by simp
qed

lemma same_unsilence: "same_reports db (unsilenceEvents x i db)"
proof -
  have "same_reports db (update_rows (unsilenced i db) (\<lambda>r. r\<lparr>ae_silenced := False\<rparr>) db)" by (rule same_update_rows) simp_all
  then show ?thesis using same_reports_trans [OF _ same_invalidate] by (simp add: unsilenceEvents_def update_rows_def)
qed

lemma same_silence_tables: "same_reports db (db\<lparr>db_silences := ss, db_silenced := es\<rparr>)" "same_reports db (db\<lparr>db_silences := ss\<rparr>)"
  by (simp_all add: same_reports_def all_keys_def uids_def)

lemma same_silence_ops:
  "same_reports db (snd (CreateAuditSilence x serial s d db))" "same_reports db (snd (EndAuditSilence x i db))"
  "same_reports db (snd (DeleteAuditSilence x i db))"
proof -
  show "same_reports db (snd (CreateAuditSilence x serial s d db))" "same_reports db (snd (EndAuditSilence x i db))"
    using same_silence_tables by (auto simp: CreateAuditSilence_def EndAuditSilence_def Let_def split: sum.splits)
  have "same_reports d (delete_silence i d)" for d using same_silence_tables by (simp add: delete_silence_def)
  moreover from this have "same_reports db (delete_silence i (unsilenceEvents x i db))"
    using same_reports_trans [OF same_unsilence] by blast
  ultimately show "same_reports db (snd (DeleteAuditSilence x i db))" by (simp add: DeleteAuditSilence_def)
qed

lemma same_rebuild: "same_reports db (rebuildRollupHour h db)"
  by (simp add: same_reports_def all_keys_def uids_def rebuildRollupHour_def)

lemma audit_step_once: "audit_step st x db db' \<Longrightarrow> effects_once db \<Longrightarrow> effects_once db'"
proof (induction rule: audit_step.induct)
  case (admit key p e)
  then show ?case using admit_transaction.transaction_once by blast
next
  case (logged key e w p)
  then show ?case using log_transaction.transaction_once by blast
next
  case (enriched key uid e ev)
  then show ?case using enrich_transaction.transaction_once by blast
next
  case (materialized key e)
  then show ?case using materialize_transaction.transaction_once by blast
next
  case (dropped key)
  then show ?case using drop_transaction.transaction_once by blast
qed (use same_reports_once same_silence_ops same_rebuild in blast)+

lemma audit_run_once: "audit_run st db \<Longrightarrow> effects_once db"
proof (induction rule: audit_run.induct)
  case (start a b)
  then show ?case by (simp add: effects_once_def all_keys_def empty_db_def state_of_def empty_state_def wf_state_def alerts_once_def)
qed (rule audit_step_once)

text \<open>The entry points of the engine are runs.\<close>

lemma ingest_loop_run:
  assumes "audit_run st db" "\<And>kp. kp \<in> set items \<Longrightarrow> fst kp = admission_key (ev_ID (pr_ev (snd kp)))"
  shows "audit_run st (snd (snd (ingest_loop st e progress items xs db)))"
  using assms
proof (induction items arbitrary: xs db)
  case (Cons kp items)
  show ?case
  proof (cases xs)
    case Nil
    then show ?thesis using Cons by (auto simp: Let_def)
  next
    case (Cons x xs')
    let ?r = "WithAuditEvent x (fst kp) (admit_tx st e x (fst kp) (snd kp)) db"
    have next_run: "audit_run st (snd ?r)" using Cons.prems by (intro run_admit) auto
    have "audit_run st (snd (snd (ingest_loop st e progress items xs' (snd ?r))))" "audit_run st (snd (snd (ingest_loop st e progress items xs db)))"
      using Cons.IH [OF next_run] Cons.IH [OF Cons.prems(1)] Cons.prems(2) by auto
    with next_run Cons show ?thesis by (auto simp: Let_def split: prod.splits sum.splits)
  qed
qed simp

lemma record_step_run:
  assumes "audit_run st db" "accept_record st' e' x' proxies rec = Some it"
  shows "audit_run st (snd (WithAuditEvent x (li_key it) (record_tx st e x it) db))"
proof (cases "li_prepared it")
  case None
  then have "li_key it = admission_key (li_uid it)" using assms(2) by (auto simp: accept_record_def Let_def split: if_splits)
  then show ?thesis using None assms(1) run_enriched by (simp add: record_tx_def)
next
  case (Some p)
  then show ?thesis using assms(1) run_logged by (simp add: record_tx_def)
qed

lemma log_loop_run:
  assumes "audit_run st db" "\<And>it. it \<in> set items \<Longrightarrow> \<exists>st' e' x' px rec. accept_record st' e' x' px rec = Some it"
  shows "audit_run st (snd (snd (log_loop st e progress items xs db)))"
  using assms
proof (induction items arbitrary: xs db)
  case (Cons it items)
  show ?case
  proof (cases xs)
    case Nil
    then show ?thesis using Cons by auto
  next
    case (Cons x xs')
    let ?r = "WithAuditEvent x (li_key it) (record_tx st e x it) db"
    have next_run: "audit_run st (snd ?r)" using Cons.prems record_step_run by (metis list.set_intros(1))
    have "audit_run st (snd (snd (log_loop st e progress items xs' (snd ?r))))" "audit_run st (snd (snd (log_loop st e progress items xs db)))"
      using Cons.IH [OF next_run] Cons.IH [OF Cons.prems(1)] Cons.prems(2) by auto
    with next_run Cons show ?thesis by (auto split: prod.splits sum.splits)
  qed
qed simp

lemma materialize_loop_run:
  assumes "audit_run st db"
  shows "audit_run st (snd (snd (snd (materialize_loop st e ks xs n db))))"
  using assms
proof (induction st e ks xs n db rule: materialize_loop.induct)
  case (3 st e key ks x xs n db)
  let ?r = "WithAuditEvent (fst x) key (materialize_tx st e (fst x) key) db"
  have run: "audit_run st (snd ?r)" using 3(3) by (rule run_materialized)
  have drop: "audit_run st (snd (dropPendingEvent (snd x) key (snd ?r)))"
    using run_dropped [OF run, of "snd x" key] by (auto simp: dropPendingEvent_def split: prod.splits sum.splits)
  show ?case
  proof (cases ?r)
    case (Pair res db1)
    show ?thesis
    proof (cases res)
      case (Inl d)
      show ?thesis
      proof (cases "d \<and> fst (dropPendingEvent (snd x) key db1)")
        case True
        then obtain db2 where "dropPendingEvent (snd x) key db1 = (True, db2)" by (cases "dropPendingEvent (snd x) key db1") auto
        with True Pair Inl drop 3(1) [OF Pair [symmetric] Inl] show ?thesis by auto
      next
        case False
        with Pair Inl run drop show ?thesis by (cases "dropPendingEvent (snd x) key db1") auto
      qed
    next
      case (Inr v)
      obtain ok ms where v: "v = (ok, ms)" by (cases v)
      have "audit_run st (snd (snd (snd (materialize_loop st e ks xs (if ok then n + 1 else n) db1))))"
        using 3(2) [OF Pair [symmetric] Inr v [symmetric]] run Pair by simp
      then show ?thesis using Pair Inr v by (auto split: prod.splits)
    qed
  qed
qed simp_all

lemma admit_tx_admits: "admit_tx st e x key p db s = (r, db', s') \<Longrightarrow> as_Admitted s'"
proof -
  assume a: "admit_tx st e x key p db s = (r, db', s')"
  have ev: "admit_event st x key p db s = ((b, ms), db1, s1) \<Longrightarrow> as_Admitted s1" for b ms db1 s1
    by (auto simp: admit_event_def Let_def split: if_splits option.splits prod.splits)
  show ?thesis using a ev
    by (auto simp: admit_tx_def dest: join_pending_ok split: prod.splits bool.splits)
qed

lemma admit_commits:
  assumes "effects_once db" "key = admission_key (ev_ID (pr_ev p))" "WithAuditEvent x key (admit_tx st e x key p) db = (Inr r, db')"
  shows "as_Admitted (state_of db' key)"
proof -
  from admit_transaction.committed_state [OF assms(1) assms(3) [unfolded assms(2)]]
  obtain db2 s where "admit_tx st e x key p (open_state x key db) (state_of db key) = (r, db2, s)" "state_of db' key = s"
    unfolding assms(2) by metis
  then show ?thesis using admit_tx_admits by metis
qed

lemma ingest_loop_admits:
  assumes "effects_once db" "\<And>kp. kp \<in> set items \<Longrightarrow> fst kp = admission_key (ev_ID (pr_ev (snd kp)))"
    and "ingest_loop st e progress items xs db = (True, msgs, db')" "\<And>x. x \<in> set xs \<Longrightarrow> x_outcome x \<noteq> TxFailed True"
    and "\<And>k. ap_Admitted (progress k) \<Longrightarrow> as_Admitted (state_of db k)"
  shows "(\<forall>k. as_Admitted (state_of db k) \<longrightarrow> as_Admitted (state_of db' k)) \<and> (\<forall>kp\<in>set items. as_Admitted (state_of db' (fst kp)))"
  using assms
proof (induction items arbitrary: xs db msgs)
  case (Cons kp items)
  let ?d = "progress (fst kp)"
  show ?case
  proof (cases "ap_Admitted ?d \<and> (ap_Enriched ?d \<or> \<not> ap_Pending ?d)")
    case True
    with Cons.prems have "ingest_loop st e progress items xs db = (True, msgs, db')" by (simp add: Let_def)
    from Cons.IH [OF Cons.prems(1) _ this Cons.prems(4,5)] Cons.prems(2,5) True show ?thesis by auto
  next
    case False
    with Cons.prems(3) obtain x xs' where xs: "xs = x # xs'" by (cases xs) (auto simp: Let_def)
    let ?r = "WithAuditEvent x (fst kp) (admit_tx st e x (fst kp) (snd kp)) db"
    have key: "fst kp = admission_key (ev_ID (pr_ev (snd kp)))" using Cons.prems(2) by simp
    obtain res db1 where r: "?r = (res, db1)" by fastforce
    have "\<not> (\<exists>d. res = Inl d)"
    proof
      assume "\<exists>d. res = Inl d"
      then obtain d where "res = Inl d" by blast
      moreover have "res \<noteq> Inl True" using r Cons.prems(4) [of x] xs
        by (rule_tac WithAuditEvent_cases [of x "fst kp" "admit_tx st e x (fst kp) (snd kp)" db]) auto
      ultimately show False using Cons.prems(3) False xs r by (cases d) (auto simp: Let_def)
    qed
    then obtain ms where res: "res = Inr ms" by (cases res) auto
    obtain ms' where l: "ingest_loop st e progress items xs' db1 = (True, ms', db')"
      using Cons.prems(3) False xs r res by (auto simp: Let_def split: prod.splits)
    have once1: "effects_once db1" using admit_transaction.transaction_once [OF Cons.prems(1)] r key by (metis snd_conv)
    have keep: "as_Admitted (state_of db k) \<Longrightarrow> as_Admitted (state_of db1 k)" for k
      using admit_transaction.transaction_keeps [OF Cons.prems(1)] r key by (metis snd_conv)
    have adm: "as_Admitted (state_of db1 (fst kp))" using admit_commits [OF Cons.prems(1) key] r res by metis
    have "(\<forall>k. as_Admitted (state_of db1 k) \<longrightarrow> as_Admitted (state_of db' k)) \<and> (\<forall>kp\<in>set items. as_Admitted (state_of db' (fst kp)))"
      by (rule Cons.IH [OF once1 _ l]) (use Cons.prems(2,4,5) xs keep in auto)
    with keep adm show ?thesis by auto
  qed
qed simp

lemma accept_event_key: "accept_event st e x px raw = Some kp \<Longrightarrow> fst kp = admission_key (ev_ID (pr_ev (snd kp)))"
  by (auto simp: accept_event_def Let_def split: option.splits if_splits)

lemma set_map_filter: "set (List.map_filter f xs) = {y. \<exists>x\<in>set xs. f x = Some y}"
  by (induction xs) (auto simp: map_filter_simps split: option.splits)

text \<open>C2. Exactly once. Whatever the interleaving of transactions, redeliveries, failed transactions and
  commits whose answer was lost: no event key is accounted for twice, whether as a row of its own, in the
  row of the other report of the same change, or as too old; what is accounted for is admitted, and every
  key the engine considers admitted is accounted for by the database; and for each event and rule there
  is at most one alert.\<close>

theorem effects_happen_once:
  assumes "audit_run st db"
  shows "(\<forall>k. count (all_keys db) k \<le> 1) \<and> distinct (map (\<lambda>a. (ia_key a, ia_RuleID a)) (db_alerts db))
     \<and> (\<forall>k. (k \<in># all_keys db \<longrightarrow> as_Admitted (state_of db k)) \<and> (as_Admitted (state_of db k) \<longrightarrow> accounted db k))"
  using audit_run_once [OF assms] by (simp add: effects_once_def alerts_once_def)

lemma ingest_events_admit:
  assumes "audit_run st db" "IngestEvents st x a raws xs e db = ((True, msgs), e', db')"
    and "\<And>y. y \<in> set xs \<Longrightarrow> x_outcome y \<noteq> TxFailed True"
    and "raw \<in> set raws" "rw_event raw = Some ev" "ev_ID ev \<noteq> []" "0 < ev_Timestamp ev" "x_now x - x_retention x \<le> ev_Timestamp ev"
  shows "as_Admitted (state_of db' (admission_key (clean (ev_ID ev))))"
proof -
  obtain px where loop: "ingest_loop st e' (AuditProgress_of db) (List.map_filter (accept_event st e' x px) raws) xs db = (True, msgs, db')"
    using assms(2) by (auto simp: IngestEvents_def split: prod.splits bool.splits option.splits if_splits)
  let ?items = "List.map_filter (accept_event st e' x px) raws"
  have keys: "kp \<in> set ?items \<Longrightarrow> fst kp = admission_key (ev_ID (pr_ev (snd kp)))" for kp
    by (auto simp: set_map_filter dest: accept_event_key)
  have "ap_Admitted (AuditProgress_of db k) \<Longrightarrow> as_Admitted (state_of db k)" for k by (simp add: AuditProgress_of_def Let_def)
  from ingest_loop_admits [OF audit_run_once [OF assms(1)] keys loop assms(3) this]
  have all: "\<forall>kp\<in>set ?items. as_Admitted (state_of db' (fst kp))" by blast
  have "clean (ev_ID ev) \<noteq> []" using assms(6) by (cases "ev_ID ev") (auto simp: clean_def replace_char_def replacement_char_def)
  then have "\<exists>kp. accept_event st e' x px raw = Some kp \<and> fst kp = admission_key (clean (ev_ID ev))"
    using assms(5,7,8) by (simp add: accept_event_def prepare_def sanitize_def Let_def)
  then show ?thesis using all assms(4) by (auto simp: set_map_filter)
qed

lemma ingest_events_run: "audit_run st db \<Longrightarrow> audit_run st (snd (snd (IngestEvents st x a raws xs e db)))"
proof -
  assume run: "audit_run st db"
  have "audit_run st (snd (snd (ingest_loop st e' (AuditProgress_of db) (List.map_filter (accept_event st e' x px) raws) xs db)))" for e' px
    by (rule ingest_loop_run [OF run]) (auto simp: set_map_filter dest: accept_event_key)
  then show ?thesis using run by (auto simp: IngestEvents_def split: prod.splits bool.splits option.splits) (metis snd_conv)
qed

text \<open>C3. Nothing is lost. When \<^verbatim>\<open>IngestEvents\<close> reports success and the database refused no event for
  its content, every readable event of the batch that is not older than the retention is admitted, and
  with it accounted for, whatever was stored before.\<close>

theorem ingested_events_recorded:
  assumes "audit_run st db" "IngestEvents st x a raws xs e db = ((True, msgs), e', db')"
    and "\<And>y. y \<in> set xs \<Longrightarrow> x_outcome y \<noteq> TxFailed True"
    and "raw \<in> set raws" "rw_event raw = Some ev" "ev_ID ev \<noteq> []" "0 < ev_Timestamp ev" "x_now x - x_retention x \<le> ev_Timestamp ev"
  shows "as_Admitted (state_of db' (admission_key (clean (ev_ID ev)))) \<and> accounted db' (admission_key (clean (ev_ID ev)))"
proof -
  have "effects_once db'" using audit_run_once [OF ingest_events_run [OF assms(1), of x a raws xs e]] assms(2) by simp
  then show ?thesis using ingest_events_admit [OF assms] by (simp add: effects_once_def)
qed

text \<open>A cluster, a clock and an event to try the statements on.\<close>

definition sample_site :: site where
  "sample_site = \<lparr>site_cluster = ''c1'', site_sha256 = (\<lambda>s. s), site_identity = id_AuditID, site_json = ev_ID\<rparr>"

definition sample_env :: audit_env where
  "sample_env = \<lparr>x_now = 1000 * hour, x_dbnow = 1000 * hour, x_retention = 24 * hour, x_attach_ok = True, x_outcome = TxCommitted\<rparr>"

definition sample_event :: Event where
  "sample_event = zero_Event\<lparr>ev_ID := ''a1'', ev_Timestamp := 1000 * hour - second, ev_User := ''alice'', ev_Kind := KindDelete,
     ev_Resource := ''secrets'', ev_Namespace := ''prod'', ev_Name := ''db''\<rparr>"

definition sample_answers :: ingest_answers where
  "sample_answers = \<lparr>an_stamp = Some ''1'', an_rules = Some [], an_settings = Some \<lparr>px_Proxies = [], px_HeadersSanitized = False\<rparr>, an_progress = True\<rparr>"

definition sample_raw :: raw_event where
  "sample_raw = \<lparr>rw_text = ''{}'', rw_event = Some sample_event\<rparr>"

lemma committed_answers: "x_outcome x = TxCommitted \<Longrightarrow> \<exists>r db'. WithAuditEvent x key fn db = (Inr r, db')"
  by (rule WithAuditEvent_cases [of x key fn db]) auto

lemma empty_run: "audit_run st empty_db"
proof -
  have "empty_db = empty_db\<lparr>db_silences_ready := True, db_rollups_ready := True\<rparr>" by (simp add: empty_db_def)
  then show ?thesis using audit_run.start by metis
qed

lemma ingest_loop_ok:
  "\<forall>x\<in>set xs. x_outcome x = TxCommitted \<Longrightarrow> length items \<le> length xs \<Longrightarrow> fst (ingest_loop st e progress items xs db)"
proof (induction items arbitrary: xs db)
  case (Cons kp items)
  then obtain x xs' where xs: "xs = x # xs'" by (cases xs) auto
  obtain r db' where "WithAuditEvent x (fst kp) (admit_tx st e x (fst kp) (snd kp)) db = (Inr r, db')"
    using committed_answers Cons.prems(1) xs by (metis list.set_intros(1))
  then show ?case using Cons.IH [of xs' db'] Cons.IH [of xs db] Cons.prems xs
    by (auto simp: Let_def split: prod.splits)
qed simp

lemma map_filter_length: "length (List.map_filter f xs) \<le> length xs"
  by (induction xs) (auto simp: map_filter_simps split: option.splits)

lemma sample_ingest:
  "\<exists>msgs e' db'. IngestEvents sample_site sample_env sample_answers [sample_raw, sample_raw] [sample_env, sample_env] (New 0) empty_db = ((True, msgs), e', db')"
proof -
  have "fst (ingest_loop sample_site e g (List.map_filter f [sample_raw, sample_raw]) [sample_env, sample_env] empty_db)" for e g f
    using map_filter_length [of f "[sample_raw, sample_raw]"] by (intro ingest_loop_ok) (auto simp: sample_env_def)
  then show ?thesis
    by (auto simp: IngestEvents_def ensureRules_def Reload_def New_def sample_answers_def trusted_def trustedProxyNetworks_def Let_def
        split: prod.splits) (metis fst_conv)+
qed

theorem ingested_events_recorded_witness:
  "case IngestEvents sample_site sample_env sample_answers [sample_raw, sample_raw] [sample_env, sample_env] (New 0) empty_db of
     ((ok, _), _, db) \<Rightarrow> ok \<and> as_Admitted (state_of db (admission_key ''a1'')) \<and> accounted db (admission_key ''a1'')"
proof -
  obtain msgs e' db' where i: "IngestEvents sample_site sample_env sample_answers [sample_raw, sample_raw] [sample_env, sample_env] (New 0) empty_db = ((True, msgs), e', db')"
    using sample_ingest by blast
  have "as_Admitted (state_of db' (admission_key (clean ''a1''))) \<and> accounted db' (admission_key (clean ''a1''))"
    using ingested_events_recorded [OF empty_run i, of sample_raw sample_event]
    by (simp add: sample_raw_def sample_event_def zero_Event_def sample_env_def)
  moreover have "clean ''a1'' = ''a1''" by (simp add: clean_def replace_char_def)
  ultimately show ?thesis using i by simp
qed

definition sample_prepared :: prepared where
  "sample_prepared = \<lparr>pr_ev = sample_event, pr_hits = [], pr_top = None\<rparr>"

definition sample_step :: "audit_db \<Rightarrow> audit_db" where
  "sample_step db = snd (WithAuditEvent sample_env (admission_key ''a1'') (admit_tx sample_site (New 0) sample_env (admission_key ''a1'') sample_prepared) db)"

theorem effects_happen_once_witness:
  "count (all_keys (sample_step (sample_step empty_db))) (admission_key ''a1'') \<le> 1 \<and> accounted (sample_step (sample_step empty_db)) (admission_key ''a1'')"
proof -
  have k: "admission_key ''a1'' = admission_key (ev_ID (pr_ev sample_prepared))" by (simp add: sample_prepared_def sample_event_def zero_Event_def)
  have run: "audit_run sample_site db \<Longrightarrow> audit_run sample_site (sample_step db)" for db
    unfolding sample_step_def by (rule run_admit [OF _ k])
  have once: "effects_once (sample_step empty_db)" using audit_run_once [OF run [OF empty_run]] .
  have c: "x_outcome sample_env = TxCommitted" by (simp add: sample_env_def)
  have "as_Admitted (state_of (sample_step (sample_step empty_db)) (admission_key ''a1''))"
    unfolding sample_step_def [of "sample_step empty_db"]
    using committed_answers [OF c] admit_commits [OF once k] by (metis snd_conv)
  with effects_happen_once [OF run [OF run [OF empty_run]]] show ?thesis by blast
qed

end
