(* ===== verification/Audit_Join.thy ===== *)
theory Audit_Join
  imports Audit_Once
begin

section \<open>Joining admission events and log records\<close>

text \<open>
  An admission event and the record of the same request in the API server's log reach the engine over
  different paths and in either order. Shown: both orders end in the same database and publish the same
  messages; a record whose event never comes is stored on its own after the grace period; the threshold
  of a rule raises an alert exactly when enough hits fall into its window.
\<close>

subsection \<open>The statements do not look at the progress table\<close>

named_theorems any_state

lemma any_state_invalidate [any_state]:
  "invalidateRollupHours x ts (db\<lparr>db_state := s\<rparr>) = (invalidateRollupHours x ts db)\<lparr>db_state := s\<rparr>"
  by (simp add: invalidateRollupHours_def dropRollupMarks_def Let_def)

lemma any_state_violation [any_state]:
  "WriteAuditViolation x w (db\<lparr>db_state := s\<rparr>) = (WriteAuditViolation x w db)\<lparr>db_state := s\<rparr>"
  by (simp add: WriteAuditViolation_def)

lemma any_state_violation_source [any_state]:
  "AttachAuditViolationSource x u i a d (db\<lparr>db_state := s\<rparr>) = (AttachAuditViolationSource x u i a d db)\<lparr>db_state := s\<rparr>"
  by (simp add: AttachAuditViolationSource_def)

lemma any_state_alert_actor [any_state]:
  "AttachAuditAlertActor x u t a d (db\<lparr>db_state := s\<rparr>) = (AttachAuditAlertActor x u t a d db)\<lparr>db_state := s\<rparr>"
  by (simp add: AttachAuditAlertActor_def)

lemma any_state_alerts [any_state]: "InsertAlerts x as (db\<lparr>db_state := s\<rparr>) = (InsertAlerts x as db)\<lparr>db_state := s\<rparr>"
  by (simp add: InsertAlerts_def)

lemma any_state_update_rows [any_state]: "update_rows P f (db\<lparr>db_state := s\<rparr>) = (update_rows P f db)\<lparr>db_state := s\<rparr>"
  by (simp add: update_rows_def)

lemma any_state_threshold [any_state]:
  "AuditThreshold x r (db\<lparr>db_state := s\<rparr>) = (case AuditThreshold x r db of (b, d) \<Rightarrow> (b, d\<lparr>db_state := s\<rparr>))"
  by (simp add: AuditThreshold_def Let_def)

lemma any_state_claim [any_state]:
  "ClaimAuditRule k r (db\<lparr>db_state := s\<rparr>) = (case ClaimAuditRule k r db of (b, d) \<Rightarrow> (b, d\<lparr>db_state := s\<rparr>))"
  by (simp add: ClaimAuditRule_def)

lemma any_state_active [any_state]: "activeAuditSilences x (db\<lparr>db_state := s\<rparr>) = activeAuditSilences x db"
  by (simp add: activeAuditSilences_def)

lemma any_state_store [any_state]:
  "storeSilencedEvent i r (db\<lparr>db_state := s\<rparr>) = (storeSilencedEvent i r db)\<lparr>db_state := s\<rparr>"
  "store_silenced q (db\<lparr>db_state := s\<rparr>) = (store_silenced q db)\<lparr>db_state := s\<rparr>"
  "set_silenced b j t (db\<lparr>db_state := s\<rparr>) = (set_silenced b j t db)\<lparr>db_state := s\<rparr>"
  "refresh_silenced row u (db\<lparr>db_state := s\<rparr>) = (refresh_silenced row u db)\<lparr>db_state := s\<rparr>"
  by (auto simp: storeSilencedEvent_def store_silenced_def set_silenced_def refresh_silenced_def split: prod.splits option.splits)

lemma any_state_store_fold [any_state]: "fold store_silenced rows (db\<lparr>db_state := s\<rparr>) = (fold store_silenced rows db)\<lparr>db_state := s\<rparr>"
  by (induction rows arbitrary: db) (simp_all add: any_state)

lemma any_state_silence [any_state]:
  "silenceStoredEvent x row u (db\<lparr>db_state := s\<rparr>) = (case silenceStoredEvent x row u db of (r, d) \<Rightarrow> (r, d\<lparr>db_state := s\<rparr>))"
proof -
  have "db_rollups_ready (storeSilencedEvent i r (db\<lparr>db_state := s\<rparr>)) = db_rollups_ready (storeSilencedEvent i r db)" for i r
    by (simp add: storeSilencedEvent_def)
  then show ?thesis by (auto simp: silenceStoredEvent_def any_state Let_def split: option.split)
qed

lemma any_state_mark [any_state]: "MarkAuditEventRule x row u r sv (db\<lparr>db_state := s\<rparr>) = (MarkAuditEventRule x row u r sv db)\<lparr>db_state := s\<rparr>"
  by (simp add: MarkAuditEventRule_def any_state Let_def)

lemma any_state_mark_stronger [any_state]:
  "mark_stronger x hits row u (db\<lparr>db_state := s\<rparr>) = (case mark_stronger x hits row u db of (m, d) \<Rightarrow> (m, d\<lparr>db_state := s\<rparr>))"
  by (auto simp: mark_stronger_def any_state split: option.split)

lemma any_state_enrich_event [any_state]:
  "EnrichAuditEvent x en (db\<lparr>db_state := s\<rparr>) = (case EnrichAuditEvent x en db of (r, d) \<Rightarrow> (r, d\<lparr>db_state := s\<rparr>))"
  by (auto simp: EnrichAuditEvent_def any_state Let_def split: option.split prod.split)

lemma any_state_insert [any_state]:
  "InsertAuditEvents x k its (db\<lparr>db_state := s\<rparr>) = (case InsertAuditEvents x k its db of (b, d) \<Rightarrow> (b, d\<lparr>db_state := s\<rparr>))"
proof -
  have r: "db\<lparr>db_state := s, db_events := a, db_next_id := b\<rparr> = (db\<lparr>db_events := a, db_next_id := b\<rparr>)\<lparr>db_state := s\<rparr>" for a b by simp
  show ?thesis by (simp add: InsertAuditEvents_def any_state Let_def r del: audit_db.update_convs)
qed

lemma any_state_act_loop [any_state]:
  "act_loop st x k ev rs (db\<lparr>db_state := s\<rparr>) = (case act_loop st x k ev rs db of (a, m, d) \<Rightarrow> (a, m, d\<lparr>db_state := s\<rparr>))"
proof (induction rs arbitrary: db)
  case (Cons r rs)
  let ?w = "\<lambda>d. if r_Enabled r then WriteAuditViolation x (violation_write st r ev) d else d"
  have w: "?w (d\<lparr>db_state := s\<rparr>) = (?w d)\<lparr>db_state := s\<rparr>" for d by (simp add: any_state)
  obtain b db1 where c: "ClaimAuditRule k (r_ID r) db = (b, db1)" by fastforce
  obtain f db3 where t: "(if r_Alert r then AuditThreshold x r (?w db1) else (False, ?w db1)) = (f, db3)" by fastforce
  have t': "(if r_Alert r then AuditThreshold x r (?w (db1\<lparr>db_state := s\<rparr>)) else (False, ?w (db1\<lparr>db_state := s\<rparr>))) = (f, db3\<lparr>db_state := s\<rparr>)"
    unfolding w using t by (cases "r_Alert r") (auto simp: any_state split: prod.splits)
  show ?case
  proof (cases b)
    case True
    then show ?thesis using Cons [of db3] c t t' by (simp add: any_state Let_def split: prod.split)
  next
    case False
    then show ?thesis using Cons [of db1] c by (simp add: any_state)
  qed
qed simp

lemma any_state_act [any_state]:
  "act_and_alert st x k ev hits (db\<lparr>db_state := s\<rparr>) = (case act_and_alert st x k ev hits db of (m, d) \<Rightarrow> (m, d\<lparr>db_state := s\<rparr>))"
  by (simp add: act_and_alert_def act_def any_state split: prod.split)

lemma any_state_persist [any_state]:
  "persist st x o' k p (db\<lparr>db_state := s\<rparr>) = (case persist st x o' k p db of (m, d) \<Rightarrow> (m, d\<lparr>db_state := s\<rparr>))"
  by (simp add: persist_def any_state Let_def split: prod.split)

lemma any_state_enrich [any_state]:
  "enrich st e x k en (db\<lparr>db_state := s\<rparr>) = (case enrich st e x k en db of (r, d) \<Rightarrow> (r, d\<lparr>db_state := s\<rparr>))"
proof (cases "EnrichAuditEvent x en db")
  case (Pair row db1)
  show ?thesis
  proof (cases row)
    case None
    with Pair show ?thesis by (simp add: enrich_def any_state)
  next
    case (Some r)
    let ?a = "\<lambda>d. if ar_RuleID r \<noteq> [] then AttachAuditViolationSource x (en_EventUID en) (SourceIP (ar_Data r)) (en_User en) (ar_Data r) d else d"
    have a: "?a (db1\<lparr>db_state := s\<rparr>) = (?a db1)\<lparr>db_state := s\<rparr>" by (simp add: any_state)
    show ?thesis using Pair Some unfolding enrich_def
      by (simp only: any_state prod.case option.case Let_def a) (simp split: prod.split add: any_state)
  qed
qed

subsection \<open>Either order of arrival\<close>

lemma act_keeps_events: "act_and_alert st x k ev hits db = (m, db') \<Longrightarrow> db_events db' = db_events db"
proof -
  have l: "act_loop st x k ev rs d = (a, m', d') \<Longrightarrow> db_events d' = db_events d" for rs d a m' d'
  proof (induction rs arbitrary: d a m')
    case (Cons r rs)
    let ?w = "\<lambda>d. if r_Enabled r then WriteAuditViolation x (violation_write st r ev) d else d"
    obtain b d1 where c: "ClaimAuditRule k (r_ID r) d = (b, d1)" by fastforce
    obtain f d3 where t: "(if r_Alert r then AuditThreshold x r (?w d1) else (False, ?w d1)) = (f, d3)" by fastforce
    have "db_events d1 = db_events d" using claim_cases [OF c] by auto
    moreover have "db_events d3 = db_events d1" using t
      by (auto simp: AuditThreshold_def WriteAuditViolation_def Let_def split: if_splits)
    ultimately show ?case using Cons c t by (cases b) (auto simp: Let_def split: prod.splits)
  qed simp
  assume "act_and_alert st x k ev hits db = (m, db')"
  then show ?thesis using l by (auto simp: act_and_alert_def act_def InsertAlerts_def split: prod.splits)
qed

text \<open>The row that an event in the window of the partitions becomes.\<close>

lemma persist_row:
  assumes "persist st x origin key p db = (m, db')" "partitionedTS (x_now x) (ev_Timestamp (pr_ev p)) (x_retention x) = Some t"
    and "ev_Timestamp (pr_ev p) \<noteq> 0"
  shows "\<exists>r. db_events db' = db_events db @ [r] \<and> ae_event_uid r = nullable (ev_ID (pr_ev p)) \<and> ae_ts r = pg_time t \<and> ae_origin r = origin"
proof -
  let ?it = "\<lparr>it_Event = pr_ev p, it_Origin = origin, it_RuleID = (case pr_top p of None \<Rightarrow> [] | Some r \<Rightarrow> r_ID r),
                it_Sev = (case pr_top p of None \<Rightarrow> [] | Some r \<Rightarrow> to_upper (r_Severity r))\<rparr>"
  obtain b db1 where i: "InsertAuditEvents x key [?it] db = (b, db1)" by fastforce
  obtain ms where a: "act_and_alert st x key (pr_ev p) (pr_hits p) db1 = (ms, db')"
    using assms(1) i by (auto simp: persist_def Let_def split: prod.splits)
  obtain sil where s: "stored_items x (activeAuditSilences x db) [?it] = [(?it, pg_time t, sil)]"
    using assms(2,3) by (simp add: stored_items_def map_filter_simps Let_def)
  have ev: "db_events (fold store_silenced rows d) = db_events d" for rows d
    by (induction rows arbitrary: d) (auto simp: store_silenced_def storeSilencedEvent_def split: prod.splits option.splits)
  have inv: "db_events (invalidateRollupHours x ts d) = db_events d" for ts d
    by (simp add: invalidateRollupHours_def dropRollupMarks_def Let_def)
  have "db_events db1 = db_events db @ [event_row (db_rollups_ready db) key (db_next_id db) (?it, pg_time t, sil)]"
    using i s by (auto simp: InsertAuditEvents_def ev inv Let_def store_silenced_def storeSilencedEvent_def split: option.splits)
  then show ?thesis using act_keeps_events [OF a] by (simp add: event_row_def Let_def)
qed

lemma enriched_row_published: "published en1 = published en2 \<Longrightarrow> enriched_row en1 = enriched_row en2"
proof -
  have "enriched_row en = enriched_row (published en)" for en
    by (rule ext) (simp add: enriched_row_def published_def enriched_event_def enrichment_ip_def Let_def)
  then show "published en1 = published en2 \<Longrightarrow> enriched_row en1 = enriched_row en2" by metis
qed

lemma published_fields: "published en1 = published en2 \<Longrightarrow> en_EventUID en1 = en_EventUID en2 \<and> en_User en1 = en_User en2"
proof -
  assume eq: "published en1 = published en2"
  show ?thesis using arg_cong [OF eq, of en_EventUID] arg_cong [OF eq, of en_User] by (simp add: published_def)
qed

lemma find_cong_set: "(\<And>r. r \<in> set rs \<Longrightarrow> P r = Q r) \<Longrightarrow> List.find P rs = List.find Q rs"
  by (induction rs) auto

lemma enrich_event_cong:
  assumes eq: "published en1 = published en2"
    and same: "\<And>r. r \<in> set (db_events db) \<Longrightarrow>
      waiting_row x (en_EventUID en1) (en_At en1) AuditOriginAdmission r = waiting_row x (en_EventUID en1) (en_At en2) AuditOriginAdmission r"
  shows "EnrichAuditEvent x en1 db = EnrichAuditEvent x en2 db"
proof -
  let ?P = "waiting_row x (en_EventUID en1) (en_At en1) AuditOriginAdmission" and ?Q = "waiting_row x (en_EventUID en1) (en_At en2) AuditOriginAdmission"
  have f: "List.find ?P (db_events db) = List.find ?Q (db_events db)" using same by (rule find_cong_set)
  have u: "update_rows ?P g db = update_rows ?Q g db" for g
    unfolding update_rows_def using same by (auto intro!: arg_cong [of _ _ "\<lambda>v. db\<lparr>db_events := v\<rparr>"])
  have "en_EventUID en2 = en_EventUID en1" using published_fields [OF eq] by simp
  then show ?thesis unfolding EnrichAuditEvent_def Let_def enriched_row_published [OF eq] by (simp only: f u)
qed

lemma enrich_cong:
  assumes "published en1 = published en2"
    and "\<And>r. r \<in> set (db_events db) \<Longrightarrow>
      waiting_row x (en_EventUID en1) (en_At en1) AuditOriginAdmission r = waiting_row x (en_EventUID en1) (en_At en2) AuditOriginAdmission r"
  shows "enrich st e x k en1 db = enrich st e x k en2 db"
proof -
  have a: "EnrichAuditEvent x en1 db = EnrichAuditEvent x en2 db" using assms by (rule enrich_event_cong)
  have b: "en_EventUID en1 = en_EventUID en2" "en_User en1 = en_User en2" using published_fields [OF assms(1)] by simp_all
  show ?thesis unfolding enrich_def a b assms(1) ..
qed

lemma enrich_finds:
  assumes "r \<in> set (db_events db)" "waiting_row x (en_EventUID en) (en_At en) AuditOriginAdmission r"
  shows "\<exists>m d. enrich st e x k en db = ((True, m), d)"
proof -
  let ?P = "waiting_row x (en_EventUID en) (en_At en) AuditOriginAdmission"
  obtain q where q: "List.find ?P (db_events db) = Some q"
    using assms find_None_iff [of ?P "db_events db"] by (cases "List.find ?P (db_events db)") auto
  obtain row d where "silenceStoredEvent x (returned_row (enriched_row en q)) (en_EventUID en)
      (invalidateRollupHours x [ar_Ts (returned_row (enriched_row en q))] (update_rows ?P (enriched_row en) db)) = (row, d)" by fastforce
  then have "EnrichAuditEvent x en db = (Some row, d)" using q by (simp add: EnrichAuditEvent_def Let_def)
  then show ?thesis by (simp add: enrich_def Let_def split: prod.split)
qed

lemma pg_time_mono: "s \<le> t \<Longrightarrow> pg_time s \<le> pg_time t"
proof -
  assume "s \<le> t"
  then have "s div 1000 \<le> t div 1000" by (simp add: zdiv_mono1)
  then have "1000 * (s div 1000) \<le> 1000 * (t div 1000)" by simp
  then show ?thesis by (simp add: pg_time_def minus_mod_eq_mult_div)
qed

lemma in_window_near: "t \<noteq> 0 \<Longrightarrow> \<bar>s - t\<bar> \<le> auditJoinSlack \<Longrightarrow> in_window (auditJoinWindow now t) (pg_time s)"
  by (auto simp: in_window_def auditJoinWindow_def Let_def intro: pg_time_mono)

text \<open>Two transactions of one key, one after the other: what they publish and what they leave.\<close>

definition in_sequence :: "audit_env \<Rightarrow> string \<Rightarrow> (audit_db \<Rightarrow> AuditState \<Rightarrow> hub_event list \<times> audit_db \<times> AuditState)
    \<Rightarrow> (audit_db \<Rightarrow> AuditState \<Rightarrow> hub_event list \<times> audit_db \<times> AuditState) \<Rightarrow> audit_db \<Rightarrow> (hub_event list \<times> audit_db) option" where
  "in_sequence x key f g db =
     (case WithAuditEvent x key f db of (Inl _, _) \<Rightarrow> None
      | (Inr m, db1) \<Rightarrow> (case WithAuditEvent x key g db1 of (Inl _, _) \<Rightarrow> None | (Inr m', db2) \<Rightarrow> Some (m @ m', db2)))"

definition fresh_state :: "audit_env \<Rightarrow> string \<Rightarrow> AuditState \<Rightarrow> audit_db \<Rightarrow> (string \<times> ingest_row) list" where
  "fresh_state x key s db = AList.update key \<lparr>ig_state = s, ig_created_at = x_dbnow x\<rparr> (db_state db)"

lemma with_fresh:
  assumes "map_of (db_state db) key = None" "x_outcome x = TxCommitted"
    and "f (db\<lparr>db_state := fresh_state x key empty_state db\<rparr>) empty_state = (m, d\<lparr>db_state := fresh_state x key empty_state db\<rparr>, s)"
  shows "WithAuditEvent x key f db = (Inr m, d\<lparr>db_state := fresh_state x key s db\<rparr>)"
proof -
  have "open_state x key db = db\<lparr>db_state := fresh_state x key empty_state db\<rparr>" using assms(1) by (simp add: open_state_def fresh_state_def)
  moreover have "state_of (db\<lparr>db_state := fresh_state x key empty_state db\<rparr>) key = empty_state" by (simp add: state_of_def fresh_state_def update_conv')
  ultimately show ?thesis using assms(2,3)
    by (auto simp: WithAuditEvent_def Let_def save_state_def fresh_state_def update_conv' update_Some_unfold)
qed

lemma update_fresh:
  assumes "map_of (db_state d) key = None"
  shows "map_of (fresh_state x key s d) key = Some \<lparr>ig_state = s, ig_created_at = x_dbnow x\<rparr>"
    and "AList.update key \<lparr>ig_state = s', ig_created_at = x_dbnow x\<rparr> (fresh_state x key s d) = fresh_state x key s' d"
proof -
  show "map_of (fresh_state x key s d) key = Some \<lparr>ig_state = s, ig_created_at = x_dbnow x\<rparr>" by (simp add: fresh_state_def update_conv')
  show "AList.update key \<lparr>ig_state = s', ig_created_at = x_dbnow x\<rparr> (fresh_state x key s d) = fresh_state x key s' d"
    unfolding fresh_state_def by (induction "db_state d") (auto simp: update_Some_unfold)
qed

lemma with_again:
  assumes "map_of (db_state d) key = None" "x_outcome x = TxCommitted"
    and "f (db\<lparr>db_state := fresh_state x key s d\<rparr>) s = (m, db'\<lparr>db_state := fresh_state x key s d\<rparr>, s')"
  shows "WithAuditEvent x key f (db\<lparr>db_state := fresh_state x key s d\<rparr>) = (Inr m, db'\<lparr>db_state := fresh_state x key s' d\<rparr>)"
proof -
  let ?db = "db\<lparr>db_state := fresh_state x key s d\<rparr>"
  have "open_state x key ?db = ?db" "state_of ?db key = s" using update_fresh [OF assms(1)] by (simp_all add: open_state_def state_of_def)
  with assms(2,3) update_fresh [OF assms(1)] show ?thesis by (auto simp: WithAuditEvent_def Let_def save_state_def)
qed

text \<open>C4. The order of arrival does not matter. For a request that is reported by an admission event and by
  a log record naming it, received at most an hour apart, handling the event first and handling the log
  record first both succeed, publish the same messages, and leave the same database: the same joined row,
  violations, alerts, silences, marks and progress.\<close>

theorem arrival_order_irrelevant:
  assumes new: "map_of (db_state db) key = None" "uid \<notin> uids db" and key: "key = admission_key uid"
    and ids: "uid = ev_ID (pr_ev p)" "uid \<noteq> []" and source: "ev_Source (pr_ev p) \<noteq> sourceInformer"
    and times: "ev_Timestamp (pr_ev p) \<noteq> 0" "ev_Timestamp l \<noteq> 0" "\<bar>ev_Timestamp (pr_ev p) - ev_Timestamp l\<bar> \<le> auditJoinSlack"
    and recent: "x_now x - x_retention x \<le> ev_Timestamp (pr_ev p)" "ev_Timestamp (pr_ev p) \<le> x_now x + hour"
    and ok: "x_outcome x = TxCommitted"
  shows "in_sequence x key (admit_tx st e x key p) (enrich_tx st e x key uid l) db = in_sequence x key (enrich_tx st e x key uid l) (admit_tx st e x key p) db
     \<and> in_sequence x key (admit_tx st e x key p) (enrich_tx st e x key uid l) db \<noteq> None"
proof -
  let ?ev = "pr_ev p" and ?en = "enrichment uid l (ev_ImpersonatedUser l \<noteq> [])"
  let ?fs = "\<lambda>s. fresh_state x key s db"
  let ?adm = "\<lparr>as_Admitted = True, as_Enriched = False, as_Pending = None\<rparr>"
    and ?wait = "\<lparr>as_Admitted = False, as_Enriched = False, as_Pending = Some (?en\<lparr>en_Event := Some l\<rparr>)\<rparr>"
    and ?both = "\<lparr>as_Admitted = True, as_Enriched = True, as_Pending = None\<rparr>"
  have old: "ae_event_uid q \<noteq> Some uid" if "q \<in> set (db_events db)" for q using new(2) that by (auto simp: uids_def image_iff)
  have none: "ExistingAuditEvent x uid t (db\<lparr>db_state := s\<rparr>) = (False, False)" for t s
  proof -
    have "filter (\<lambda>r. ae_event_uid r = Some uid \<and> in_window (auditJoinWindow (x_now x) t) (ae_ts r)) (db_events db) = []"
      using old by (simp add: filter_empty_conv)
    then show ?thesis by (simp add: ExistingAuditEvent_def Let_def)
  qed
  obtain m1 d1 where per: "persist st x AuditOriginAdmission key p db = (m1, d1)" by fastforce
  have part: "partitionedTS (x_now x) (ev_Timestamp ?ev) (x_retention x) = Some (ev_Timestamp ?ev)" using recent by (simp add: partitionedTS_def)
  from persist_row [OF per part times(1)] ids obtain r where r: "db_events d1 = db_events db @ [r]" "ae_event_uid r = Some uid"
    "ae_ts r = pg_time (ev_Timestamp ?ev)" "ae_origin r = AuditOriginAdmission" by (auto simp: nullable_def)
  have uid: "en_EventUID ?en = uid" "en_At ?en = ev_Timestamp l" by (simp_all add: enrichment_def)
  have wr: "waiting_row x uid (ev_Timestamp l) AuditOriginAdmission r" "waiting_row x uid (ev_Timestamp ?ev) AuditOriginAdmission r"
    using r times by (auto simp: waiting_row_def auditJoinSlack_def intro!: in_window_near)
  obtain m2 d2 where en: "enrich st e x key ?en d1 = ((True, m2), d2)"
    using enrich_finds [of r d1 x ?en st e key] r wr uid by auto
  let ?en' = "?en\<lparr>en_Event := Some l, en_At := ev_Timestamp ?ev\<rparr>"
  have "enrich st e x key ?en d1 = enrich st e x key ?en' d1"
    by (rule enrich_cong) (use r(1) wr uid old in \<open>auto simp: published_def waiting_row_def\<close>)
  then have en': "enrich st e x key ?en' d1 = ((True, m2), d2)" using en by simp
  have admit1: "admit_tx st e x key p (db\<lparr>db_state := ?fs empty_state\<rparr>) empty_state = (m1, d1\<lparr>db_state := ?fs empty_state\<rparr>, ?adm)"
    using none [of "ev_Timestamp ?ev"] source per ids
    by (simp add: admit_tx_def admit_event_def join_pending_def empty_state_def any_state Let_def)
  have enrich2: "enrich_tx st e x key uid l (d1\<lparr>db_state := ?fs ?adm\<rparr>) ?adm = (m2, d2\<lparr>db_state := ?fs ?adm\<rparr>, ?both)"
    using en by (simp add: enrich_tx_def any_state Let_def)
  have wait1: "enrich_tx st e x key uid l (db\<lparr>db_state := ?fs empty_state\<rparr>) empty_state = ([], db\<lparr>db_state := ?fs empty_state\<rparr>, ?wait)"
    using none [of "ev_Timestamp l"] by (simp add: enrich_tx_def empty_state_def Let_def)
  have admit2: "admit_tx st e x key p (db\<lparr>db_state := ?fs ?wait\<rparr>) ?wait = (m1 @ m2, d2\<lparr>db_state := ?fs ?wait\<rparr>, ?both)"
    using none [of "ev_Timestamp ?ev"] source per ids en'
    by (simp add: admit_tx_def admit_event_def join_pending_def any_state Let_def enrichment_def)
  have "in_sequence x key (admit_tx st e x key p) (enrich_tx st e x key uid l) db = Some (m1 @ m2, d2\<lparr>db_state := ?fs ?both\<rparr>)"
    using with_fresh [OF new(1) ok, where f = "admit_tx st e x key p", OF admit1]
      with_again [OF new(1) ok, where f = "enrich_tx st e x key uid l", OF enrich2] by (simp add: in_sequence_def)
  moreover have "in_sequence x key (enrich_tx st e x key uid l) (admit_tx st e x key p) db = Some (m1 @ m2, d2\<lparr>db_state := ?fs ?both\<rparr>)"
    using with_fresh [OF new(1) ok, where f = "enrich_tx st e x key uid l", OF wait1]
      with_again [OF new(1) ok, where f = "admit_tx st e x key p", OF admit2] by (simp add: in_sequence_def)
  ultimately show ?thesis by simp
qed

definition sample_logged_request :: Event where
  "sample_logged_request = sample_event\<lparr>ev_ID := [], ev_Timestamp := 1000 * hour - 3 * second, ev_UserAgent := ''kubectl'', ev_SourceIPs := [''10.1.2.3'']\<rparr>"

theorem arrival_order_irrelevant_witness:
  "in_sequence sample_env (admission_key ''a1'') (admit_tx sample_site (New 0) sample_env (admission_key ''a1'') sample_prepared)
     (enrich_tx sample_site (New 0) sample_env (admission_key ''a1'') ''a1'' sample_logged_request) empty_db
   = in_sequence sample_env (admission_key ''a1'') (enrich_tx sample_site (New 0) sample_env (admission_key ''a1'') ''a1'' sample_logged_request)
     (admit_tx sample_site (New 0) sample_env (admission_key ''a1'') sample_prepared) empty_db
   \<and> in_sequence sample_env (admission_key ''a1'') (admit_tx sample_site (New 0) sample_env (admission_key ''a1'') sample_prepared)
     (enrich_tx sample_site (New 0) sample_env (admission_key ''a1'') ''a1'' sample_logged_request) empty_db \<noteq> None"
  by (rule arrival_order_irrelevant)
    (simp_all add: empty_db_def uids_def sample_prepared_def sample_event_def sample_logged_request_def sample_env_def zero_Event_def
      sourceInformer_def auditJoinSlack_def)

subsection \<open>Records whose event never comes\<close>

lemma save_open_distinct:
  "distinct (map fst (db_state db)) \<Longrightarrow> distinct (map fst (db_state (open_state x k db)))"
  "distinct (map fst (db_state db)) \<Longrightarrow> distinct (map fst (db_state (save_state k s db)))"
  by (auto simp: open_state_def save_state_def distinct_update split: option.split)

context audit_transaction
begin

lemma transaction_distinct:
  assumes "effects_once db" "distinct (map fst (db_state db))"
  shows "distinct (map fst (db_state (snd (WithAuditEvent x key fn db))))"
proof (cases rule: WithAuditEvent_snd [of x key fn db])
  case 1
  then show ?thesis using assms by simp
next
  case (2 r db2 s)
  have wf: "wf_state key (state_of db key)" using assms(1) by (simp add: effects_once_def)
  then have "distinct (map fst (db_state db2))" using keeps_progress [OF 2(1) wf] save_open_distinct(1) [OF assms(2)] by simp
  then show ?thesis using 2(2) save_open_distinct(2) by (simp add: finish_def)
qed

lemma other_state:
  assumes "effects_once db" "k \<noteq> key"
  shows "state_of (snd (WithAuditEvent x key fn db)) k = state_of db k"
proof (cases rule: WithAuditEvent_snd [of x key fn db])
  case 1
  then show ?thesis by simp
next
  case (2 r db2 s)
  have wf: "wf_state key (state_of db key)" using assms(1) by (simp add: effects_once_def)
  show ?thesis using state_of_finish [OF keeps_progress [OF 2(1) wf], of s k] 2(2) assms(2) by simp
qed

end

lemma audit_step_distinct:
  "audit_step st x db db' \<Longrightarrow> effects_once db \<Longrightarrow> distinct (map fst (db_state db)) \<Longrightarrow> distinct (map fst (db_state db'))"
proof (induction rule: audit_step.induct)
  case (admit key p e)
  then show ?case using admit_transaction.transaction_distinct by blast
next
  case (logged key e w p)
  then show ?case using log_transaction.transaction_distinct by blast
next
  case (enriched key uid e ev)
  then show ?case using enrich_transaction.transaction_distinct by blast
next
  case (materialized key e)
  then show ?case using materialize_transaction.transaction_distinct by blast
next
  case (dropped key)
  then show ?case using drop_transaction.transaction_distinct by blast
qed (use same_silence_ops same_rebuild in \<open>auto simp: same_reports_def\<close>)

lemma audit_run_distinct: "audit_run st db \<Longrightarrow> distinct (map fst (db_state db))"
  by (induction rule: audit_run.induct) (use audit_step_distinct audit_run_once in \<open>auto simp: empty_db_def\<close>)

definition waits :: "AuditState \<Rightarrow> bool" where
  "waits s \<longleftrightarrow> \<not> as_Admitted s \<and> (case as_Pending s of None \<Rightarrow> False | Some q \<Rightarrow> en_Event q \<noteq> None)"

lemma materialize_admits: "waits s \<Longrightarrow> materialize_tx st e x key db s = (r, db', s') \<Longrightarrow> as_Admitted s'"
  by (auto simp: waits_def materialize_tx_def Let_def split: option.splits if_splits prod.splits)

lemma materialize_loop_admits:
  assumes "effects_once db" "\<forall>x\<in>set xs. x_outcome (fst x) = TxCommitted" "length ks \<le> length xs"
    and "\<And>k. k \<in> set ks \<Longrightarrow> waits (state_of db k) \<or> as_Admitted (state_of db k)"
    and "materialize_loop st e ks xs n db = (ok, n', msgs, db')"
  shows "ok \<and> (\<forall>k. as_Admitted (state_of db k) \<longrightarrow> as_Admitted (state_of db' k)) \<and> (\<forall>k\<in>set ks. as_Admitted (state_of db' k))"
  using assms
proof (induction ks arbitrary: xs n db msgs)
  case (Cons k ks)
  then obtain x xs' where xs: "xs = x # xs'" by (cases xs) auto
  let ?f = "materialize_tx st e (fst x) k"
  obtain r db1 where w: "WithAuditEvent (fst x) k ?f db = (Inr r, db1)"
    using committed_answers [of "fst x"] Cons.prems(2) xs by (metis list.set_intros(1))
  obtain b ms where r: "r = (b, ms)" by fastforce
  obtain ms' where l: "materialize_loop st e ks xs' (if b then n + 1 else n) db1 = (ok, n', ms', db')"
    using Cons.prems(5) xs w r by (auto split: prod.splits)
  have once1: "effects_once db1" using materialize_transaction.transaction_once [OF Cons.prems(1)] w by (metis snd_conv)
  have keep: "as_Admitted (state_of db j) \<Longrightarrow> as_Admitted (state_of db1 j)" for j
    using materialize_transaction.transaction_keeps [OF Cons.prems(1)] w by (metis snd_conv)
  have other: "j \<noteq> k \<Longrightarrow> state_of db1 j = state_of db j" for j
    using materialize_transaction.other_state [OF Cons.prems(1)] w by (metis snd_conv)
  have adm: "as_Admitted (state_of db1 k)"
  proof (cases "as_Admitted (state_of db k)")
    case True
    then show ?thesis by (rule keep)
  next
    case False
    then have "waits (state_of db k)" using Cons.prems(4) [of k] by simp
    moreover from materialize_transaction.committed_state [OF Cons.prems(1) w]
    obtain db2 s where "?f (open_state (fst x) k db) (state_of db k) = (r, db2, s)" "state_of db1 k = s" by metis
    ultimately show ?thesis using materialize_admits by metis
  qed
  have "ok \<and> (\<forall>j. as_Admitted (state_of db1 j) \<longrightarrow> as_Admitted (state_of db' j)) \<and> (\<forall>j\<in>set ks. as_Admitted (state_of db' j))"
    by (rule Cons.IH [OF once1 _ _ _ l]) (use Cons.prems(2-4) xs other adm in \<open>auto, metis\<close>)
  with keep adm show ?case by auto
qed simp

lemma stale_waits:
  assumes "distinct (map fst (db_state db))" "key \<in> set (StaleAuditPending x grace n db)"
  shows "waits (state_of db key)"
proof -
  from assms(2) obtain row where "(key, row) \<in> set (db_state db)" "\<not> as_Admitted (ig_state row)"
    "case as_Pending (ig_state row) of None \<Rightarrow> False | Some en \<Rightarrow> en_Event en \<noteq> None"
    unfolding StaleAuditPending_def by (auto dest!: in_set_takeD split: option.splits)
  moreover from this(1) assms(1) have "map_of (db_state db) key = Some row" by simp
  ultimately show ?thesis by (simp add: waits_def state_of_def)
qed

text \<open>C22. No log record waits for ever. Once the grace period of a waiting record is over and it is among the
  oldest of a batch, a sweep whose transactions commit succeeds and admits it: it has a row of its own, or
  the event it waited for turned out to be stored.\<close>

theorem waiting_record_materializes:
  assumes "audit_run st db" "key \<in> set (StaleAuditPending x grace pendingBatch db)" "e_loaded e"
    and "\<forall>y\<in>set xs. x_outcome (fst y) = TxCommitted" "pendingBatch \<le> length xs"
  shows "case materializePending st x a grace xs e db of ((ok, n, msgs), e', db') \<Rightarrow>
    ok \<and> as_Admitted (state_of db' key) \<and> accounted db' key"
proof -
  let ?ks = "StaleAuditPending x grace pendingBatch db"
  obtain ok n msgs db' where l: "materialize_loop st e ?ks xs 0 db = (ok, n, msgs, db')" by (metis prod.collapse)
  have "length ?ks \<le> length xs" using assms(5) by (simp add: StaleAuditPending_def)
  moreover have "k \<in> set ?ks \<Longrightarrow> waits (state_of db k) \<or> as_Admitted (state_of db k)" for k
    using stale_waits [OF audit_run_distinct [OF assms(1)]] by blast
  ultimately have "ok \<and> as_Admitted (state_of db' key)"
    using materialize_loop_admits [OF audit_run_once [OF assms(1)] assms(4) _ _ l] assms(2) by blast
  moreover have "effects_once db'" using audit_run_once [OF materialize_loop_run [OF assms(1)]] l by (metis snd_conv)
  ultimately show ?thesis using l assms(3) by (simp add: materializePending_def ensureRules_def effects_once_def)
qed

definition later_env :: audit_env where
  "later_env = sample_env\<lparr>x_now := 1000 * hour + 6 * minute, x_dbnow := 1000 * hour + 6 * minute\<rparr>"

definition waiting_db :: audit_db where
  "waiting_db = snd (WithAuditEvent sample_env (admission_key ''a1'')
     (enrich_tx sample_site (New 0) sample_env (admission_key ''a1'') ''a1'' sample_logged_request) empty_db)"

lemma waiting_db_eq:
  "waiting_db = empty_db\<lparr>db_state := [(admission_key ''a1'', \<lparr>ig_state = \<lparr>as_Admitted = False, as_Enriched = False,
     as_Pending = Some ((enrichment ''a1'' sample_logged_request False)\<lparr>en_Event := Some sample_logged_request\<rparr>)\<rparr>, ig_created_at = 1000 * hour\<rparr>)]\<rparr>"
  by (simp add: waiting_db_def WithAuditEvent_def sample_env_def open_state_def save_state_def empty_db_def state_of_def empty_state_def
      enrich_tx_def ExistingAuditEvent_def sample_logged_request_def sample_event_def zero_Event_def Let_def)

theorem waiting_record_materializes_witness:
  "case materializePending sample_site later_env sample_answers PendingGrace (replicate 200 (later_env, later_env)) ((New 0)\<lparr>e_loaded := True\<rparr>) waiting_db of
     ((ok, n, msgs), e', db') \<Rightarrow> ok \<and> as_Admitted (state_of db' (admission_key ''a1'')) \<and> accounted db' (admission_key ''a1'')"
proof (rule waiting_record_materializes)
  show "audit_run sample_site waiting_db" unfolding waiting_db_def by (rule run_enriched [OF empty_run refl])
  show "admission_key ''a1'' \<in> set (StaleAuditPending later_env PendingGrace pendingBatch waiting_db)"
    by (simp add: waiting_db_eq StaleAuditPending_def pendingBatch_def later_env_def PendingGrace_def)
qed (simp_all add: later_env_def sample_env_def pendingBatch_def)

subsection \<open>Thresholds\<close>

text \<open>The specification remembers every hit since the last alert; the code forgets hits that left the window.\<close>

fun history_fires :: "int \<Rightarrow> duration \<Rightarrow> gotime list \<Rightarrow> gotime list \<Rightarrow> bool list" where
  "history_fires n w hist [] = []"
| "history_fires n w hist (t # ts) =
     (let fire = (n \<le> int (length (filter (\<lambda>u. t - u < w) hist)) + 1) in
      fire # history_fires n w (if fire then [] else hist @ [t]) ts)"

text \<open>Successive hits of a rule, the database clock of each given.\<close>

fun threshold_fires :: "Rule \<Rightarrow> audit_env list \<Rightarrow> audit_db \<Rightarrow> bool list" where
  "threshold_fires r [] db = []"
| "threshold_fires r (x # xs) db = (case AuditThreshold x r db of (fire, db') \<Rightarrow> fire # threshold_fires r xs db')"

definition stored_hits :: "Rule \<Rightarrow> audit_db \<Rightarrow> gotime list" where
  "stored_hits r db = (case map_of (db_thresholds db) (r_ID r) of None \<Rightarrow> []
     | Some t \<Rightarrow> if th_revision t = (r_Spec r, r_UpdatedAt r) then th_hit_at t else [])"

lemma threshold_step:
  assumes "s_AlertEvery (r_Spec r) = AlertThreshold" "AuditThreshold x r db = (fire, db')"
  shows "fire = (s_ThN (r_Spec r) \<le> int (length (filter (\<lambda>u. x_dbnow x - u < s_ThMin (r_Spec r) * minute) (stored_hits r db))) + 1)"
    and "stored_hits r db' = (if fire then [] else filter (\<lambda>u. x_dbnow x - u < s_ThMin (r_Spec r) * minute) (stored_hits r db) @ [x_dbnow x])"
  using assms by (auto simp: AuditThreshold_def threshold_kept_def stored_hits_def Let_def update_conv' split: option.splits)

lemma filter_window_twice:
  "t \<le> t' \<Longrightarrow> filter (\<lambda>u. t' - u < w) (filter (\<lambda>u. t - u < (w :: int)) hist) = filter (\<lambda>u. t' - u < w) hist"
  by (induction hist) auto

lemma threshold_refines:
  assumes "s_AlertEvery (r_Spec r) = AlertThreshold" "sorted (map x_dbnow xs)"
    and "\<And>t. xs \<noteq> [] \<Longrightarrow> x_dbnow (hd xs) \<le> t \<Longrightarrow>
      filter (\<lambda>u. t - u < s_ThMin (r_Spec r) * minute) (stored_hits r db) = filter (\<lambda>u. t - u < s_ThMin (r_Spec r) * minute) hist"
  shows "threshold_fires r xs db = history_fires (s_ThN (r_Spec r)) (s_ThMin (r_Spec r) * minute) hist (map x_dbnow xs)"
  using assms(2,3)
proof (induction xs arbitrary: db hist)
  case (Cons x xs)
  let ?w = "s_ThMin (r_Spec r) * minute"
  obtain fire db' where a: "AuditThreshold x r db = (fire, db')" by fastforce
  note s = threshold_step [OF assms(1) a]
  have same: "filter (\<lambda>u. x_dbnow x - u < ?w) (stored_hits r db) = filter (\<lambda>u. x_dbnow x - u < ?w) hist" using Cons.prems(2) by simp
  have "threshold_fires r xs db' = history_fires (s_ThN (r_Spec r)) ?w (if fire then [] else hist @ [x_dbnow x]) (map x_dbnow xs)"
  proof (rule Cons.IH)
    show "sorted (map x_dbnow xs)" using Cons.prems(1) by simp
    fix t assume "xs \<noteq> []" "x_dbnow (hd xs) \<le> t"
    then have "x_dbnow x \<le> t" using Cons.prems(1) by (cases xs) auto
    then show "filter (\<lambda>u. t - u < ?w) (stored_hits r db') = filter (\<lambda>u. t - u < ?w) (if fire then [] else hist @ [x_dbnow x])"
      using s(2) same filter_window_twice [of "x_dbnow x" t ?w] by simp
  qed
  then show ?case using a s(1) same by (simp add: Let_def)
qed simp

text \<open>C23. A threshold rule alerts exactly when its limit is reached. On successive hits, whose clock does
  not run backwards, the counter in the database raises an alert at the same hits as the specification
  that remembers all hits since the last alert and counts those within the window.\<close>

theorem threshold_counts_window:
  assumes "s_AlertEvery (r_Spec r) = AlertThreshold" "sorted (map x_dbnow xs)" "map_of (db_thresholds db) (r_ID r) = None"
  shows "threshold_fires r xs db = history_fires (s_ThN (r_Spec r)) (s_ThMin (r_Spec r) * minute) [] (map x_dbnow xs)"
  by (rule threshold_refines) (use assms in \<open>simp_all add: stored_hits_def\<close>)

text \<open>C36. The counter of a threshold rule is bounded: after every hit it holds fewer entries than the limit of
  the rule, whatever it held before.\<close>

theorem threshold_counter_bounded:
  assumes "s_AlertEvery (r_Spec r) = AlertThreshold" "AuditThreshold x r db = (fire, db')"
  shows "int (length (stored_hits r db')) < max 1 (s_ThN (r_Spec r)) \<and> (fire \<longrightarrow> stored_hits r db' = [])"
  using threshold_step [OF assms] by auto

definition sample_threshold_rule :: Rule where
  "sample_threshold_rule = zero_Rule\<lparr>r_ID := ''t1'', r_Spec := (r_Spec zero_Rule)\<lparr>s_AlertEvery := AlertThreshold, s_ThN := 2, s_ThMin := 5\<rparr>\<rparr>"

theorem threshold_counts_window_witness:
  "threshold_fires sample_threshold_rule (map (\<lambda>t. sample_env\<lparr>x_dbnow := t * minute\<rparr>) [1, 9, 12, 13, 14]) empty_db = [False, False, True, False, True]"
proof -
  have "threshold_fires sample_threshold_rule (map (\<lambda>t. sample_env\<lparr>x_dbnow := t * minute\<rparr>) [1, 9, 12, 13, 14]) empty_db
     = history_fires 2 (5 * minute) [] [1 * minute, 9 * minute, 12 * minute, 13 * minute, 14 * minute]"
    using threshold_counts_window [of sample_threshold_rule "map (\<lambda>t. sample_env\<lparr>x_dbnow := t * minute\<rparr>) [1, 9, 12, 13, 14]" empty_db]
    by (simp add: sample_threshold_rule_def empty_db_def)
  then show ?thesis by simp
qed

theorem threshold_counter_bounded_witness:
  "length (stored_hits sample_threshold_rule (snd (AuditThreshold sample_env sample_threshold_rule empty_db))) < 2"
proof -
  obtain fire db' where a: "AuditThreshold sample_env sample_threshold_rule empty_db = (fire, db')" by fastforce
  from threshold_counter_bounded [OF _ a] a show ?thesis by (simp add: sample_threshold_rule_def)
qed

end
