(* ===== verification/Audit_Rollup.thy ===== *)
theory Audit_Rollup
  imports Audit_Once
begin

section \<open>Precomputed hours are exact (kvisior/internal/store/auditrollup.go)\<close>

text \<open>
  The totals of an hour are computed once the hour has settled and marked as built; every statement that
  changes what the hour counts removes the mark in the same transaction. The removal is skipped for hours
  that, by the clock of the process, cannot have been built yet. Shown: as long as the process clock is
  at most one minute behind the clock of the database, a marked hour always agrees with the events.
\<close>

subsection \<open>What an hour counts\<close>

definition hour_item :: "gotime \<Rightarrow> audit_row \<Rightarrow> ((string \<times> bool \<times> bool) \<times> gotime) option" where
  "hour_item h r = (if h \<le> ae_ts r \<and> ae_ts r < h + hour \<and> \<not> ae_silenced r then Some (row_group r, ae_ts r) else None)"

definition hour_view :: "gotime \<Rightarrow> audit_row list \<Rightarrow> ((string \<times> bool \<times> bool) \<times> gotime) list" where
  "hour_view h rows = List.map_filter (hour_item h) rows"

lemma hour_view_rows: "hour_view h (db_events db) = map (\<lambda>r. (row_group r, ae_ts r)) (hour_rows h db)"
proof -
  have "List.map_filter (hour_item h) rs = map (\<lambda>r. (row_group r, ae_ts r)) (filter (\<lambda>r. h \<le> ae_ts r \<and> ae_ts r < h + hour \<and> \<not> ae_silenced r) rs)" for rs
    by (induction rs) (auto simp: map_filter_simps hour_item_def)
  then show ?thesis by (simp add: hour_view_def hour_rows_def)
qed

lemma hour_view_append: "hour_view h (rs @ rs') = hour_view h rs @ hour_view h rs'"
  by (induction rs) (auto simp: hour_view_def map_filter_simps split: option.split)

lemma hour_view_map: "(\<And>r. r \<in> set rs \<Longrightarrow> hour_item h (f r) = hour_item h r) \<Longrightarrow> hour_view h (map f rs) = hour_view h rs"
  by (induction rs) (auto simp: hour_view_def map_filter_simps split: option.split)

lemma hour_totals_view:
  "hour_totals h db = (let v = hour_view h (db_events db) in
     map (\<lambda>g. \<lparr>hr_hour = h, hr_user = fst g, hr_allowed = fst (snd g), hr_danger = snd (snd g),
                hr_events = length (filter (\<lambda>q. fst q = g) v), hr_last_seen = Max (snd ` set (filter (\<lambda>q. fst q = g) v))\<rparr>)
       (remdups (map fst v)))"
proof -
  have n: "length (filter (\<lambda>q. fst q = g) (map (\<lambda>r. (row_group r, ae_ts r)) rs)) = length (filter (\<lambda>r. row_group r = g) rs)" for g rs
    by (induction rs) auto
  have m: "snd ` set (filter (\<lambda>q. fst q = g) (map (\<lambda>r. (row_group r, ae_ts r)) rs)) = ae_ts ` set (filter (\<lambda>r. row_group r = g) rs)" for g rs
    by (induction rs) auto
  have f: "map fst (map (\<lambda>r. (row_group r, ae_ts r)) rs) = map row_group rs" for rs by simp
  show ?thesis unfolding hour_totals_def Let_def hour_view_rows f n m ..
qed

lemma hour_totals_cong: "hour_view h (db_events db) = hour_view h (db_events db') \<Longrightarrow> hour_totals h db = hour_totals h db'"
  by (simp add: hour_totals_view)

lemma in_hour: "h mod hour = 0 \<Longrightarrow> h \<le> t \<and> t < h + hour \<longleftrightarrow> hourOf t = (h :: int)"
proof -
  assume h: "h mod hour = 0"
  have b: "0 \<le> t mod hour" "t mod hour < hour" by simp_all
  show ?thesis
  proof
    assume a: "h \<le> t \<and> t < h + hour"
    then have "t = h + (t - h)" "0 \<le> t - h" "t - h < hour" by auto
    then have "t mod hour = t - h" using h by (metis add_0 mod_add_left_eq mod_pos_pos_trivial)
    then show "hourOf t = h" by (simp add: hourOf_def)
  next
    assume "hourOf t = h"
    then show "h \<le> t \<and> t < h + hour" using b unfolding hourOf_def by linarith
  qed
qed

lemma hour_item_other: "h mod hour = 0 \<Longrightarrow> hourOf (ae_ts r) \<noteq> h \<Longrightarrow> hour_item h r = None"
  using in_hour [of h "ae_ts r"] by (auto simp: hour_item_def)

subsection \<open>What the statements do to hours and rows\<close>

definition keeps_hours :: "audit_env \<Rightarrow> audit_db \<Rightarrow> audit_db \<Rightarrow> bool" where
  "keeps_hours x db db' \<longleftrightarrow> db_hourly db' = db_hourly db \<and> db_rollups_ready db' = db_rollups_ready db \<and> set (db_marks db') \<subseteq> set (db_marks db)
     \<and> (\<forall>h. h \<in> set (db_marks db') \<longrightarrow> h mod hour = 0 \<longrightarrow> rollupBuildable h (x_now x) \<longrightarrow> db_rollups_ready db
            \<longrightarrow> hour_view h (db_events db') = hour_view h (db_events db))"

lemma keeps_hours_refl [simp]: "keeps_hours x db db"
  by (simp add: keeps_hours_def)

lemma keeps_hours_trans: "keeps_hours x a b \<Longrightarrow> keeps_hours x b c \<Longrightarrow> keeps_hours x a c"
  unfolding keeps_hours_def by (metis (no_types, lifting) order_trans subsetD)

lemma keeps_hours_frame:
  "db_hourly db' = db_hourly db \<Longrightarrow> db_rollups_ready db' = db_rollups_ready db \<Longrightarrow> db_marks db' = db_marks db
   \<Longrightarrow> db_events db' = db_events db \<Longrightarrow> keeps_hours x db db'"
  by (simp add: keeps_hours_def)

text \<open>The life of a row: its identity stays, its origin may become \<^verbatim>\<open>both\<close>.\<close>

definition evolves :: "audit_row \<Rightarrow> audit_row \<Rightarrow> bool" where
  "evolves r r' \<longleftrightarrow> ae_key r' = ae_key r \<and> ae_event_uid r' = ae_event_uid r \<and> ae_ts r' = ae_ts r
     \<and> (ae_origin r' = ae_origin r \<or> ae_origin r' = AuditOriginBoth)"

definition rows_evolve :: "audit_db \<Rightarrow> audit_db \<Rightarrow> bool" where
  "rows_evolve db db' \<longleftrightarrow> list_all2 evolves (db_events db) (db_events db')"

lemma rows_evolve_refl: "db_events db' = db_events db \<Longrightarrow> rows_evolve db db'"
  by (auto simp: rows_evolve_def evolves_def intro: list_all2_refl)

lemma rows_evolve_trans: "rows_evolve a b \<Longrightarrow> rows_evolve b c \<Longrightarrow> rows_evolve a c"
  unfolding rows_evolve_def by (rule list_all2_trans [of evolves]) (auto simp: evolves_def)

lemma rows_evolve_map: "(\<And>r. evolves r (f r)) \<Longrightarrow> db_events db' = map f (db_events db) \<Longrightarrow> rows_evolve db db'"
  by (simp add: rows_evolve_def list_all2_map2 list_all2_refl)

text \<open>Times are stored in microseconds. A row with the origin of admission events was written under the key of its identifier.\<close>

definition keyed :: "audit_db \<Rightarrow> bool" where
  "keyed db \<longleftrightarrow> (\<forall>r\<in>set (db_events db). ae_ts r mod 1000 = 0
     \<and> (ae_origin r = AuditOriginAdmission \<longrightarrow> (\<forall>u. ae_event_uid r = Some u \<longrightarrow> ae_key r = admission_key u)))"

lemma keyed_evolve: "keyed db \<Longrightarrow> rows_evolve db db' \<Longrightarrow> keyed db'"
proof -
  assume k: "keyed db" and e: "rows_evolve db db'"
  have both: "AuditOriginBoth \<noteq> AuditOriginAdmission" by (simp add: audit_consts)
  show ?thesis unfolding keyed_def
  proof (intro ballI)
    fix r' assume r': "r' \<in> set (db_events db')"
    then obtain i where i: "i < length (db_events db')" "r' = db_events db' ! i" by (auto simp: in_set_conv_nth)
    then have "evolves (db_events db ! i) r'" "i < length (db_events db)" using e by (auto simp: rows_evolve_def list_all2_conv_all_nth)
    then have "evolves (db_events db ! i) r'" "db_events db ! i \<in> set (db_events db)" by simp_all
    then show "ae_ts r' mod 1000 = 0 \<and> (ae_origin r' = AuditOriginAdmission \<longrightarrow> (\<forall>u. ae_event_uid r' = Some u \<longrightarrow> ae_key r' = admission_key u))"
      using k both unfolding keyed_def evolves_def by metis
  qed
qed

definition unique_keys :: "audit_db \<Rightarrow> bool" where
  "unique_keys db \<longleftrightarrow> (\<forall>k. count (all_keys db) k \<le> 1)"

lemma unique_rows:
  assumes "unique_keys db" "r \<in> set (db_events db)" "r' \<in> set (db_events db)" "ae_key r = ae_key r'"
  shows "r = r'"
proof -
  have "count (mset (map ae_key (db_events db))) k \<le> 1" for k
    using assms(1) unfolding unique_keys_def all_keys_def by (metis add_leE count_union)
  then have "distinct (map ae_key (db_events db))" by (metis distinct_count_atmost_1 less_one linorder_not_less not_in_iff count_mset_0_iff le_less leI)
  then show ?thesis using assms(2-4) by (auto simp: distinct_map dest: inj_onD)
qed

lemma marks_after_invalidate:
  "h \<in> set (db_marks (invalidateRollupHours x ts db)) \<Longrightarrow> h \<in> set (db_marks db)
     \<and> (rollupBuildable h (x_now x) \<longrightarrow> db_rollups_ready db \<longrightarrow> h \<notin> hourOf ` set ts)"
  by (auto simp: invalidateRollupHours_def dropRollupMarks_def Let_def filter_empty_conv split: if_splits)

lemma invalidate_fields:
  "db_events (invalidateRollupHours x ts db) = db_events db" "db_hourly (invalidateRollupHours x ts db) = db_hourly db"
  "db_rollups_ready (invalidateRollupHours x ts db) = db_rollups_ready db" "db_silences_ready (invalidateRollupHours x ts db) = db_silences_ready db"
  by (simp_all add: invalidateRollupHours_def dropRollupMarks_def Let_def)

text \<open>A change of rows in the hours whose marks are dropped.\<close>

lemma keeps_hours_invalidated:
  assumes "db_hourly d = db_hourly db" "db_rollups_ready d = db_rollups_ready db" "db_marks d = db_marks db"
    and "\<And>h. h mod hour = 0 \<Longrightarrow> h \<notin> hourOf ` set ts \<Longrightarrow> hour_view h (db_events d) = hour_view h (db_events db)"
  shows "keeps_hours x db (invalidateRollupHours x ts d)"
  unfolding keeps_hours_def using assms marks_after_invalidate [of _ x ts d] by (auto simp: invalidate_fields)

text \<open>A change of rows that no hour counts.\<close>

lemma keeps_hours_unseen:
  assumes "db_hourly d = db_hourly db" "db_rollups_ready d = db_rollups_ready db" "db_marks d = db_marks db"
    and "\<And>h. hour_view h (db_events d) = hour_view h (db_events db)"
  shows "keeps_hours x db d"
  using assms by (simp add: keeps_hours_def)

lemma update_fields:
  "db_hourly (update_rows P f db) = db_hourly db" "db_rollups_ready (update_rows P f db) = db_rollups_ready db"
  "db_marks (update_rows P f db) = db_marks db" "db_silences_ready (update_rows P f db) = db_silences_ready db"
  "db_events (update_rows P f db) = map (\<lambda>r. if P r then f r else r) (db_events db)"
  by (simp_all add: update_rows_def)

lemma update_hours:
  assumes ts: "\<And>r. ae_ts (f r) = ae_ts r" and one: "\<And>r. r \<in> set (db_events db) \<Longrightarrow> P r \<Longrightarrow> hourOf (ae_ts r) \<in> hourOf ` set stamps"
  shows "keeps_hours x db (invalidateRollupHours x stamps (update_rows P f db))"
proof (rule keeps_hours_invalidated)
  fix h assume h: "h mod hour = 0" "h \<notin> hourOf ` set stamps"
  show "hour_view h (db_events (update_rows P f db)) = hour_view h (db_events db)" unfolding update_fields
  proof (rule hour_view_map)
    fix r assume r: "r \<in> set (db_events db)"
    show "hour_item h (if P r then f r else r) = hour_item h r"
    proof (cases "P r")
      case True
      then have "hourOf (ae_ts r) \<noteq> h" using one [OF r] h(2) by blast
      then show ?thesis using hour_item_other [OF h(1)] ts [of r] by simp
    qed simp
  qed
qed (simp_all add: update_fields)

lemma update_evolves:
  assumes "\<And>r. evolves r (f r)"
  shows "rows_evolve db (update_rows P f db)"
  by (rule rows_evolve_map [of "\<lambda>r. if P r then f r else r"]) (use assms in \<open>simp_all add: update_fields evolves_def\<close>)

lemma silence_fields:
  "db_hourly (storeSilencedEvent i r db) = db_hourly db" "db_rollups_ready (storeSilencedEvent i r db) = db_rollups_ready db"
  "db_marks (storeSilencedEvent i r db) = db_marks db" "db_events (storeSilencedEvent i r db) = db_events db"
  "db_hourly (refresh_silenced row u db) = db_hourly db" "db_rollups_ready (refresh_silenced row u db) = db_rollups_ready db"
  "db_marks (refresh_silenced row u db) = db_marks db" "db_events (refresh_silenced row u db) = db_events db"
  by (simp_all add: storeSilencedEvent_def refresh_silenced_def)

lemma silence_stored_hours:
  assumes "silenceStoredEvent x row u db = (row', db')"
  shows "keeps_hours x db db' \<and> rows_evolve db db' \<and> ar_Ts row' = ar_Ts row \<and> ar_ID row' = ar_ID row \<and> ar_Sev row' = ar_Sev row"
proof -
  have set: "set_silenced True i t d = update_rows (\<lambda>r. ae_id r = i \<and> ae_ts r = t) (\<lambda>r. r\<lparr>ae_silenced := True\<rparr>) d" for i t d
    by (simp add: set_silenced_def update_rows_def)
  have k: "keeps_hours x d (invalidateRollupHours x [t] (set_silenced True i t d))" for i t d
    unfolding set by (rule update_hours) auto
  have e: "rows_evolve d (invalidateRollupHours x [t] (set_silenced True i t d))" for i t d
    unfolding set using update_evolves [of "\<lambda>r. r\<lparr>ae_silenced := True\<rparr>"] rows_evolve_trans rows_evolve_refl invalidate_fields(1)
    by (metis (no_types, lifting) audit_row.select_convs audit_row.surjective audit_row.update_convs(15) evolves_def)
  have s: "keeps_hours x db (storeSilencedEvent i r db)" "rows_evolve db (storeSilencedEvent i r db)" for i r
    by (simp_all add: keeps_hours_frame rows_evolve_refl silence_fields)
  have f: "keeps_hours x db (refresh_silenced row u db)" "rows_evolve db (refresh_silenced row u db)"
    by (simp_all add: keeps_hours_frame rows_evolve_refl silence_fields)
  show ?thesis using assms f s keeps_hours_trans [OF s(1) k] rows_evolve_trans [OF s(2) e]
    by (auto simp: silenceStoredEvent_def Let_def rows_evolve_refl split: if_splits option.splits)
qed

lemma enriched_evolves: "evolves r (enriched_row en r)" "ae_ts (enriched_row en r) = ae_ts r"
  by (simp_all add: evolves_def enriched_row_def)

lemma enrich_event_hours:
  assumes "EnrichAuditEvent x en db = (row, db')" "unique_keys db" "keyed db"
  shows "keeps_hours x db db' \<and> rows_evolve db db'"
proof (cases "List.find (waiting_row x (en_EventUID en) (en_At en) AuditOriginAdmission) (db_events db)")
  case None
  with assms(1) show ?thesis by (auto simp: EnrichAuditEvent_def Let_def rows_evolve_refl)
next
  case (Some r)
  let ?P = "waiting_row x (en_EventUID en) (en_At en) AuditOriginAdmission"
  let ?row = "returned_row (enriched_row en r)" and ?d = "update_rows ?P (enriched_row en) db"
  have r: "?P r" "r \<in> set (db_events db)" using find_SomeD [OF Some] by auto
  have one: "q = r" if "q \<in> set (db_events db)" "?P q" for q
  proof (rule unique_rows [OF assms(2) that(1) r(2)])
    show "ae_key q = ae_key r" using assms(3) that r unfolding keyed_def waiting_row_def by metis
  qed
  have ts: "ar_Ts ?row = ae_ts r" by (simp add: returned_row_def enriched_row_def)
  obtain row' where s: "silenceStoredEvent x ?row (en_EventUID en) (invalidateRollupHours x [ar_Ts ?row] ?d) = (row', db')"
    using assms(1) Some by (auto simp: EnrichAuditEvent_def Let_def split: prod.splits)
  have "keeps_hours x db (invalidateRollupHours x [ar_Ts ?row] ?d)"
    by (rule update_hours) (use one ts enriched_evolves in auto)
  moreover have "rows_evolve db (invalidateRollupHours x [ar_Ts ?row] ?d)"
    using rows_evolve_trans [OF update_evolves rows_evolve_refl] enriched_evolves(1) invalidate_fields(1) by blast
  ultimately show ?thesis using silence_stored_hours [OF s] keeps_hours_trans rows_evolve_trans by blast
qed

lemma admission_evolves: "evolves r (admission_row ev r)" "hour_item h (admission_row ev r) = hour_item h r"
  by (simp_all add: evolves_def admission_row_def hour_item_def row_group_def row_allowed_def auditDanger_def)

lemma update_unseen:
  assumes "\<And>h r. hour_item h (f r) = hour_item h r" "\<And>r. evolves r (f r)"
  shows "keeps_hours x db (update_rows P f db) \<and> rows_evolve db (update_rows P f db)"
proof
  show "keeps_hours x db (update_rows P f db)"
    by (rule keeps_hours_unseen) (auto simp: update_fields assms(1) intro!: hour_view_map)
qed (rule update_evolves [OF assms(2)])

lemma merge_details_hours:
  assumes "MergeAdmissionDetails x ev t db = (row, db')"
  shows "keeps_hours x db db' \<and> rows_evolve db db'"
proof (cases "List.find (waiting_row x (ev_ID ev) t AuditOriginAPILog) (db_events db)")
  case None
  with assms(1) show ?thesis by (auto simp: MergeAdmissionDetails_def Let_def rows_evolve_refl)
next
  case (Some r)
  let ?d = "update_rows (waiting_row x (ev_ID ev) t AuditOriginAPILog) (admission_row ev) db"
  obtain row' where s: "silenceStoredEvent x (returned_row (admission_row ev r)) (ev_ID ev) ?d = (row', db')"
    using assms Some by (auto simp: MergeAdmissionDetails_def Let_def split: prod.splits)
  have "keeps_hours x db ?d \<and> rows_evolve db ?d" by (rule update_unseen) (simp_all add: admission_evolves)
  then show ?thesis using silence_stored_hours [OF s] keeps_hours_trans rows_evolve_trans by blast
qed

lemma meta_hours: "keeps_hours x db (MergeAuditObjectMeta u ev a db) \<and> rows_evolve db (MergeAuditObjectMeta u ev a db)"
  unfolding MergeAuditObjectMeta_def
  by (rule update_unseen) (simp_all add: evolves_def hour_item_def row_group_def row_allowed_def auditDanger_def)

lemma mark_hours: "keeps_hours x db (MarkAuditEventRule x row u r s db) \<and> rows_evolve db (MarkAuditEventRule x row u r s db)"
proof -
  let ?f = "\<lambda>e. e\<lparr>ae_rule_id := Some r, ae_sev := Some s\<rparr>" and ?P = "\<lambda>e. ae_id e = ar_ID row \<and> ae_ts e = ar_Ts row"
  let ?d = "invalidateRollupHours x [ar_Ts row] (update_rows ?P ?f db)"
  have "keeps_hours x db ?d" by (rule update_hours) auto
  moreover have "rows_evolve db ?d"
    by (rule rows_evolve_trans [OF update_evolves rows_evolve_refl]) (simp_all add: evolves_def invalidate_fields)
  moreover have "keeps_hours x ?d (?d\<lparr>db_silenced := se\<rparr>)" "rows_evolve ?d (?d\<lparr>db_silenced := se\<rparr>)" for se
    by (simp_all add: keeps_hours_frame rows_evolve_refl)
  ultimately show ?thesis unfolding MarkAuditEventRule_def Let_def using keeps_hours_trans rows_evolve_trans by auto
qed

lemma mark_stronger_hours: "mark_stronger x hits row u db = (m, db') \<Longrightarrow> keeps_hours x db db' \<and> rows_evolve db db'"
  by (auto simp: mark_stronger_def mark_hours rows_evolve_refl split: option.splits if_splits)

lemma act_loop_fields:
  "act_loop st x k ev rs db = (a, m, db') \<Longrightarrow>
   db_hourly db' = db_hourly db \<and> db_rollups_ready db' = db_rollups_ready db \<and> db_marks db' = db_marks db \<and> db_events db' = db_events db"
proof (induction rs arbitrary: db a m)
  case (Cons r rs)
  let ?w = "\<lambda>d. if r_Enabled r then WriteAuditViolation x (violation_write st r ev) d else d"
  obtain b d1 where c: "ClaimAuditRule k (r_ID r) db = (b, d1)" by fastforce
  obtain f d3 where t: "(if r_Alert r then AuditThreshold x r (?w d1) else (False, ?w d1)) = (f, d3)" by fastforce
  have "db_hourly d1 = db_hourly db \<and> db_rollups_ready d1 = db_rollups_ready db \<and> db_marks d1 = db_marks db \<and> db_events d1 = db_events db"
    using claim_cases [OF c] by auto
  moreover have "db_hourly d3 = db_hourly d1 \<and> db_rollups_ready d3 = db_rollups_ready d1 \<and> db_marks d3 = db_marks d1 \<and> db_events d3 = db_events d1"
    using t by (auto simp: AuditThreshold_def WriteAuditViolation_def Let_def split: if_splits)
  ultimately show ?case using Cons c t by (cases b) (auto simp: Let_def split: prod.splits)
qed simp

lemma act_hours: "act_and_alert st x k ev hits db = (m, db') \<Longrightarrow> keeps_hours x db db' \<and> rows_evolve db db'"
  by (auto simp: act_and_alert_def act_def InsertAlerts_def intro!: keeps_hours_frame rows_evolve_refl dest!: act_loop_fields split: prod.splits)

lemma insert_hours:
  assumes "InsertAuditEvents x key [it] db = (b, db')"
    and "it_Origin it = AuditOriginAdmission \<Longrightarrow> key = admission_key (ev_ID (it_Event it))"
  shows "keeps_hours x db db' \<and> (keyed db \<longrightarrow> keyed db')"
proof (cases "stored_items x (activeAuditSilences x db) [it] = []")
  case True
  with assms(1) show ?thesis by (auto simp: InsertAuditEvents_def keyed_def intro!: keeps_hours_frame)
next
  case False
  then obtain s where s: "stored_items x (activeAuditSilences x db) [it] = [s]" using stored_items_one by blast
  let ?r = "event_row (db_rollups_ready db) key (db_next_id db) s"
  let ?db1 = "db\<lparr>db_events := db_events db @ [?r], db_next_id := Suc (db_next_id db)\<rparr>"
  have db': "db' = store_silenced s (invalidateRollupHours x [fst (snd s)] ?db1)"
    using assms(1) s by (auto simp: InsertAuditEvents_def Let_def)
  have st: "fst s = it" using s by (auto simp: stored_items_def map_filter_simps Let_def split: option.splits)
  have ts: "ae_ts ?r = fst (snd s)" by (simp add: event_row_def Let_def split: prod.split)
  have "keeps_hours x db (invalidateRollupHours x [fst (snd s)] ?db1)"
  proof (rule keeps_hours_invalidated)
    fix h assume "h mod hour = 0" "h \<notin> hourOf ` set [fst (snd s)]"
    then have "hour_item h ?r = None" using ts hour_item_other by simp
    then show "hour_view h (db_events ?db1) = hour_view h (db_events db)"
      by (simp add: hour_view_append) (simp add: hour_view_def map_filter_simps)
  qed simp_all
  moreover have "keeps_hours x d (store_silenced s d)" "db_events (store_silenced s d) = db_events d" for d
    by (auto simp: store_silenced_def silence_fields intro!: keeps_hours_frame split: prod.split option.split)
  moreover have micro: "fst (snd s) mod 1000 = 0" using s
    by (auto simp: stored_items_def map_filter_simps Let_def pg_time_def minus_mod_eq_mult_div split: option.splits)
  then have "keyed db \<longrightarrow> keyed ?db1" using assms(2) st
    by (auto simp: keyed_def event_row_def Let_def nullable_def split: prod.splits if_splits)
  ultimately show ?thesis unfolding db' using keeps_hours_trans by (auto simp: keyed_def invalidate_fields)
qed

subsection \<open>The transactions of the engine\<close>

lemma persist_hours:
  assumes "persist st x origin key p db = (m, db')" "origin = AuditOriginAPILog \<or> key = admission_key (ev_ID (pr_ev p))"
  shows "keeps_hours x db db' \<and> (keyed db \<longrightarrow> keyed db')"
proof -
  let ?it = "\<lparr>it_Event = pr_ev p, it_Origin = origin, it_RuleID = (case pr_top p of None \<Rightarrow> [] | Some r \<Rightarrow> r_ID r),
                it_Sev = (case pr_top p of None \<Rightarrow> [] | Some r \<Rightarrow> to_upper (r_Severity r))\<rparr>"
  obtain b db1 where i: "InsertAuditEvents x key [?it] db = (b, db1)" by fastforce
  obtain ms where a: "act_and_alert st x key (pr_ev p) (pr_hits p) db1 = (ms, db')"
    using assms(1) i by (auto simp: persist_def Let_def split: prod.splits)
  have "keeps_hours x db db1 \<and> (keyed db \<longrightarrow> keyed db1)"
    by (rule insert_hours [OF i]) (use assms(2) in \<open>auto simp: audit_consts\<close>)
  with act_hours [OF a] show ?thesis using keeps_hours_trans keyed_evolve by blast
qed

lemma enrich_hours:
  assumes "enrich st e x key en db = (r, db')" "unique_keys db" "keyed db"
  shows "keeps_hours x db db' \<and> keyed db'"
proof (cases "fst (EnrichAuditEvent x en db)")
  case None
  then have "EnrichAuditEvent x en db = (None, db')" using assms(1) by (cases "EnrichAuditEvent x en db") (auto simp: enrich_def)
  from enrich_event_hours [OF this assms(2,3)] show ?thesis using keyed_evolve assms(3) by blast
next
  case (Some row)
  obtain db1 where e: "EnrichAuditEvent x en db = (Some row, db1)" using Some by (cases "EnrichAuditEvent x en db") auto
  let ?db2 = "if ar_RuleID row \<noteq> [] then AttachAuditViolationSource x (en_EventUID en) (SourceIP (ar_Data row)) (en_User en) (ar_Data row) db1 else db1"
  let ?db3 = "AttachAuditAlertActor x (en_EventUID en) (ar_Ts row) (en_User en) (ar_Data row) ?db2"
  obtain m db4 where ms: "mark_stronger x (Match (e_matcher e) (site_cluster st) (ar_Data row) False) row (en_EventUID en) ?db3 = (m, db4)" by fastforce
  obtain msgs where a: "act_and_alert st x key (ar_Data row) (Match (e_matcher e) (site_cluster st) (ar_Data row) False) db4 = (msgs, db')"
    using assms(1) e ms by (auto simp: enrich_def Let_def split: prod.splits)
  have f: "db_hourly ?db3 = db_hourly db1" "db_rollups_ready ?db3 = db_rollups_ready db1" "db_marks ?db3 = db_marks db1" "db_events ?db3 = db_events db1"
    by (simp_all add: AttachAuditAlertActor_def AttachAuditViolationSource_def)
  have "keeps_hours x db1 ?db3 \<and> rows_evolve db1 ?db3" using f by (intro conjI keeps_hours_frame rows_evolve_refl)
  then have "keeps_hours x db db' \<and> rows_evolve db db'"
    using enrich_event_hours [OF e assms(2,3)] mark_stronger_hours [OF ms] act_hours [OF a] keeps_hours_trans rows_evolve_trans by meson
  then show ?thesis using keyed_evolve assms(3) by blast
qed

lemma merge_hours:
  assumes "mergeAdmission st e x key ev t db = (m, db')" "keyed db"
  shows "keeps_hours x db db' \<and> keyed db'"
proof (cases "fst (MergeAdmissionDetails x ev t db)")
  case None
  then have "MergeAdmissionDetails x ev t db = (None, db')" using assms(1) by (cases "MergeAdmissionDetails x ev t db") (auto simp: mergeAdmission_def)
  from merge_details_hours [OF this] show ?thesis using keyed_evolve assms(2) by blast
next
  case (Some row)
  obtain db1 where e: "MergeAdmissionDetails x ev t db = (Some row, db1)" using Some by (cases "MergeAdmissionDetails x ev t db") auto
  obtain m' db2 where ms: "mark_stronger x (Match (e_matcher e) (site_cluster st) (ar_Data row) False) row (ev_ID ev) db1 = (m', db2)" by fastforce
  obtain ms' where a: "act_and_alert st x key (ar_Data row) (Match (e_matcher e) (site_cluster st) (ar_Data row) False) db2 = (ms', db')"
    using assms(1) e ms by (auto simp: mergeAdmission_def Let_def split: prod.splits)
  have "keeps_hours x db db' \<and> rows_evolve db db'"
    using merge_details_hours [OF e] mark_stronger_hours [OF ms] act_hours [OF a] keeps_hours_trans rows_evolve_trans by meson
  then show ?thesis using keyed_evolve assms(2) by blast
qed

text \<open>A transaction of the engine that also keeps the marks honest, given that no key occurs twice.\<close>

definition hours_pre :: "string \<Rightarrow> AuditState \<Rightarrow> audit_db \<Rightarrow> bool" where
  "hours_pre key s db \<longleftrightarrow> unique_keys db \<and> keyed db \<and> (\<not> as_Admitted s \<longrightarrow> key \<notin># all_keys db)"

locale audit_hours = audit_transaction key fn
  for key :: string and fn :: "audit_db \<Rightarrow> AuditState \<Rightarrow> 'a \<times> audit_db \<times> AuditState" +
  fixes x :: audit_env
  assumes keeps_marks: "fn db s = (r, db', s') \<Longrightarrow> wf_state key s \<Longrightarrow> hours_pre key s db \<Longrightarrow> keeps_hours x db db' \<and> keyed db'"
begin

lemma transaction_hours:
  assumes "effects_once db" "keyed db"
  shows "keeps_hours x db (snd (WithAuditEvent x key fn db)) \<and> keyed (snd (WithAuditEvent x key fn db))"
proof (cases rule: WithAuditEvent_snd [of x key fn db])
  case 1
  then show ?thesis using assms(2) by simp
next
  case (2 r db2 s)
  let ?db1 = "open_state x key db" and ?s = "state_of db key"
  have wf: "wf_state key ?s" using assms(1) by (simp add: effects_once_def)
  have "key \<notin># all_keys db" if "\<not> as_Admitted ?s" using assms(1) that unfolding effects_once_def by blast
  then have pre: "hours_pre key ?s ?db1" using assms by (simp add: hours_pre_def unique_keys_def keyed_def effects_once_def open_frame)
  have o: "keeps_hours x db ?db1" by (rule keeps_hours_frame) (auto simp: open_state_def split: option.split)
  have f: "keeps_hours x db2 (finish key ?s s db2)" by (rule keeps_hours_frame) (auto simp: finish_def save_state_def split: option.split)
  have "keeps_hours x db (finish key ?s s db2)" using keeps_marks [OF 2(1) wf pre] o f keeps_hours_trans by blast
  moreover have "keyed (finish key ?s s db2)" using keeps_marks [OF 2(1) wf pre] by (simp add: keyed_def finish_frame)
  ultimately show ?thesis using 2(2) by simp
qed

end

lemma admit_event_hours:
  assumes "admit_event st x (admission_key (ev_ID (pr_ev p))) p db s = ((stop, msgs), db', s')" "keyed db"
  shows "keeps_hours x db db' \<and> keyed db'"
proof (cases "as_Admitted s")
  case True
  with assms show ?thesis by (simp add: admit_event_def)
next
  case False
  have m: "keeps_hours x db (note_merged k (MergeAuditObjectMeta u ev a db)) \<and> keyed (note_merged k (MergeAuditObjectMeta u ev a db))" for k u ev a
    using meta_hours [of x db u ev a] keyed_evolve [OF assms(2)]
    by (auto simp: note_merged_def keeps_hours_def keyed_def)
  have p: "persist st x AuditOriginAdmission (admission_key (ev_ID (pr_ev p))) p db = (ms, d) \<Longrightarrow> keeps_hours x db d \<and> keyed d" for ms d
    using persist_hours assms(2) by blast
  show ?thesis using assms False m p
    by (auto simp: admit_event_def Let_def split: prod.splits option.splits if_splits)
qed

lemma join_pending_hours:
  assumes "join_pending st e x key ev db s = (msgs, db', s')" "unique_keys db" "keyed db"
  shows "keeps_hours x db db' \<and> keyed db'"
  using assms enrich_hours merge_hours
  by (auto simp: join_pending_def split: option.splits if_splits prod.splits)

lemma unique_after: "tx_ok key s db s' db' \<Longrightarrow> hours_pre key s db \<Longrightarrow> unique_keys db'"
  by (auto simp: tx_ok_def hours_pre_def unique_keys_def not_in_iff)

lemma admit_tx_hours:
  assumes "admit_tx st e x key p db s = (msgs, db', s')" "wf_state key s" "hours_pre key s db" and key: "key = admission_key (ev_ID (pr_ev p))"
  shows "keeps_hours x db db' \<and> keyed db'"
proof -
  obtain stop ms db1 s1 where a: "admit_event st x key p db s = ((stop, ms), db1, s1)" by (metis prod.collapse)
  have h: "keeps_hours x db db1 \<and> keyed db1" using admit_event_hours a key assms(3) unfolding hours_pre_def by blast
  have u: "unique_keys db1" using unique_after admit_event_ok [OF a assms(2) key] assms(3) by blast
  show ?thesis
  proof (cases stop)
    case True
    with assms a h show ?thesis by (simp add: admit_tx_def)
  next
    case False
    obtain ms' where "join_pending st e x key (pr_ev p) db1 s1 = (ms', db', s')"
      using assms(1) a False by (auto simp: admit_tx_def split: prod.splits)
    from join_pending_hours [OF this u] h show ?thesis using keeps_hours_trans by blast
  qed
qed

lemma note_merged_hours: "keeps_hours x db (note_merged k db)" "keyed (note_merged k db) = keyed db"
  by (simp_all add: note_merged_def keeps_hours_def keyed_def)

lemma log_tx_hours:
  assumes "log_tx st e x key w p db s = (msgs, db', s')" "hours_pre key s db"
  shows "keeps_hours x db db' \<and> keyed db'"
proof (cases "as_Admitted s")
  case True
  with assms show ?thesis by (simp add: log_tx_def hours_pre_def)
next
  case False
  have pre: "unique_keys db" "keyed db" using assms(2) by (simp_all add: hours_pre_def)
  have p: "persist st x AuditOriginAPILog key p d = (ms, d') \<Longrightarrow> keyed d \<Longrightarrow> keeps_hours x d d' \<and> keyed d'" for ms d d'
    using persist_hours by blast
  have n: "enrich st e x k en db = (r, d) \<Longrightarrow> keeps_hours x db d \<and> keyed d \<and> keeps_hours x db (note_merged key d) \<and> keyed (note_merged key d)" for k en r d
    using enrich_hours [of st e x k en db r d] pre note_merged_hours keeps_hours_trans by blast
  show ?thesis
  proof (cases "if w then informerTwin (pr_ev p) (objectTwins (pr_ev p) db) else None")
    case None
    then show ?thesis using assms(1) False p pre by (auto simp: log_tx_def Let_def split: prod.splits)
  next
    case (Some m)
    let ?en = "(enrichment (tm_uid m) (pr_ev p) True)\<lparr>en_Attribution := attribution m\<rparr>"
    obtain ok ms db1 where en: "enrich st e x (admission_key (tm_uid m)) ?en db = ((ok, ms), db1)" by (metis prod.collapse)
    show ?thesis
    proof (cases ok)
      case True
      with assms(1) False Some en have "db' = note_merged key db1" by (auto simp: log_tx_def Let_def)
      then show ?thesis using n [OF en] by simp
    next
      case no: False
      with assms(1) False Some en obtain ms' where "persist st x AuditOriginAPILog key p db1 = (ms', db')"
        by (auto simp: log_tx_def Let_def split: prod.splits)
      then show ?thesis using p n [OF en] keeps_hours_trans by blast
    qed
  qed
qed

lemma enrich_tx_hours:
  assumes "enrich_tx st e x key uid ev db s = (msgs, db', s')" "hours_pre key s db"
  shows "keeps_hours x db db' \<and> keyed db'"
proof -
  have pre: "unique_keys db" "keyed db" using assms(2) by (simp_all add: hours_pre_def)
  have "db' = db \<or> (\<exists>r. enrich st e x key (enrichment uid ev (ev_ImpersonatedUser ev \<noteq> [])) db = (r, db'))"
    using assms(1) by (auto simp: enrich_tx_def Let_def split: if_splits prod.splits)
  then show ?thesis using enrich_hours pre by auto
qed

lemma materialize_tx_hours:
  assumes "materialize_tx st e x key db s = (r, db', s')" "hours_pre key s db"
  shows "keeps_hours x db db' \<and> keyed db'"
proof -
  have pre: "unique_keys db" "keyed db" using assms(2) by (simp_all add: hours_pre_def)
  have "db' = db \<or> (\<exists>q en. enrich st e x key en db = (q, db')) \<or> (\<exists>p m. persist st x AuditOriginAPILog key p db = (m, db'))"
    using assms(1) by (auto simp: materialize_tx_def Let_def split: option.splits if_splits prod.splits)
  then show ?thesis using enrich_hours persist_hours pre by auto
qed

interpretation admit_marks: audit_hours "admission_key (ev_ID (pr_ev p))" "admit_tx st e x (admission_key (ev_ID (pr_ev p))) p" x for st e x p
  by unfold_locales (use admit_tx_hours [OF _ _ _ refl] in blast)

interpretation log_marks: audit_hours key "log_tx st e x key w p" x for st e x key w p
  by unfold_locales (use log_tx_hours in blast)

interpretation enrich_marks: audit_hours "admission_key uid" "enrich_tx st e x (admission_key uid) uid ev" x for st e x uid ev
  by unfold_locales (use enrich_tx_hours in blast)

interpretation materialize_marks: audit_hours key "materialize_tx st e x key" x for st e x key
  by unfold_locales (use materialize_tx_hours in blast)

interpretation drop_marks: audit_hours key drop_tx x for key x
  by unfold_locales (auto simp: drop_tx_def hours_pre_def)

subsection \<open>Runs with clocks\<close>

text \<open>
  A run of the database with the time of its last step by the clock of the database, which does not go
  back; the clock of the process is at most \<^verbatim>\<open>rollupClockSkew\<close> behind it. The sweep of old totals may
  run at any time.
\<close>

inductive timed_run :: "site \<Rightarrow> gotime \<Rightarrow> audit_db \<Rightarrow> bool" for st where
  timed_start: "timed_run st t (empty_db\<lparr>db_silences_ready := a, db_rollups_ready := b\<rparr>)"
| timed_step: "timed_run st t db \<Longrightarrow> audit_step st x db db' \<Longrightarrow> t \<le> x_dbnow x \<Longrightarrow> x_dbnow x \<le> x_now x + rollupClockSkew
    \<Longrightarrow> timed_run st (x_dbnow x) db'"
| timed_sweep: "timed_run st t db \<Longrightarrow> timed_run st t (sweepAuditRollups x db)"

definition exact_hours :: "gotime \<Rightarrow> audit_db \<Rightarrow> bool" where
  "exact_hours t db \<longleftrightarrow> (\<forall>u\<in>set (db_hourly db). hr_hour u mod hour = 0) \<and> (\<forall>h\<in>set (db_marks db). h mod hour = 0 \<and> h + hour + rollupSettle \<le> t \<and> db_rollups_ready db
      \<and> filter (\<lambda>u. hr_hour u = h) (db_hourly db) = hour_totals h db)"

lemma keeps_exact:
  assumes "keeps_hours x db db'" "exact_hours t db" "t \<le> x_dbnow x" "x_dbnow x \<le> x_now x + rollupClockSkew"
  shows "exact_hours (x_dbnow x) db'"
  unfolding exact_hours_def
proof (rule conjI, use assms(1,2) in \<open>simp add: keeps_hours_def exact_hours_def\<close>, rule ballI)
  fix h assume h: "h \<in> set (db_marks db')"
  then have "h \<in> set (db_marks db)" using assms(1) by (auto simp: keeps_hours_def)
  then have e: "h mod hour = 0" "h + hour + rollupSettle \<le> t" "db_rollups_ready db"
    "filter (\<lambda>u. hr_hour u = h) (db_hourly db) = hour_totals h db"
    using assms(2) by (simp_all add: exact_hours_def)
  have "rollupBuildable h (x_now x)" unfolding rollupBuildable_def not_less using e(2) assms(3,4) by linarith
  then have "hour_view h (db_events db') = hour_view h (db_events db)" using assms(1) h e(1,3) by (simp add: keeps_hours_def)
  then have "hour_totals h db' = hour_totals h db" by (rule hour_totals_cong)
  then show "h mod hour = 0 \<and> h + hour + rollupSettle \<le> x_dbnow x \<and> db_rollups_ready db'
      \<and> filter (\<lambda>u. hr_hour u = h) (db_hourly db') = hour_totals h db'"
    using e assms(1,3) by (auto simp: keeps_hours_def)
qed

lemma hour_totals_hour: "filter (\<lambda>u. hr_hour u = h') (hour_totals h db) = (if h' = h then hour_totals h db else [])"
  by (auto simp: hour_totals_def Let_def filter_map o_def)

lemma rebuild_exact:
  assumes "exact_hours t db" "db_rollups_ready db" "h mod hour = 0" "h + hour + rollupSettle \<le> t'" "t \<le> t'"
  shows "exact_hours t' (rebuildRollupHour h db)"
  unfolding exact_hours_def
proof (rule conjI, use assms(1,3) in \<open>force simp: rebuildRollupHour_def exact_hours_def hour_totals_def Let_def\<close>, rule ballI)
  fix h' assume m: "h' \<in> set (db_marks (rebuildRollupHour h db))"
  have tot: "hour_totals h'' (rebuildRollupHour h db) = hour_totals h'' db" for h''
    by (rule hour_totals_cong) (simp add: rebuildRollupHour_def)
  show "h' mod hour = 0 \<and> h' + hour + rollupSettle \<le> t' \<and> db_rollups_ready (rebuildRollupHour h db)
      \<and> filter (\<lambda>u. hr_hour u = h') (db_hourly (rebuildRollupHour h db)) = hour_totals h' (rebuildRollupHour h db)"
  proof (cases "h' = h")
    case True
    then show ?thesis using assms(2-4) tot by (simp add: rebuildRollupHour_def hour_totals_hour)
  next
    case False
    then have "h' \<in> set (db_marks db)" using m by (auto simp: rebuildRollupHour_def split: if_splits)
    then have e: "h' mod hour = 0" "h' + hour + rollupSettle \<le> t" "filter (\<lambda>u. hr_hour u = h') (db_hourly db) = hour_totals h' db"
      using assms(1) by (auto simp: exact_hours_def)
    have "filter (\<lambda>u. hr_hour u = h') (filter (\<lambda>u. hr_hour u \<noteq> h) (db_hourly db)) = filter (\<lambda>u. hr_hour u = h') (db_hourly db)"
      using False by (auto intro: filter_cong)
    then show ?thesis using e False assms(2,5) tot by (simp add: rebuildRollupHour_def hour_totals_hour)
  qed
qed

lemma delete_silence_hours:
  "keeps_hours x db (snd (DeleteAuditSilence x i db)) \<and> rows_evolve db (snd (DeleteAuditSilence x i db))"
proof -
  have u: "unsilenceEvents x i db = invalidateRollupHours x (map ae_ts (filter (unsilenced i db) (db_events db)))
      (update_rows (unsilenced i db) (\<lambda>r. r\<lparr>ae_silenced := False\<rparr>) db)"
    by (simp add: unsilenceEvents_def update_rows_def)
  have k: "keeps_hours x db (unsilenceEvents x i db)" unfolding u by (rule update_hours) auto
  have "db_events (unsilenceEvents x i db) = map (\<lambda>r. if unsilenced i db r then r\<lparr>ae_silenced := False\<rparr> else r) (db_events db)"
    by (simp add: unsilenceEvents_def invalidateRollupHours_def dropRollupMarks_def Let_def)
  then have v: "rows_evolve db (unsilenceEvents x i db)" by (rule rows_evolve_map [rotated]) (simp add: evolves_def)
  have d: "keeps_hours x d (delete_silence i d) \<and> rows_evolve d (delete_silence i d)" for d
    by (intro conjI keeps_hours_frame rows_evolve_refl) (simp_all add: delete_silence_def)
  show ?thesis unfolding DeleteAuditSilence_def snd_conv using k v d keeps_hours_trans rows_evolve_trans by presburger
qed

lemma audit_step_hours:
  assumes "audit_step st x db db'" "effects_once db" "keyed db" "exact_hours t db" "t \<le> x_dbnow x" "x_dbnow x \<le> x_now x + rollupClockSkew"
  shows "keyed db' \<and> exact_hours (x_dbnow x) db'"
proof -
  have untouched: "keeps_hours x db d \<and> keyed d" if "db_hourly d = db_hourly db" "db_rollups_ready d = db_rollups_ready db"
    "db_marks d = db_marks db" "db_events d = db_events db" for d
    using that assms(3) by (intro conjI keeps_hours_frame) (simp_all add: keyed_def)
  have "keeps_hours x db db' \<and> keyed db'
      \<or> (\<exists>h. db_rollups_ready db \<and> h mod hour = 0 \<and> h + hour + rollupSettle \<le> x_dbnow x \<and> db' = rebuildRollupHour h db)"
    using assms(1)
  proof cases
    case (admit key p e)
    then show ?thesis using admit_marks.transaction_hours [OF assms(2,3)] by blast
  next
    case (logged key e w p)
    then show ?thesis using log_marks.transaction_hours [OF assms(2,3)] by blast
  next
    case (enriched key uid e ev)
    then show ?thesis using enrich_marks.transaction_hours [OF assms(2,3)] by blast
  next
    case (materialized key e)
    then show ?thesis using materialize_marks.transaction_hours [OF assms(2,3)] by blast
  next
    case (dropped key)
    then show ?thesis using drop_marks.transaction_hours [OF assms(2,3)] by blast
  next
    case (silence serial s d)
    show ?thesis unfolding silence by (rule disjI1, rule untouched) (auto simp: CreateAuditSilence_def Let_def split: sum.splits)
  next
    case (unsilence i)
    show ?thesis unfolding unsilence by (rule disjI1, rule untouched) (auto simp: EndAuditSilence_def Let_def)
  next
    case (forget_silence i)
    then show ?thesis using delete_silence_hours keyed_evolve assms(3) by blast
  next
    case (rollup h)
    then show ?thesis by (intro disjI2 exI [of _ h] conjI)
  qed
  then show ?thesis
  proof
    assume "keeps_hours x db db' \<and> keyed db'"
    then show ?thesis using keeps_exact assms(4-6) by blast
  next
    assume "\<exists>h. db_rollups_ready db \<and> h mod hour = 0 \<and> h + hour + rollupSettle \<le> x_dbnow x \<and> db' = rebuildRollupHour h db"
    then obtain h where h: "db_rollups_ready db" "h mod hour = 0" "h + hour + rollupSettle \<le> x_dbnow x" "db' = rebuildRollupHour h db" by (elim exE conjE)
    have "keyed db'" using assms(3) h(4) by (simp add: keyed_def rebuildRollupHour_def)
    then show ?thesis using rebuild_exact [OF assms(4) h(1-3) assms(5)] h(4) by simp
  qed
qed

lemma sweep_rollups_fields:
  "same_reports db (sweepAuditRollups x db)" "db_events (sweepAuditRollups x db) = db_events db"
  by (simp_all add: sweepAuditRollups_def same_reports_def all_keys_def uids_def Let_def)

lemma sweep_rollups_exact:
  assumes "exact_hours t db"
  shows "exact_hours t (sweepAuditRollups x db)"
proof (cases "db_rollups_ready db")
  case False
  with assms show ?thesis by (simp add: sweepAuditRollups_def)
next
  case True
  let ?l = "x_dbnow x - x_retention x"
  have s: "db_hourly (sweepAuditRollups x db) = filter (\<lambda>u. \<not> hr_hour u < ?l) (db_hourly db)"
    "db_marks (sweepAuditRollups x db) = filter (\<lambda>h. \<not> h < ?l) (db_marks db)" "db_rollups_ready (sweepAuditRollups x db)"
    using True by (simp_all add: sweepAuditRollups_def Let_def)
  have t: "hour_totals h (sweepAuditRollups x db) = hour_totals h db" for h by (rule hour_totals_cong) (simp add: sweep_rollups_fields)
  have f: "filter (\<lambda>u. hr_hour u = h) (filter (\<lambda>u. \<not> hr_hour u < ?l) us) = filter (\<lambda>u. hr_hour u = h) us" if "\<not> h < ?l" for h us
    using that by (induction us) auto
  show ?thesis unfolding exact_hours_def
  proof (rule conjI, use assms in \<open>simp add: s(1) exact_hours_def\<close>, rule ballI)
    fix h assume "h \<in> set (db_marks (sweepAuditRollups x db))"
    then have h: "h \<in> set (db_marks db)" "\<not> h < ?l" by (simp_all add: s)
    show "h mod hour = 0 \<and> h + hour + rollupSettle \<le> t \<and> db_rollups_ready (sweepAuditRollups x db)
        \<and> filter (\<lambda>u. hr_hour u = h) (db_hourly (sweepAuditRollups x db)) = hour_totals h (sweepAuditRollups x db)"
      unfolding s(1) t f [OF h(2)] using assms h(1) s(3) by (simp add: exact_hours_def)
  qed
qed

lemma timed_run_exact: "timed_run st t db \<Longrightarrow> effects_once db \<and> keyed db \<and> exact_hours t db"
proof (induction rule: timed_run.induct)
  case (timed_start t a b)
  then show ?case using audit_run_once [OF audit_run.start] by (simp add: keyed_def exact_hours_def empty_db_def)
next
  case (timed_step t db x db')
  then show ?case using audit_step_once audit_step_hours by blast
next
  case (timed_sweep t db x)
  then show ?case using same_reports_once [OF sweep_rollups_fields(1)] sweep_rollups_exact by (simp add: keyed_def sweep_rollups_fields)
qed

text \<open>The sum over the groups of an hour counts its rows.\<close>

lemma count_groups:
  "set (map f rs) \<subseteq> set gs \<Longrightarrow> distinct gs \<Longrightarrow> (\<Sum>g\<leftarrow>filter P gs. length (filter (\<lambda>r. f r = g) rs)) = length (filter (\<lambda>r. P (f r)) rs)"
proof (induction gs arbitrary: rs)
  case Nil
  then show ?case by simp
next
  case (Cons g gs)
  let ?rs = "filter (\<lambda>r. f r \<noteq> g) rs"
  have "(\<Sum>g\<leftarrow>filter P gs. length (filter (\<lambda>r. f r = g) ?rs)) = length (filter (\<lambda>r. P (f r)) ?rs)"
    using Cons.prems by (intro Cons.IH) auto
  moreover have "(\<Sum>g\<leftarrow>filter P gs. length (filter (\<lambda>r. f r = g) ?rs)) = (\<Sum>g\<leftarrow>filter P gs. length (filter (\<lambda>r. f r = g) rs))"
    using Cons.prems(2) by (intro arg_cong [of _ _ sum_list] map_cong refl) (auto simp: conj_commute intro!: arg_cong [of _ _ length] filter_cong)
  moreover have "length (filter (\<lambda>r. P (f r)) rs) = length (filter (\<lambda>r. P (f r)) ?rs) + (if P g then length (filter (\<lambda>r. f r = g) rs) else 0)"
    by (induction rs) auto
  ultimately show ?case by simp
qed

lemma hour_totals_count:
  "(\<Sum>u\<leftarrow>filter (\<lambda>u. P (hr_user u, hr_allowed u, hr_danger u)) (hour_totals h db). hr_events u)
     = length (filter (\<lambda>r. P (row_group r)) (hour_rows h db))"
  using count_groups [of row_group "hour_rows h db" "remdups (map row_group (hour_rows h db))" P]
  by (simp add: hour_totals_def Let_def filter_map o_def)

lemma exact_hours_count:
  assumes "exact_hours t db" "h \<in> set (db_marks db)"
  shows "(\<Sum>u\<leftarrow>filter (\<lambda>u. hr_hour u = h \<and> P (hr_user u, hr_allowed u, hr_danger u)) (db_hourly db). hr_events u)
     = length (filter (\<lambda>r. P (row_group r)) (hour_rows h db))"
proof -
  have "filter (\<lambda>u. hr_hour u = h \<and> P (hr_user u, hr_allowed u, hr_danger u)) (db_hourly db)
      = filter (\<lambda>u. P (hr_user u, hr_allowed u, hr_danger u)) (filter (\<lambda>u. hr_hour u = h) (db_hourly db))"
    by (simp add: conj_commute)
  also have "filter (\<lambda>u. hr_hour u = h) (db_hourly db) = hour_totals h db" using assms by (simp add: exact_hours_def)
  finally show ?thesis by (simp add: hour_totals_count)
qed

subsection \<open>The refresh builds only settled hours\<close>

lemma hours_between_iff: "h \<in> set (hours_between a b) \<longleftrightarrow> a \<le> h \<and> h \<le> b \<and> (h - a) mod hour = 0"
proof -
  let ?n = "(b - a) div hour"
  have n: "int i \<le> ?n \<longleftrightarrow> a + int i * hour \<le> b" for i :: nat
  proof -
    have "?n * hour + (b - a) mod hour = b - a" "0 \<le> (b - a) mod hour" "(b - a) mod hour < hour" by simp_all
    then show ?thesis by linarith
  qed
  show ?thesis
  proof
    assume "h \<in> set (hours_between a b)"
    then have ab: "a \<le> b" "h \<in> (\<lambda>i. a + int i * hour) ` set [0..<nat ?n + 1]" by (simp_all add: hours_between_def del: upt_Suc split: if_splits)
    from ab(2) obtain i where "h = a + int i * hour" "i \<in> set [0..<nat ?n + 1]" by (rule imageE)
    with ab(1) have i: "h = a + int i * hour" "i \<le> nat ?n" "a \<le> b" by (simp_all only: set_upt atLeastLessThan_iff Suc_eq_plus1 [symmetric] less_Suc_eq_le)
    have "0 \<le> ?n" using i(3) by (simp add: pos_imp_zdiv_nonneg_iff)
    then have "int i \<le> ?n" using i(2) by linarith
    then have "h \<le> b" using n [of i] i(1) by simp
    moreover have "(h - a) mod hour = 0" unfolding i(1) by (simp only: add_diff_cancel_left' mod_mult_self2_is_0)
    ultimately show "a \<le> h \<and> h \<le> b \<and> (h - a) mod hour = 0" using i(1) by linarith
  next
    assume h: "a \<le> h \<and> h \<le> b \<and> (h - a) mod hour = 0"
    let ?i = "nat ((h - a) div hour)"
    have "0 \<le> (h - a) div hour" using h by (simp add: pos_imp_zdiv_nonneg_iff)
    moreover have "(h - a) div hour * hour = h - a" using h div_mult_mod_eq [of "h - a" hour] by linarith
    ultimately have i: "h = a + int ?i * hour" by simp
    then have "int ?i \<le> ?n" using n [of ?i] h by simp
    then have "?i < nat ?n + 1" by linarith
    then have "h \<in> (\<lambda>i. a + int i * hour) ` set [0..<nat ?n + 1]" using i by (intro image_eqI [of _ _ ?i]) (simp_all only: set_upt atLeastLessThan_iff zero_le)
    then show "h \<in> set (hours_between a b)" using h by (simp add: hours_between_def del: upt_Suc)
  qed
qed

lemma hourOf_dvd: "hour dvd hourOf t"
  unfolding hourOf_def by (rule dvd_minus_mod)

lemma rollup_tasks_settled:
  assumes "h \<in> set (rollup_tasks x db)"
  shows "h mod hour = 0 \<and> h + hour + rollupSettle \<le> x_dbnow x"
proof -
  let ?a = "hourOf (x_dbnow x - x_retention x) + hour" and ?b = "hourOf (x_dbnow x - rollupSettle) - hour"
  have h: "h \<in> set (hours_between ?a ?b)" using assms unfolding rollup_tasks_def Let_def
    by (auto split: if_splits dest!: in_set_takeD)
  then have le: "h \<le> ?b" and off: "(h - ?a) mod hour = 0" unfolding hours_between_iff by blast+
  have "hourOf t \<le> t" for t unfolding hourOf_def using pos_mod_sign [of hour t] by linarith
  from this [of "x_dbnow x - rollupSettle"] have "h + hour + rollupSettle \<le> x_dbnow x" using le by linarith
  moreover have "hour dvd ?a" by (intro dvd_add hourOf_dvd dvd_refl)
  then have "hour dvd (h - ?a) + ?a" using off by (intro dvd_add) (simp_all add: dvd_eq_mod_eq_0)
  then have "h mod hour = 0" by (simp add: dvd_eq_mod_eq_0)
  ultimately show ?thesis by (rule conjI [rotated])
qed

lemma rebuild_ready: "db_rollups_ready (rebuildRollupHour h db) = db_rollups_ready db"
  by (simp add: rebuildRollupHour_def)

lemma refresh_loop_timed:
  "timed_run st t db \<Longrightarrow> db_rollups_ready db \<Longrightarrow> (\<And>h. h \<in> set hs \<Longrightarrow> h mod hour = 0 \<and> h + hour + rollupSettle \<le> t)
   \<Longrightarrow> (\<And>x. x \<in> set xs \<Longrightarrow> x_dbnow x \<le> x_now x + rollupClockSkew) \<Longrightarrow> sorted (t # map x_dbnow xs)
   \<Longrightarrow> \<exists>t'. timed_run st t' (snd (refresh_loop hs xs n db))"
proof (induction hs xs n db arbitrary: t rule: refresh_loop.induct)
  case (3 h hs x xs n db)
  have h: "h mod hour = 0" "h + hour + rollupSettle \<le> t" using 3(4) [of h] by simp_all
  have x: "t \<le> x_dbnow x" "x_dbnow x \<le> x_now x + rollupClockSkew" "sorted (x_dbnow x # map x_dbnow xs)" using 3(5) [of x] 3(6) by simp_all
  have hx: "h + hour + rollupSettle \<le> x_dbnow x" using h(2) x(1) by linarith
  have step: "timed_run st (x_dbnow x) (rebuildRollupHour h db)"
    by (rule timed_step [OF 3(2) _ x(1,2)]) (rule audit_step.rollup [OF 3(3) h(1) hx])
  have "\<exists>t'. timed_run st t' (snd (refresh_loop hs xs (n + 1) (rebuildRollupHour h db)))" if "x_outcome x = TxCommitted"
  proof (rule 3(1) [OF that step])
    show "db_rollups_ready (rebuildRollupHour h db)" using 3(3) by (simp add: rebuild_ready)
    show "sorted (x_dbnow x # map x_dbnow xs)" by (rule x(3))
    show "h' mod hour = 0 \<and> h' + hour + rollupSettle \<le> x_dbnow x" if "h' \<in> set hs" for h'
      using 3(4) [of h'] that x(1) by simp
    show "x_dbnow y \<le> x_now y + rollupClockSkew" if "y \<in> set xs" for y using 3(5) that by simp
  qed
  then show ?case using 3(2) step by (auto split: tx_outcome.splits)
qed auto

text \<open>C7. As long as the clock of the process is at most a minute behind the clock of the database, the hourly
  totals never drift from the events: whatever transactions, silences, rebuilds and sweeps have run, for an hour
  that carries the mark of being built and any choice of users, results and danger, the stored counts of that
  hour add up to the number of unsilenced events with a timestamp in it.\<close>

theorem marked_hours_exact:
  assumes "timed_run st t db" "h \<in> set (db_marks db)"
  shows "(\<Sum>u\<leftarrow>filter (\<lambda>u. hr_hour u = h \<and> P (hr_user u, hr_allowed u, hr_danger u)) (db_hourly db). hr_events u)
     = length (filter (\<lambda>r. h \<le> ae_ts r \<and> ae_ts r < h + hour \<and> \<not> ae_silenced r \<and> P (row_group r)) (db_events db))"
proof -
  have "exact_hours t db" using timed_run_exact [OF assms(1)] by blast
  from exact_hours_count [OF this assms(2), of P] show ?thesis by (simp only: hour_rows_def filter_filter conj_assoc conj_commute [of "P _"])
qed

definition sample_rollup :: audit_db where
  "sample_rollup = rebuildRollupHour (999 * hour) (sample_step empty_db)"

lemma sample_rollup_run: "timed_run sample_site (1001 * hour) sample_rollup"
proof -
  let ?x = "sample_env\<lparr>x_now := 1001 * hour, x_dbnow := 1001 * hour\<rparr>"
  have k: "admission_key ''a1'' = admission_key (ev_ID (pr_ev sample_prepared))" by (simp add: sample_prepared_def sample_event_def zero_Event_def)
  have s: "empty_db = empty_db\<lparr>db_silences_ready := True, db_rollups_ready := True\<rparr>" by (simp add: empty_db_def)
  have "timed_run sample_site 0 empty_db" by (subst s) (rule timed_run.timed_start)
  then have "timed_run sample_site (x_dbnow sample_env) (sample_step empty_db)" unfolding sample_step_def
    by (rule timed_step [OF _ audit_step.admit [OF k]]) (simp_all add: sample_env_def rollupClockSkew_def)
  then have r: "timed_run sample_site (1000 * hour) (sample_step empty_db)" by (simp add: sample_env_def)
  have ready: "db_rollups_ready (sample_step empty_db)" by code_simp
  have "timed_run sample_site (x_dbnow ?x) sample_rollup" unfolding sample_rollup_def
    by (rule timed_step [OF r audit_step.rollup [OF ready]]) (simp_all add: rollupClockSkew_def rollupSettle_def)
  then show ?thesis by simp
qed

theorem marked_hours_exact_witness:
  "999 * hour \<in> set (db_marks sample_rollup)
   \<and> (\<Sum>u\<leftarrow>filter (\<lambda>u. hr_hour u = 999 * hour \<and> fst (hr_user u, hr_allowed u, hr_danger u) = ''alice'') (db_hourly sample_rollup). hr_events u) = 1"
proof -
  have m: "999 * hour \<in> set (db_marks sample_rollup)" by (simp add: sample_rollup_def rebuildRollupHour_def)
  have "length (filter (\<lambda>r. 999 * hour \<le> ae_ts r \<and> ae_ts r < 999 * hour + hour \<and> \<not> ae_silenced r \<and> fst (row_group r) = ''alice'') (db_events sample_rollup)) = 1"
    by code_simp
  then show ?thesis using m marked_hours_exact [OF sample_rollup_run m, of "\<lambda>g. fst g = ''alice''"] by simp
qed

end
