(* ===== verification/Audit_Query.thy ===== *)
theory Audit_Query
  imports Audit_Rollup
begin

section \<open>Searching audit events (kvisior/internal/store/{audit,auditsearch,auditrollup}.go)\<close>

text \<open>
  The audit page searches the stored events, draws a histogram and groups them by user or object. A plain
  SQL query would do; the code avoids it for long ranges: it resolves a part of a user name to the users of
  the hourly totals, walks back in growing windows until the page is full, and adds up whole hours from the
  totals. Shown: none of this changes what is returned.

  A SQL condition is a predicate on rows, \<^verbatim>\<open>LIKE\<close> is PostgreSQL's, strings compare as in the \<^verbatim>\<open>C\<close> locale,
  and times reach the database in microseconds (\<^const>\<open>pg_time\<close>). A failing read returns its error and
  nothing else and is left out. The sample of at most six addresses or users of a group is left out.
\<close>

subsection \<open>LIKE\<close>

fun like :: "string \<Rightarrow> string \<Rightarrow> bool" where
  "like [] t = (t = [])"
| "like (c # p) t =
     (if c = CHR ''%'' then like p t \<or> (case t of [] \<Rightarrow> False | _ # t' \<Rightarrow> like (c # p) t')
      else case t of [] \<Rightarrow> False
        | x # t' \<Rightarrow>
            if c = CHR 0x5C then (case p of [] \<Rightarrow> False | d # p' \<Rightarrow> x = d \<and> like p' t')
            else (c = CHR ''_'' \<or> x = c) \<and> like p t')"

definition ilike :: "string \<Rightarrow> string \<Rightarrow> bool" where
  "ilike p t = like (to_lower p) (to_lower t)"

definition like_special :: "char \<Rightarrow> bool" where
  "like_special c \<longleftrightarrow> c = CHR 0x5C \<or> c = CHR ''%'' \<or> c = CHR ''_''"

definition likeEscape :: "string \<Rightarrow> string" where
  "likeEscape s = concat (map (\<lambda>c. if like_special c then [CHR 0x5C, c] else [c]) s)"

lemma like_percent: "like (CHR ''%'' # p) t \<longleftrightarrow> (\<exists>u v. t = u @ v \<and> like p v)"
proof (induction t)
  case Nil
  then show ?case by simp
next
  case (Cons x t)
  have "like (CHR ''%'' # p) (x # t) \<longleftrightarrow> like p (x # t) \<or> like (CHR ''%'' # p) t" by simp
  also have "\<dots> \<longleftrightarrow> (\<exists>u v. x # t = u @ v \<and> like p v)"
    unfolding Cons.IH by (metis append_Cons append_Nil append_eq_Cons_conv)
  finally show ?case .
qed

lemma like_escape: "like (likeEscape s @ p) t \<longleftrightarrow> (\<exists>v. t = s @ v \<and> like p v)"
proof (induction s arbitrary: t)
  case Nil
  then show ?case by (simp add: likeEscape_def)
next
  case (Cons c s)
  have "like (likeEscape (c # s) @ p) t \<longleftrightarrow> (\<exists>t'. t = c # t' \<and> like (likeEscape s @ p) t')"
  proof (cases "like_special c")
    case True
    then have "likeEscape (c # s) @ p = CHR 0x5C # c # likeEscape s @ p" by (simp add: likeEscape_def)
    then show ?thesis by (cases t) auto
  next
    case False
    then have "likeEscape (c # s) @ p = c # likeEscape s @ p" by (simp add: likeEscape_def)
    then show ?thesis using False by (cases t) (auto simp: like_special_def)
  qed
  then show ?case using Cons.IH by auto
qed

declare like.simps(2) [simp del]

lemma like_all: "like ''%'' t"
  by (auto simp: like_percent)

lemma like_prefix: "like (likeEscape s @ ''%'') t \<longleftrightarrow> prefix s t"
  by (auto simp: like_escape like_all prefix_def)

lemma lower_special: "like_special (lower_char c) = like_special c"
proof -
  have "lower_char c = d \<longleftrightarrow> c = d" if "90 < (of_char d :: nat)" "(of_char d :: nat) < 97" for d
    using that of_char_lower_char [of c] by (auto simp: lower_char_def Let_def split: if_splits)
  from this [of "CHR 0x5C"] this [of "CHR ''_''"] show ?thesis
    unfolding like_special_def by (simp add: lower_char_eq_nonletter)
qed

lemma lower_escape: "to_lower (likeEscape s) = likeEscape (to_lower s)"
proof -
  have same: "like_special c \<Longrightarrow> lower_char c = c" for c by (auto simp: like_special_def lower_char_def)
  have "lower_char (CHR 0x5C) = CHR 0x5C" by (simp add: lower_char_def)
  then show ?thesis by (induction s) (auto simp: likeEscape_def to_lower_def lower_special same)
qed

lemma ilike_contains: "ilike (''%'' @ likeEscape s @ ''%'') t \<longleftrightarrow> contains (to_lower t) (to_lower s)"
proof -
  have "lower_char (CHR ''%'') = CHR ''%''" by (simp add: lower_char_def)
  then have "to_lower (''%'' @ likeEscape s @ ''%'') = CHR ''%'' # likeEscape (to_lower s) @ ''%''"
    using lower_escape by (simp add: to_lower_def)
  then show ?thesis by (simp add: ilike_def like_percent like_escape like_all contains_iff) blast
qed

subsection \<open>Queries\<close>

record AuditEventQuery =
  aq_From :: gotime
  aq_To :: gotime
  aq_User :: string
  aq_Namespace :: string
  aq_Kind :: string
  aq_Resource :: string
  aq_SourceIP :: string
  aq_Result :: string
  aq_Search :: string
  aq_DangerOnly :: bool
  aq_Object :: "(string \<times> string \<times> string) option"
  aq_BeforeTs :: gotime
  aq_BeforeID :: int
  aq_Limit :: int
  aq_users :: "string list option"

text \<open>\<^verbatim>\<open>userResultFilters\<close> on the user, the result and the danger of a row or of an hourly total.\<close>

definition userResultFilters :: "AuditEventQuery \<Rightarrow> string \<times> bool \<times> bool \<Rightarrow> bool" where
  "userResultFilters q g =
     (case g of (user, allowed, danger) \<Rightarrow>
        (case aq_users q of
           Some us \<Rightarrow> user \<in> set us
         | None \<Rightarrow> aq_User q \<noteq> [] \<longrightarrow> ilike (''%'' @ likeEscape (aq_User q) @ ''%'') user)
        \<and> (aq_Result q = ResultAllowed \<longrightarrow> allowed)
        \<and> (aq_Result q = ResultDenied \<longrightarrow> \<not> allowed)
        \<and> (aq_DangerOnly q \<longrightarrow> danger))"

definition sql_text :: "string option \<Rightarrow> (string \<Rightarrow> bool) \<Rightarrow> bool" where
  "sql_text v P = (case v of None \<Rightarrow> False | Some s \<Rightarrow> P s)"

definition in_range :: "AuditEventQuery \<Rightarrow> gotime \<Rightarrow> bool" where
  "in_range q ts \<longleftrightarrow> (aq_From q \<noteq> 0 \<longrightarrow> pg_time (aq_From q) \<le> ts) \<and> (aq_To q \<noteq> 0 \<longrightarrow> ts \<le> pg_time (aq_To q))"

definition field_filters :: "AuditEventQuery \<Rightarrow> audit_row \<Rightarrow> bool" where
  "field_filters q r \<longleftrightarrow>
     (aq_Namespace q \<noteq> [] \<longrightarrow> ae_ns r = aq_Namespace q)
     \<and> (aq_Kind q \<noteq> [] \<longrightarrow> ae_kind r = aq_Kind q)
     \<and> (aq_Resource q \<noteq> [] \<longrightarrow> like (likeEscape (to_lower (aq_Resource q)) @ ''%'') (ae_resource r))
     \<and> (aq_SourceIP q \<noteq> [] \<longrightarrow> sql_text (ae_source_ip r) (like (likeEscape (aq_SourceIP q) @ ''%'')))
     \<and> (case aq_Object q of None \<Rightarrow> True
        | Some (resource, ns, name) \<Rightarrow> ae_resource r = resource \<and> ae_ns r = ns \<and> ae_name r = name)
     \<and> (aq_Search q \<noteq> [] \<longrightarrow>
          (let p = ilike (''%'' @ likeEscape (aq_Search q) @ ''%'') in
           p (ae_user r) \<or> p (ae_name r) \<or> p (ae_ns r) \<or> p (ae_resource r) \<or> sql_text (ae_source_ip r) p \<or> p (ae_kind r)))"

definition auditWhere :: "audit_db \<Rightarrow> AuditEventQuery \<Rightarrow> audit_row \<Rightarrow> bool" where
  "auditWhere db q r \<longleftrightarrow> in_range q (ae_ts r) \<and> field_filters q r \<and> userResultFilters q (row_group r) \<and> shown db r"

subsection \<open>Windows\<close>

definition auditWindowFirst :: duration where "auditWindowFirst = 6 * hour"
definition auditWindowGrowth :: int where "auditWindowGrowth = 3"
definition auditWindowMinSpan :: duration where "auditWindowMinSpan = 24 * hour"

lemma window_size_pos: "0 < auditWindowFirst * auditWindowGrowth ^ k"
  by (simp add: auditWindowFirst_def auditWindowGrowth_def)

text \<open>The loop of \<^verbatim>\<open>auditWindows\<close>; in turn \<open>k\<close> the size is the first size times the growth to the power \<open>k\<close>.\<close>

function window_loop :: "gotime \<Rightarrow> gotime \<Rightarrow> nat \<Rightarrow> (gotime \<times> gotime) list" where
  "window_loop lo cur k =
     (if cur < lo then []
      else let from = max lo (cur - auditWindowFirst * auditWindowGrowth ^ k) in
        (from, cur) # window_loop lo (from - 1000) (Suc k))"
  by auto

termination
proof (relation "measure (\<lambda>(lo, cur, k). nat (cur - lo + 1))")
  fix lo cur :: gotime and k w
  assume "\<not> cur < lo" "w = max lo (cur - auditWindowFirst * auditWindowGrowth ^ k)"
  moreover have "w \<le> cur" using calculation window_size_pos [of k] by linarith
  ultimately show "((lo, w - 1000, Suc k), lo, cur, k) \<in> measure (\<lambda>(lo, cur, k). nat (cur - lo + 1))" by simp
qed simp

declare window_loop.simps [simp del]

definition window_upper :: "AuditEventQuery \<Rightarrow> gotime" where
  "window_upper q = (if aq_BeforeTs q \<noteq> 0 \<and> (aq_To q = 0 \<or> aq_BeforeTs q < aq_To q) then aq_BeforeTs q else aq_To q)"

definition auditWindows :: "AuditEventQuery \<Rightarrow> (gotime \<times> gotime) list" where
  "auditWindows q =
     (let upper = window_upper q in
      if aq_From q = 0 \<or> upper = 0 \<or> upper - aq_From q \<le> auditWindowMinSpan then [(aq_From q, aq_To q)]
      else window_loop (aq_From q) upper 0)"

subsection \<open>Pages\<close>

definition newest_first :: "audit_db \<Rightarrow> audit_row list" where
  "newest_first db = rev (sort_key ae_ts (sort_key ae_id (db_events db)))"

definition before_cursor :: "AuditEventQuery \<Rightarrow> audit_row \<Rightarrow> bool" where
  "before_cursor q r \<longleftrightarrow> (aq_BeforeTs q \<noteq> 0 \<longrightarrow>
     ae_ts r < pg_time (aq_BeforeTs q) \<or> ae_ts r = pg_time (aq_BeforeTs q) \<and> int (ae_id r) < aq_BeforeID q)"

definition queried_row :: "audit_row \<Rightarrow> AuditEventRow" where
  "queried_row r = \<lparr>ar_ID = ae_id r, ar_Ts = ae_ts r,
     ar_RuleID = (case ae_rule_id r of None \<Rightarrow> [] | Some s \<Rightarrow> s), ar_Sev = (case ae_sev r of None \<Rightarrow> [] | Some s \<Rightarrow> s),
     ar_Origin = ae_origin r, ar_Data = ae_data r, ar_Silenced = False, ar_NewlySilenced = False\<rparr>"

definition queryAuditWindow :: "audit_db \<Rightarrow> AuditEventQuery \<Rightarrow> nat \<Rightarrow> AuditEventRow list" where
  "queryAuditWindow db q limit = map queried_row (take limit (filter (\<lambda>r. auditWhere db q r \<and> before_cursor q r) (newest_first db)))"

fun query_loop :: "audit_db \<Rightarrow> AuditEventQuery \<Rightarrow> nat \<Rightarrow> (gotime \<times> gotime) list \<Rightarrow> AuditEventRow list \<Rightarrow> AuditEventRow list" where
  "query_loop db q limit [] out = out"
| "query_loop db q limit ((from, to) # ws) out =
     (let out' = out @ queryAuditWindow db (q\<lparr>aq_From := from, aq_To := to\<rparr>) (limit - length out) in
      if limit \<le> length out' then out' else query_loop db q limit ws out')"

subsection \<open>Users of a part of a name\<close>

definition auditUserCandidates :: nat where "auditUserCandidates = 1000"
definition auditUserRawHoursMax :: nat where "auditUserRawHoursMax = 6"
definition auditUserCacheTTL :: duration where "auditUserCacheTTL = minute"

type_synonym rolled_key = "string \<times> gotime \<times> gotime \<times> gotime list"
type_synonym user_cache = "(rolled_key \<times> string list \<times> gotime) list"

definition fresh_users :: "gotime \<Rightarrow> rolled_key \<Rightarrow> user_cache \<Rightarrow> string list option" where
  "fresh_users now key cache =
     (case map_of cache key of
        Some (users, t) \<Rightarrow> if now - t < auditUserCacheTTL then Some users else None
      | None \<Rightarrow> None)"

definition hourly_users :: "string \<Rightarrow> gotime \<Rightarrow> gotime \<Rightarrow> audit_db \<Rightarrow> string list" where
  "hourly_users pattern a b db =
     remdups (map hr_user (filter (\<lambda>u. a \<le> hr_hour u \<and> hr_hour u \<le> b \<and> ilike pattern (hr_user u)) (db_hourly db)))"

definition rolledUsers :: "gotime \<Rightarrow> string \<Rightarrow> gotime \<Rightarrow> gotime \<Rightarrow> gotime list \<Rightarrow> audit_db \<Rightarrow> user_cache \<Rightarrow> string list \<times> user_cache" where
  "rolledUsers now pattern a b raw db cache =
     (let key = (to_lower pattern, a, b, raw) in
      case fresh_users now key cache of
        Some users \<Rightarrow> (users, cache)
      | None \<Rightarrow> (let users = hourly_users pattern a b db in
          (users, (key, users, now) # filter (\<lambda>(k, _, t). k \<noteq> key \<and> now - t < auditUserCacheTTL) cache)))"

definition raw_users :: "audit_db \<Rightarrow> string \<Rightarrow> gotime \<Rightarrow> string list" where
  "raw_users db pattern h =
     remdups (map ae_user (filter (\<lambda>r. h \<le> ae_ts r \<and> ae_ts r < h + hour \<and> ilike pattern (ae_user r) \<and> shown db r) (db_events db)))"

text \<open>The loop over the hours without totals; \<^verbatim>\<open>None\<close> when there are too many users.\<close>

fun raw_loop :: "audit_db \<Rightarrow> string \<Rightarrow> gotime list \<Rightarrow> string list \<Rightarrow> string list option" where
  "raw_loop db pattern [] seen = (if auditUserCandidates < length seen then None else Some seen)"
| "raw_loop db pattern (h # hs) seen =
     (let seen' = remdups (raw_users db pattern h @ seen) in
      if auditUserCandidates < length seen' then None else raw_loop db pattern hs seen')"

definition resolveAuditUsers :: "gotime \<Rightarrow> AuditEventQuery \<Rightarrow> audit_db \<Rightarrow> user_cache \<Rightarrow> string list option \<times> user_cache" where
  "resolveAuditUsers now q db cache =
     (if aq_From q = 0 \<or> \<not> db_rollups_ready db then (None, cache)
      else let to = (if aq_To q = 0 \<or> now < aq_To q then now else aq_To q);
               a = hourOf (aq_From q); b = hourOf to in
        if b < a then (Some [], cache)
        else let raw = missingRollupHours a b (auditUserRawHoursMax + 1) db in
          if auditUserRawHoursMax < length raw then (None, cache)
          else let pattern = ''%'' @ likeEscape (aq_User q) @ ''%'';
                   (rolled, cache') = rolledUsers now pattern a b raw db cache
               in (raw_loop db pattern raw (remdups rolled), cache'))"

definition page_limit :: "AuditEventQuery \<Rightarrow> nat" where
  "page_limit q = (if aq_Limit q \<le> 0 \<or> 500 < aq_Limit q then 200 else nat (aq_Limit q))"

definition QueryAuditEvents :: "gotime \<Rightarrow> AuditEventQuery \<Rightarrow> audit_db \<Rightarrow> user_cache \<Rightarrow> AuditEventRow list \<times> user_cache" where
  "QueryAuditEvents now q db cache =
     (let (users, cache') = (if aq_User q \<noteq> [] \<and> aq_users q = None then resolveAuditUsers now q db cache else (None, cache)) in
      case users of
        Some [] \<Rightarrow> ([], cache')
      | Some us \<Rightarrow> (query_loop db (q\<lparr>aq_users := Some us\<rparr>) (page_limit q) (auditWindows q) [], cache')
      | None \<Rightarrow> (query_loop db q (page_limit q) (auditWindows q) [], cache'))"

subsection \<open>Windows cover the range\<close>

abbreviation newer :: "audit_row list \<Rightarrow> bool" where
  "newer \<equiv> sorted_wrt (\<lambda>a b. ae_ts b \<le> ae_ts a)"

lemma newest_first_newer: "newer (newest_first db)"
proof -
  have "sorted (map ae_ts (sort_key ae_ts (sort_key ae_id (db_events db))))" by (rule sorted_sort_key)
  then show ?thesis unfolding newest_first_def by (simp add: sorted_wrt_rev sorted_map)
qed

lemma newest_first_set [simp]: "set (newest_first db) = set (db_events db)"
  by (simp add: newest_first_def)

lemma split_newer:
  "newer S \<Longrightarrow> filter (\<lambda>r. P r \<and> m \<le> ae_ts r) S @ filter (\<lambda>r. P r \<and> ae_ts r < m) S = filter P S"
proof (induction S)
  case Nil
  then show ?case by simp
next
  case (Cons r S)
  have "filter (\<lambda>r. P r \<and> m \<le> ae_ts r) S = []" if "ae_ts r < m"
    using Cons.prems that by (auto simp: filter_empty_conv)
  moreover have "filter (\<lambda>r. P r \<and> m \<le> ae_ts r) S @ filter (\<lambda>r. P r \<and> ae_ts r < m) S = filter P S" using Cons by simp
  ultimately show ?case by (cases "P r"; cases "ae_ts r < m") auto
qed

lemma pg_time_dvd: "1000 dvd pg_time t"
  unfolding pg_time_def by (rule dvd_minus_mod)

lemma pg_time_le: "pg_time t \<le> t" "t < pg_time t + 1000"
  unfolding pg_time_def using pos_mod_sign [of 1000 t] pos_mod_bound [of 1000 t] by linarith+

lemma pg_time_step: "pg_time (t - 1000) = pg_time t - 1000"
  unfolding pg_time_def by (simp add: mod_diff_right_eq)

lemma micro_less: "1000 dvd a \<Longrightarrow> 1000 dvd b \<Longrightarrow> a < (b :: int) \<Longrightarrow> a \<le> b - 1000"
proof -
  assume d: "1000 dvd a" "1000 dvd b" and l: "a < b"
  have "1000 dvd b - a" using d by (rule dvd_diff [rotated])
  then have "1000 \<le> b - a" using l by (intro zdvd_imp_le) simp_all
  then show ?thesis by linarith
qed

lemma window_loop_unfold:
  "\<not> cur < lo \<Longrightarrow> window_loop lo cur k =
     (let w = max lo (cur - auditWindowFirst * auditWindowGrowth ^ k) in (w, cur) # window_loop lo (w - 1000) (Suc k))"
  by (subst window_loop.simps) simp

definition aligned :: "gotime \<Rightarrow> gotime \<Rightarrow> bool" where
  "aligned lo cur \<longleftrightarrow> 1000 dvd lo \<or> 1000 dvd (cur - lo)"

lemma aligned_less: "aligned lo cur \<Longrightarrow> cur < lo \<Longrightarrow> pg_time cur < pg_time lo"
proof -
  assume a: "aligned lo cur" and l: "cur < lo"
  show ?thesis
  proof (cases "1000 dvd lo")
    case True
    then have "pg_time lo = lo" by (simp add: pg_time_def dvd_eq_mod_eq_0)
    then show ?thesis using pg_time_le(1) [of cur] l by linarith
  next
    case False
    with a have "1000 dvd lo - cur" unfolding aligned_def by (metis dvd_minus_iff minus_diff_eq)
    then have "1000 \<le> lo - cur" using l by (intro zdvd_imp_le) simp_all
    then show ?thesis using pg_time_le [of cur] pg_time_le [of lo] by linarith
  qed
qed

lemma aligned_next: "aligned lo cur \<Longrightarrow> aligned lo (max lo (cur - auditWindowFirst * auditWindowGrowth ^ k) - 1000)"
proof -
  assume a: "aligned lo cur"
  have s: "(1000 :: int) dvd auditWindowFirst * auditWindowGrowth ^ k" by (simp add: auditWindowFirst_def)
  have "1000 dvd (cur - auditWindowFirst * auditWindowGrowth ^ k - 1000) - lo" if "1000 dvd cur - lo"
  proof -
    have "1000 dvd (cur - lo) - (auditWindowFirst * auditWindowGrowth ^ k + 1000)" using that dvd_add [OF s dvd_refl] by (rule dvd_diff)
    then show ?thesis by (simp add: algebra_simps)
  qed
  then show ?thesis using a unfolding aligned_def by (auto simp: max_def)
qed

lemma window_loop_covers:
  assumes "newer S" "\<forall>r\<in>set S. 1000 dvd ae_ts r" "aligned lo cur"
  shows "concat (map (\<lambda>(a, b). filter (\<lambda>r. P r \<and> pg_time a \<le> ae_ts r \<and> ae_ts r \<le> pg_time b) S) (window_loop lo cur k))
     = filter (\<lambda>r. P r \<and> pg_time lo \<le> ae_ts r \<and> ae_ts r \<le> pg_time cur) S"
  using assms(3)
proof (induction lo cur k rule: window_loop.induct)
  case (1 lo cur k)
  show ?case
  proof (cases "cur < lo")
    case True
    then have "pg_time cur < pg_time lo" using aligned_less 1(2) by blast
    then show ?thesis using True by (auto simp: window_loop.simps filter_empty_conv)
  next
    case False
    let ?w = "max lo (cur - auditWindowFirst * auditWindowGrowth ^ k)"
    let ?Q = "\<lambda>r. P r \<and> pg_time lo \<le> ae_ts r \<and> ae_ts r \<le> pg_time cur"
    have w: "lo \<le> ?w" "?w \<le> cur" using False window_size_pos [of k] by auto
    have mono: "pg_time a \<le> pg_time b" if "a \<le> b" for a b
      using micro_less [OF pg_time_dvd pg_time_dvd, of b a] pg_time_le [of a] pg_time_le [of b] that by linarith
    have gap: "ae_ts r \<le> pg_time (?w - 1000) \<longleftrightarrow> ae_ts r < pg_time ?w" if "r \<in> set S" for r
      using micro_less [OF _ pg_time_dvd, of "ae_ts r" ?w] assms(2) that by (auto simp: pg_time_step)
    have "filter (\<lambda>r. P r \<and> pg_time ?w \<le> ae_ts r \<and> ae_ts r \<le> pg_time cur) S = filter (\<lambda>r. ?Q r \<and> pg_time ?w \<le> ae_ts r) S"
      using mono [OF w(1)] by (intro filter_cong) auto
    moreover have "filter (\<lambda>r. P r \<and> pg_time lo \<le> ae_ts r \<and> ae_ts r \<le> pg_time (?w - 1000)) S = filter (\<lambda>r. ?Q r \<and> ae_ts r < pg_time ?w) S"
      using gap mono [OF w(2)] by (intro filter_cong) auto
    moreover note 1(1) [OF False refl aligned_next [OF 1(2)]]
    ultimately show ?thesis unfolding window_loop_unfold [OF False] Let_def using split_newer [OF assms(1), of ?Q "pg_time ?w"] by simp
  qed
qed

lemma window_loop_range: "(a, b) \<in> set (window_loop lo cur k) \<Longrightarrow> lo \<le> a \<and> lo \<le> b"
proof (induction lo cur k rule: window_loop.induct)
  case (1 lo cur k)
  then show ?case by (cases "cur < lo") (auto simp: window_loop.simps [of lo cur k] Let_def)
qed

subsection \<open>The walk over the windows\<close>

definition window_rows :: "audit_db \<Rightarrow> AuditEventQuery \<Rightarrow> gotime \<times> gotime \<Rightarrow> audit_row list" where
  "window_rows db q w = filter (\<lambda>r. auditWhere db (q\<lparr>aq_From := fst w, aq_To := snd w\<rparr>) r \<and> before_cursor q r) (newest_first db)"

lemma query_loop_take:
  "length out \<le> limit \<Longrightarrow> query_loop db q limit ws out = take limit (out @ map queried_row (concat (map (window_rows db q) ws)))"
proof (induction ws arbitrary: out)
  case Nil
  then show ?case by simp
next
  case (Cons w ws)
  obtain a b where w: "w = (a, b)" by fastforce
  let ?rows = "map queried_row (window_rows db q w)"
  have q: "queryAuditWindow db (q\<lparr>aq_From := a, aq_To := b\<rparr>) (limit - length out) = take (limit - length out) ?rows"
    by (simp add: queryAuditWindow_def window_rows_def w take_map before_cursor_def)
  let ?out = "out @ take (limit - length out) ?rows"
  show ?case
  proof (cases "limit \<le> length ?out")
    case True
    then show ?thesis using Cons.prems by (simp add: w q Let_def)
  next
    case False
    then have all: "?out = out @ ?rows" by auto
    then have "query_loop db q limit ws ?out = take limit (?out @ map queried_row (concat (map (window_rows db q) ws)))"
      using False by (intro Cons.IH) simp
    then show ?thesis using False all by (simp add: w q Let_def)
  qed
qed

definition plain_rows :: "audit_db \<Rightarrow> AuditEventQuery \<Rightarrow> audit_row list" where
  "plain_rows db q = filter (\<lambda>r. auditWhere db q r \<and> before_cursor q r) (newest_first db)"

lemma range_filters:
  "field_filters (q\<lparr>aq_From := a, aq_To := b\<rparr>) = field_filters q"
  "userResultFilters (q\<lparr>aq_From := a, aq_To := b\<rparr>) = userResultFilters q"
  by (simp_all add: field_filters_def userResultFilters_def fun_eq_iff split: option.split)

lemma windows_plain:
  assumes "\<forall>r\<in>set (db_events db). 1000 dvd ae_ts r" "0 \<le> aq_From q" "aligned (aq_From q) (window_upper q)"
  shows "concat (map (window_rows db q) (auditWindows q)) = plain_rows db q"
proof (cases "aq_From q = 0 \<or> window_upper q = 0 \<or> window_upper q - aq_From q \<le> auditWindowMinSpan")
  case True
  then show ?thesis by (simp add: auditWindows_def Let_def window_rows_def plain_rows_def)
next
  case False
  let ?P = "\<lambda>r. field_filters q r \<and> userResultFilters q (row_group r) \<and> shown db r \<and> before_cursor q r"
  have pos: "0 < aq_From q" using False assms(2) by simp
  have "window_rows db q w = (case w of (a, b) \<Rightarrow> filter (\<lambda>r. ?P r \<and> pg_time a \<le> ae_ts r \<and> ae_ts r \<le> pg_time b) (newest_first db))"
    if "w \<in> set (window_loop (aq_From q) (window_upper q) 0)" for w
  proof -
    obtain a b where w: "w = (a, b)" by fastforce
    then have nz: "a \<noteq> 0" "b \<noteq> 0" using window_loop_range [of a b "aq_From q" "window_upper q" 0] that pos by simp_all
    then have "(auditWhere db (q\<lparr>aq_From := a, aq_To := b\<rparr>) r \<and> before_cursor q r) = (?P r \<and> pg_time a \<le> ae_ts r \<and> ae_ts r \<le> pg_time b)" for r
      unfolding auditWhere_def range_filters in_range_def by simp blast
    then show ?thesis by (simp add: window_rows_def w)
  qed
  then have "map (window_rows db q) (auditWindows q) = map (\<lambda>(a, b). filter (\<lambda>r. ?P r \<and> pg_time a \<le> ae_ts r \<and> ae_ts r \<le> pg_time b) (newest_first db))
      (window_loop (aq_From q) (window_upper q) 0)"
    using False by (simp add: auditWindows_def Let_def)
  then have "concat (map (window_rows db q) (auditWindows q))
      = filter (\<lambda>r. ?P r \<and> pg_time (aq_From q) \<le> ae_ts r \<and> ae_ts r \<le> pg_time (window_upper q)) (newest_first db)"
    using window_loop_covers [OF newest_first_newer _ assms(3), of db ?P 0] assms(1) by simp
  also have "\<dots> = plain_rows db q" unfolding plain_rows_def
  proof (rule filter_cong [OF refl])
    fix r
    have mono: "pg_time a \<le> pg_time b" if "a \<le> b" for a b
      using micro_less [OF pg_time_dvd pg_time_dvd, of b a] pg_time_le [of a] pg_time_le [of b] that by linarith
    have "ae_ts r \<le> pg_time (window_upper q) \<longleftrightarrow> (aq_To q \<noteq> 0 \<longrightarrow> ae_ts r \<le> pg_time (aq_To q))" if "before_cursor q r"
      using that False mono [of "aq_BeforeTs q" "aq_To q"] mono [of "aq_To q" "aq_BeforeTs q"]
      by (auto simp: window_upper_def before_cursor_def split: if_splits)
    then show "(?P r \<and> pg_time (aq_From q) \<le> ae_ts r \<and> ae_ts r \<le> pg_time (window_upper q)) = (auditWhere db q r \<and> before_cursor q r)"
      using pos by (auto simp: auditWhere_def in_range_def)
  qed
  finally show ?thesis .
qed

subsection \<open>Resolved users\<close>

lemma hourOf_mono: "a \<le> b \<Longrightarrow> hourOf a \<le> hourOf b"
proof (rule ccontr)
  assume l: "a \<le> b" "\<not> hourOf a \<le> hourOf b"
  have h: "hour dvd hourOf a - hourOf b" by (intro dvd_diff hourOf_dvd)
  then have "hour \<le> hourOf a - hourOf b" using l(2) by (intro zdvd_imp_le) simp_all
  moreover have "hourOf a \<le> a" "b < hourOf b + hour" unfolding hourOf_def by simp_all
  ultimately show False using l(1) by linarith
qed

lemma hourOf_within: "hourOf t \<le> t" "t < hourOf t + hour"
  unfolding hourOf_def by simp_all

lemma hourOf_pg: "hourOf (pg_time t) = hourOf t"
proof -
  have "pg_time t mod hour = t mod hour - t mod 1000"
  proof -
    have m: "t mod hour mod 1000 = t mod 1000" by (rule mod_mod_cancel) simp
    have "t mod 1000 \<le> t mod hour" using m zmod_le_nonneg_dividend [of "t mod hour" 1000] by simp
    then have b: "0 \<le> t mod hour - t mod 1000" "t mod hour - t mod 1000 < hour" by (simp_all add: diff_less_eq add_strict_increasing2)
    have "pg_time t mod hour = (t mod hour - t mod 1000) mod hour" unfolding pg_time_def by (simp add: mod_diff_left_eq)
    then show ?thesis using b by simp
  qed
  then show ?thesis by (simp add: hourOf_def pg_time_def)
qed

lemma raw_loop_set: "raw_loop db p hs seen = Some us \<Longrightarrow> set us = set seen \<union> (\<Union>h\<in>set hs. set (raw_users db p h))"
  by (induction hs arbitrary: seen) (auto simp: Let_def split: if_splits)

lemma missing_all:
  assumes "length (missingRollupHours a b (n + 1) db) \<le> n" "h \<in> set (hours_between a b)" "h \<notin> set (db_marks db)"
  shows "h \<in> set (missingRollupHours a b (n + 1) db)"
proof -
  let ?f = "filter (\<lambda>h. h \<notin> set (db_marks db)) (hours_between a b)"
  have "length ?f < n + 1" using assms(1) by (simp add: missingRollupHours_def)
  then have "missingRollupHours a b (n + 1) db = ?f" by (simp add: missingRollupHours_def)
  then show ?thesis using assms(2,3) by simp
qed

lemma totals_user:
  assumes "exact_hours t db" "h \<in> set (db_marks db)" "r \<in> set (db_events db)" "h \<le> ae_ts r" "ae_ts r < h + hour" "\<not> ae_silenced r"
  shows "\<exists>u\<in>set (db_hourly db). hr_hour u = h \<and> hr_user u = ae_user r"
proof -
  have "r \<in> set (hour_rows h db)" using assms(3-6) by (simp add: hour_rows_def)
  then have g: "row_group r \<in> set (map row_group (hour_rows h db))" by simp
  have "set (map row_group (hour_rows h db)) = (\<lambda>u. (hr_user u, hr_allowed u, hr_danger u)) ` set (hour_totals h db)"
    by (auto simp: hour_totals_def Let_def image_image)
  with g obtain u where "u \<in> set (hour_totals h db)" "hr_user u = ae_user r" by (auto simp: row_group_def)
  moreover have "filter (\<lambda>u. hr_hour u = h) (db_hourly db) = hour_totals h db" using assms(1,2) by (simp add: exact_hours_def)
  ultimately show ?thesis by (metis (mono_tags, lifting) mem_Collect_eq set_filter)
qed

text \<open>Every cached list that is still used is what the totals give now.\<close>

definition cache_current :: "gotime \<Rightarrow> audit_db \<Rightarrow> user_cache \<Rightarrow> bool" where
  "cache_current now db cache \<longleftrightarrow>
     (\<forall>p a b raw us. fresh_users now (to_lower p, a, b, raw) cache = Some us \<longrightarrow> us = hourly_users p a b db)"

lemma rolled_users_current: "cache_current now db cache \<Longrightarrow> fst (rolledUsers now p a b raw db cache) = hourly_users p a b db"
  by (auto simp: rolledUsers_def cache_current_def Let_def split: option.split)

lemma hourly_users_lower: "to_lower p = to_lower p' \<Longrightarrow> hourly_users p a b db = hourly_users p' a b db"
  by (simp add: hourly_users_def ilike_def)

lemma map_of_filter_other: "map_of (filter (\<lambda>(k, _, t). k \<noteq> key \<and> P t) c) k = Some v \<Longrightarrow> distinct (map fst c) \<Longrightarrow> map_of c k = Some v"
  by (metis (no_types, lifting) filter_is_subset map_of_SomeD map_of_eq_Some_iff subsetD)

definition cache_ok :: "gotime \<Rightarrow> audit_db \<Rightarrow> user_cache \<Rightarrow> bool" where
  "cache_ok now db cache \<longleftrightarrow> distinct (map fst cache) \<and> cache_current now db cache"

lemma fresh_usersD: "fresh_users now key cache = Some us \<Longrightarrow> \<exists>t. map_of cache key = Some (us, t) \<and> now - t < auditUserCacheTTL"
  by (auto simp: fresh_users_def split: option.splits if_splits)

lemma rolled_users_cache:
  assumes "cache_ok now db cache"
  shows "cache_ok now db (snd (rolledUsers now p a b raw db cache))"
proof (cases "fresh_users now (to_lower p, a, b, raw) cache")
  case (Some us)
  then show ?thesis using assms by (simp add: rolledUsers_def Let_def)
next
  case None
  let ?key = "(to_lower p, a, b, raw)"
  let ?rest = "filter (\<lambda>(k, _, t). k \<noteq> ?key \<and> now - t < auditUserCacheTTL) cache"
  have c: "snd (rolledUsers now p a b raw db cache) = (?key, hourly_users p a b db, now) # ?rest"
    using None by (simp add: rolledUsers_def Let_def)
  have d: "distinct (map fst cache)" using assms by (simp add: cache_ok_def)
  have "distinct (map fst ?rest)" using d by (rule distinct_map_filter)
  then have "distinct (map fst (snd (rolledUsers now p a b raw db cache)))" unfolding c by auto
  moreover have "us = hourly_users p' a' b' db"
    if fresh: "fresh_users now (to_lower p', a', b', raw') (snd (rolledUsers now p a b raw db cache)) = Some us" for p' a' b' raw' us
  proof (cases "(to_lower p', a', b', raw') = ?key")
    case True
    then have "us = hourly_users p a b db" using that unfolding c by (simp add: fresh_users_def split: if_splits)
    then show ?thesis using True hourly_users_lower [of p p'] by simp
  next
    case False
    then have "map_of (snd (rolledUsers now p a b raw db cache)) (to_lower p', a', b', raw') = map_of ?rest (to_lower p', a', b', raw')"
      unfolding c map_of.simps fst_conv by (rule fun_upd_other)
    then obtain t where t: "map_of ?rest (to_lower p', a', b', raw') = Some (us, t)" "now - t < auditUserCacheTTL"
      using fresh_usersD [OF fresh] by metis
    then have "fresh_users now (to_lower p', a', b', raw') cache = Some us"
      using map_of_filter_other [OF t(1) d] by (simp add: fresh_users_def)
    then show ?thesis using assms by (simp add: cache_ok_def cache_current_def)
  qed
  ultimately show ?thesis by (simp add: cache_ok_def cache_current_def)
qed

lemma resolved_users:
  assumes ex: "exact_hours t db" and res: "fst (resolveAuditUsers now q db cache) = Some us"
    and cur: "cache_current now db cache" and to: "aq_To q \<noteq> 0" "aq_To q \<le> now"
  shows "\<forall>u\<in>set us. ilike (''%'' @ likeEscape (aq_User q) @ ''%'') u"
    and "\<forall>r\<in>set (db_events db). in_range q (ae_ts r) \<longrightarrow> shown db r \<longrightarrow> ilike (''%'' @ likeEscape (aq_User q) @ ''%'') (ae_user r) \<longrightarrow> ae_user r \<in> set us"
proof -
  let ?p = "''%'' @ likeEscape (aq_User q) @ ''%''" and ?a = "hourOf (aq_From q)" and ?b = "hourOf (aq_To q)"
  let ?raw = "missingRollupHours ?a ?b (auditUserRawHoursMax + 1) db"
  have start: "aq_From q \<noteq> 0" "db_rollups_ready db" using res by (auto simp: resolveAuditUsers_def split: if_splits)
  have to': "(if aq_To q = 0 \<or> now < aq_To q then now else aq_To q) = aq_To q" using to by simp
  have either: "us = [] \<and> ?b < ?a \<or> \<not> ?b < ?a \<and> length ?raw \<le> auditUserRawHoursMax \<and> raw_loop db ?p ?raw (remdups (hourly_users ?p ?a ?b db)) = Some us"
    using res start rolled_users_current [OF cur, of ?p ?a ?b ?raw] unfolding resolveAuditUsers_def to' Let_def
    by (auto split: if_splits prod.splits)
  show "\<forall>u\<in>set us. ilike ?p u"
    using either by (auto dest!: raw_loop_set simp: hourly_users_def raw_users_def)
  show "\<forall>r\<in>set (db_events db). in_range q (ae_ts r) \<longrightarrow> shown db r \<longrightarrow> ilike ?p (ae_user r) \<longrightarrow> ae_user r \<in> set us"
  proof (intro ballI impI)
    fix r assume r: "r \<in> set (db_events db)" "in_range q (ae_ts r)" "shown db r" "ilike ?p (ae_user r)"
    let ?h = "hourOf (ae_ts r)"
    have "pg_time (aq_From q) \<le> ae_ts r" "ae_ts r \<le> pg_time (aq_To q)" using r(2) start to by (simp_all add: in_range_def)
    then have h: "?a \<le> ?h" "?h \<le> ?b" using hourOf_mono hourOf_pg by metis+
    then have some: "length ?raw \<le> auditUserRawHoursMax" "raw_loop db ?p ?raw (remdups (hourly_users ?p ?a ?b db)) = Some us" using either by auto
    have "hour dvd ?h - ?a" by (intro dvd_diff hourOf_dvd)
    then have between: "?h \<in> set (hours_between ?a ?b)" using h unfolding hours_between_iff by (simp add: dvd_eq_mod_eq_0)
    have silent: "\<not> ae_silenced r" using r(3) start by (simp add: shown_def)
    show "ae_user r \<in> set us"
    proof (cases "?h \<in> set (db_marks db)")
      case True
      obtain u where "u \<in> set (db_hourly db)" "hr_hour u = ?h" "hr_user u = ae_user r"
        using totals_user [OF ex True r(1) hourOf_within silent] by blast
      then have "ae_user r \<in> set (hourly_users ?p ?a ?b db)" using h r(4) by (force simp: hourly_users_def)
      then show ?thesis using raw_loop_set [OF some(2)] by simp
    next
      case False
      then have "?h \<in> set ?raw" using missing_all some(1) between by blast
      moreover have "ae_user r \<in> set (raw_users db ?p ?h)" using r hourOf_within [of "ae_ts r"] by (auto simp: raw_users_def)
      ultimately show ?thesis using raw_loop_set [OF some(2)] by blast
    qed
  qed
qed

lemma users_plain:
  assumes "exact_hours t db" "fst (resolveAuditUsers now q db cache) = Some us" "cache_current now db cache"
    and "aq_To q \<noteq> 0" "aq_To q \<le> now" "aq_User q \<noteq> []" "aq_users q = None"
  shows "plain_rows db (q\<lparr>aq_users := Some us\<rparr>) = plain_rows db q"
  unfolding plain_rows_def
proof (rule filter_cong [OF refl])
  fix r assume r: "r \<in> set (newest_first db)"
  let ?p = "''%'' @ likeEscape (aq_User q) @ ''%''"
  have f: "field_filters (q\<lparr>aq_users := Some us\<rparr>) r = field_filters q r" "in_range (q\<lparr>aq_users := Some us\<rparr>) = in_range q"
    "before_cursor (q\<lparr>aq_users := Some us\<rparr>) r = before_cursor q r"
    by (simp_all add: field_filters_def in_range_def before_cursor_def fun_eq_iff)
  have "in_range q (ae_ts r) \<Longrightarrow> shown db r \<Longrightarrow> ilike ?p (ae_user r) = (ae_user r \<in> set us)"
    using resolved_users [OF assms(1-5)] r by auto
  then show "(auditWhere db (q\<lparr>aq_users := Some us\<rparr>) r \<and> before_cursor (q\<lparr>aq_users := Some us\<rparr>) r) = (auditWhere db q r \<and> before_cursor q r)"
    unfolding auditWhere_def f using assms(6,7) by (auto simp: userResultFilters_def row_group_def)
qed

lemma page_limit_pos: "0 < page_limit q"
  by (simp add: page_limit_def)

lemma keyed_micro: "keyed db \<Longrightarrow> \<forall>r\<in>set (db_events db). 1000 dvd ae_ts r"
  by (simp add: keyed_def dvd_eq_mod_eq_0)

lemma search_plain:
  assumes "timed_run st t db" "cache_current now db cache" "0 \<le> aq_From q" "aligned (aq_From q) (window_upper q)"
    and "aq_users q = None" "aq_To q \<noteq> 0" "aq_To q \<le> now"
  shows "fst (QueryAuditEvents now q db cache) = map queried_row (take (page_limit q) (plain_rows db q))"
proof -
  have inv: "keyed db" "exact_hours t db" using timed_run_exact [OF assms(1)] by auto
  have loop: "query_loop db q' (page_limit q) (auditWindows q) [] = map queried_row (take (page_limit q) (plain_rows db q'))"
    if "auditWindows q' = auditWindows q" "aq_From q' = aq_From q" "window_upper q' = window_upper q" for q'
    using query_loop_take [of "[]" "page_limit q" db q' "auditWindows q"] windows_plain [of db q'] keyed_micro [OF inv(1)] assms(3,4) that
    by (simp add: take_map)
  have same: "auditWindows (q\<lparr>aq_users := u\<rparr>) = auditWindows q" "window_upper (q\<lparr>aq_users := u\<rparr>) = window_upper q" for u
    by (simp_all add: auditWindows_def window_upper_def Let_def)
  show ?thesis
  proof (cases "aq_User q \<noteq> [] \<and> fst (resolveAuditUsers now q db cache) \<noteq> None")
    case True
    then obtain us where us: "fst (resolveAuditUsers now q db cache) = Some us" by blast
    note p = users_plain [OF inv(2) us assms(2,6,7) _ assms(5)]
    show ?thesis
    proof (cases us)
      case Nil
      then have "plain_rows db (q\<lparr>aq_users := Some us\<rparr>) = []"
        by (auto simp: plain_rows_def filter_empty_conv auditWhere_def userResultFilters_def)
      then have "plain_rows db q = []" using p True by simp
      then show ?thesis using True us Nil assms(5) 
        by (auto simp: QueryAuditEvents_def Let_def split: prod.splits)
    next
      case (Cons u us')
      then have "fst (QueryAuditEvents now q db cache) = query_loop db (q\<lparr>aq_users := Some us\<rparr>) (page_limit q) (auditWindows q) []"
        using True us assms(5) by (auto simp: QueryAuditEvents_def Let_def split: prod.splits)
      then show ?thesis using loop [of "q\<lparr>aq_users := Some us\<rparr>"] same p True by simp
    qed
  next
    case False
    then have "fst (QueryAuditEvents now q db cache) = query_loop db q (page_limit q) (auditWindows q) []"
      using assms(5) by (auto simp: QueryAuditEvents_def Let_def split: prod.splits option.splits)
    then show ?thesis using loop [of q] by simp
  qed
qed


subsection \<open>Following the cursor\<close>

text \<open>\<^verbatim>\<open>auditQueryHandler\<close> (kvisior/auditapi.go) hands out a cursor with a full page; \<^verbatim>\<open>auditQueryFromRequest\<close> reads
  it back. Times travel as microseconds since the Unix epoch.\<close>

definition unixEpoch :: gotime where "unixEpoch = 62135596800 * second"

definition UnixMicro :: "gotime \<Rightarrow> int" where "UnixMicro t = (t - unixEpoch) div 1000"

definition next_cursor :: "AuditEventQuery \<Rightarrow> AuditEventRow list \<Rightarrow> (int \<times> int) option" where
  "next_cursor q rows = (if length rows = page_limit q then Some (UnixMicro (ar_Ts (last rows)), int (ar_ID (last rows))) else None)"

definition with_cursor :: "int \<times> int \<Rightarrow> AuditEventQuery \<Rightarrow> AuditEventQuery" where
  "with_cursor c q = (if 0 < fst c then q\<lparr>aq_BeforeTs := unixEpoch + fst c * 1000, aq_BeforeID := snd c\<rparr> else q)"

text \<open>A client that follows at most \<open>n\<close> cursors.\<close>

fun read_pages :: "nat \<Rightarrow> gotime \<Rightarrow> audit_db \<Rightarrow> user_cache \<Rightarrow> AuditEventQuery \<Rightarrow> AuditEventRow list list" where
  "read_pages n now db cache q =
     (let (rows, cache') = QueryAuditEvents now q db cache in
      rows # (case (n, next_cursor q rows) of
                (Suc m, Some c) \<Rightarrow> read_pages m now db cache' (with_cursor c q)
              | _ \<Rightarrow> []))"

declare read_pages.simps [simp del]

abbreviation row_after :: "audit_row \<Rightarrow> audit_row \<Rightarrow> bool" where
  "row_after a b \<equiv> ae_ts b < ae_ts a \<or> ae_ts b = ae_ts a \<and> ae_id b < ae_id a"

lemma sorted_lexicographic:
  "sorted (map f S) \<Longrightarrow> (\<And>k. sorted_wrt (\<lambda>a b. g a < g b) (filter (\<lambda>r. f r = k) S))
   \<Longrightarrow> sorted_wrt (\<lambda>a b. f a < f b \<or> f a = f b \<and> (g a :: nat) < g b) S"
  for f :: "'a \<Rightarrow> int"
proof (induction S)
  case Nil
  then show ?case by simp
next
  case (Cons x S)
  have "sorted_wrt (\<lambda>a b. g a < g b) (filter (\<lambda>r. f r = k) S)" for k using Cons.prems(2) [of k] by (cases "f x = k") simp_all
  moreover have "f x < f y \<or> f x = f y \<and> g x < g y" if "y \<in> set S" for y
    using Cons.prems(1) Cons.prems(2) [of "f x"] that by (cases "f x = f y") (auto simp: order_le_less)
  ultimately show ?case using Cons by simp
qed

lemma newest_first_sorted: "distinct (map ae_id (db_events db)) \<Longrightarrow> sorted_wrt row_after (newest_first db)"
proof -
  assume d: "distinct (map ae_id (db_events db))"
  let ?S = "sort_key ae_id (db_events db)"
  have "mset (map ae_id ?S) = mset (map ae_id (db_events db))" by simp
  then have "distinct (map ae_id ?S)" using d mset_eq_imp_distinct_iff by blast
  then have "sorted_wrt (<) (map ae_id ?S)" using sorted_sort_key [of ae_id "db_events db"] strict_sorted_iff by blast
  then have i: "sorted_wrt (\<lambda>a b. ae_id a < ae_id b) ?S" by (simp add: sorted_wrt_map)
  have "sorted_wrt (\<lambda>a b. ae_ts a < ae_ts b \<or> ae_ts a = ae_ts b \<and> ae_id a < ae_id b) (sort_key ae_ts ?S)"
  proof (rule sorted_lexicographic)
    show "sorted (map ae_ts (sort_key ae_ts ?S))" by (rule sorted_sort_key)
    show "sorted_wrt (\<lambda>a b. ae_id a < ae_id b) (filter (\<lambda>r. ae_ts r = k) (sort_key ae_ts ?S))" for k
      unfolding sort_key_stable using i by (rule sorted_wrt_filter)
  qed
  then show ?thesis unfolding newest_first_def sorted_wrt_rev by (rule sorted_wrt_mono_rel [rotated]) auto
qed

lemma sorted_after_take:
  assumes "sorted_wrt R xs" "n < length xs \<or> n = length xs" "0 < n" "\<And>a. \<not> R a a" "\<And>a b. R a b \<Longrightarrow> \<not> R b a"
  shows "filter (R (last (take n xs))) xs = drop n xs"
proof -
  let ?l = "last (take n xs)"
  have ne: "take n xs \<noteq> []" using assms(2,3) by auto
  have s: "sorted_wrt R (butlast (take n xs) @ ?l # drop n xs)" using assms(1) ne
    by (metis append_butlast_last_id append_take_drop_id append.assoc append_Cons append_Nil)
  have b: "R a ?l" if "a \<in> set (butlast (take n xs))" for a using s that by (simp add: sorted_wrt_append)
  have a: "R ?l a" if "a \<in> set (drop n xs)" for a using s that by (simp add: sorted_wrt_append)
  have "filter (R ?l) (take n xs) = []"
    using b assms(4,5) by (subst append_butlast_last_id [OF ne, symmetric]) (auto simp: filter_empty_conv)
  moreover have "filter (R ?l) (drop n xs) = drop n xs" using a by (simp add: filter_id_conv)
  ultimately show ?thesis by (metis append_Nil append_take_drop_id filter_append)
qed

lemma filters_cursor:
  "auditWhere db (q\<lparr>aq_BeforeTs := b, aq_BeforeID := i\<rparr>) = auditWhere db q"
proof -
  let ?q = "q\<lparr>aq_BeforeTs := b, aq_BeforeID := i\<rparr>"
  have "field_filters ?q = field_filters q" "userResultFilters ?q = userResultFilters q" "in_range ?q = in_range q"
    by (simp_all add: field_filters_def userResultFilters_def in_range_def fun_eq_iff split: option.split)
  then show ?thesis by (intro ext) (simp add: auditWhere_def)
qed

lemma cursor_roundtrip: "1000 dvd t \<Longrightarrow> unixEpoch + UnixMicro t * 1000 = t"
proof -
  assume "1000 dvd t"
  moreover have "1000 dvd unixEpoch" by (simp add: unixEpoch_def)
  ultimately have "1000 dvd t - unixEpoch" by (rule dvd_diff)
  then show ?thesis by (simp add: UnixMicro_def)
qed

lemma plain_rows_next:
  assumes ids: "distinct (map ae_id (db_events db))" and micro: "\<forall>r\<in>set (db_events db). 1000 dvd ae_ts r"
    and q: "unixEpoch < aq_From q" "1000 dvd aq_From q" and full: "page_limit q \<le> length (plain_rows db q)"
    and c: "next_cursor q (map queried_row (take (page_limit q) (plain_rows db q))) = Some c"
  shows "plain_rows db (with_cursor c q) = drop (page_limit q) (plain_rows db q)"
    and "with_cursor c q = q\<lparr>aq_BeforeTs := ae_ts (last (take (page_limit q) (plain_rows db q))),
           aq_BeforeID := int (ae_id (last (take (page_limit q) (plain_rows db q))))\<rparr>"
    and "aq_From q \<le> ae_ts (last (take (page_limit q) (plain_rows db q)))"
proof -
  let ?n = "page_limit q" and ?S = "plain_rows db q"
  let ?l = "last (take ?n ?S)"
  have ne: "take ?n ?S \<noteq> []" using full page_limit_pos [of q] by auto
  then have l: "?l \<in> set ?S" by (meson last_in_set in_set_takeD)
  then have lw: "auditWhere db q ?l" "before_cursor q ?l" "?l \<in> set (db_events db)" by (simp_all add: plain_rows_def)
  have fr: "aq_From q \<noteq> 0" "pg_time (aq_From q) = aq_From q" using q by (simp_all add: unixEpoch_def pg_time_def dvd_eq_mod_eq_0)
  show ge: "aq_From q \<le> ae_ts ?l" using lw(1) fr by (simp add: auditWhere_def in_range_def)
  have d: "1000 dvd ae_ts ?l" using micro lw(3) by blast
  have cc: "c = (UnixMicro (ae_ts ?l), int (ae_id ?l))"
    using c ne by (simp add: next_cursor_def queried_row_def last_map split: if_splits)
  have pos: "0 < UnixMicro (ae_ts ?l)"
    using cursor_roundtrip [OF d] ge q(1) by linarith
  show w: "with_cursor c q = q\<lparr>aq_BeforeTs := ae_ts ?l, aq_BeforeID := int (ae_id ?l)\<rparr>"
    using pos cursor_roundtrip [OF d] by (simp add: with_cursor_def cc)
  have lt: "pg_time (ae_ts ?l) = ae_ts ?l" "ae_ts ?l \<noteq> 0" using d ge q(1) by (simp_all add: pg_time_def dvd_eq_mod_eq_0 unixEpoch_def)
  have "(auditWhere db q r \<and> before_cursor (q\<lparr>aq_BeforeTs := ae_ts ?l, aq_BeforeID := int (ae_id ?l)\<rparr>) r)
      = ((auditWhere db q r \<and> before_cursor q r) \<and> row_after ?l r)" for r
  proof -
    have "row_after ?l r \<Longrightarrow> before_cursor q r" using lw(2) by (auto simp: before_cursor_def)
    then show ?thesis using lt by (auto simp: before_cursor_def [of "q\<lparr>aq_BeforeTs := ae_ts ?l, aq_BeforeID := int (ae_id ?l)\<rparr>"])
  qed
  then have "plain_rows db (with_cursor c q) = filter (row_after ?l) ?S"
    unfolding w plain_rows_def [of db "q\<lparr>aq_BeforeTs := ae_ts ?l, aq_BeforeID := int (ae_id ?l)\<rparr>"] filters_cursor
    by (simp add: plain_rows_def [of db q])
  also have "\<dots> = drop ?n ?S"
  proof (rule sorted_after_take)
    show "sorted_wrt row_after ?S" unfolding plain_rows_def by (rule sorted_wrt_filter [OF newest_first_sorted [OF ids]])
    show "?n < length ?S \<or> ?n = length ?S" using full by linarith
  qed (use page_limit_pos in auto)
  finally show "plain_rows db (with_cursor c q) = drop ?n ?S" .
qed

lemma query_cache_ok: "cache_ok now db cache \<Longrightarrow> cache_ok now db (snd (QueryAuditEvents now q db cache))"
proof -
  assume c: "cache_ok now db cache"
  have r: "cache_ok now db (snd (resolveAuditUsers now q db cache))"
    using c rolled_users_cache [OF c] by (auto simp: resolveAuditUsers_def Let_def split: prod.splits) (metis snd_conv)+
  have "snd (QueryAuditEvents now q db cache) = snd (resolveAuditUsers now q db cache) \<or> snd (QueryAuditEvents now q db cache) = cache"
    by (auto simp: QueryAuditEvents_def Let_def split: prod.splits option.splits list.splits)
  then show ?thesis using c r by auto
qed

lemma pages_plain:
  assumes run: "timed_run st t db" and ids: "distinct (map ae_id (db_events db))"
  shows "cache_ok now db cache \<Longrightarrow> unixEpoch < aq_From q \<Longrightarrow> 1000 dvd aq_From q \<Longrightarrow> aq_users q = None \<Longrightarrow> aq_To q \<noteq> 0 \<Longrightarrow> aq_To q \<le> now
    \<Longrightarrow> length (plain_rows db q) \<le> n \<Longrightarrow> concat (read_pages n now db cache q) = map queried_row (plain_rows db q)"
proof (induction n arbitrary: q cache)
  case 0
  have "fst (QueryAuditEvents now q db cache) = []"
    using search_plain [OF run, of now cache q] 0 by (simp add: cache_ok_def aligned_def unixEpoch_def)
  then show ?case using 0 by (cases "QueryAuditEvents now q db cache") (simp add: read_pages.simps)
next
  case (Suc n)
  let ?S = "plain_rows db q" and ?l = "page_limit q"
  obtain rows cache' where qr: "QueryAuditEvents now q db cache = (rows, cache')" by fastforce
  have rows: "rows = map queried_row (take ?l ?S)"
    using search_plain [OF run, of now cache q] Suc.prems qr by (simp add: cache_ok_def aligned_def unixEpoch_def)
  have cache': "cache_ok now db cache'" using query_cache_ok [OF Suc.prems(1), of q] qr by simp
  show ?case
  proof (cases "next_cursor q rows")
    case None
    then have "length ?S < ?l" using rows by (auto simp: next_cursor_def split: if_splits)
    then show ?thesis using None qr rows by (simp add: read_pages.simps [of "Suc n"])
  next
    case (Some c)
    then have full: "?l \<le> length ?S" using rows by (auto simp: next_cursor_def split: if_splits)
    have micro: "\<forall>r\<in>set (db_events db). 1000 dvd ae_ts r" using keyed_micro timed_run_exact [OF run] by blast
    note nx = plain_rows_next [OF ids micro Suc.prems(2,3) full Some [unfolded rows]]
    have "concat (read_pages n now db cache' (with_cursor c q)) = map queried_row (plain_rows db (with_cursor c q))"
    proof (rule Suc.IH [OF cache'])
      show "length (plain_rows db (with_cursor c q)) \<le> n" unfolding nx(1) using Suc.prems(7) full page_limit_pos [of q] by simp
    qed (use Suc.prems in \<open>simp_all add: nx(2)\<close>)
    then show ?thesis using Some qr rows by (simp add: read_pages.simps [of "Suc n"] nx(1) drop_map take_map flip: map_append)
  qed
qed


subsection \<open>How many windows\<close>

text \<open>C35. The windows of a search end: a range shorter than six hours times a power of three is read in at most
  that power and one more windows, so that a year takes eight, and the page of a search needs no more queries.\<close>

theorem windows_end:
  assumes "0 < aq_From q" "window_upper q - aq_From q < auditWindowFirst * auditWindowGrowth ^ n"
  shows "length (auditWindows q) \<le> Suc n"
proof -
  have loop: "length (window_loop lo cur k) \<le> Suc m" if "cur - lo < auditWindowFirst * auditWindowGrowth ^ (k + m)" for lo cur k m
    using that
  proof (induction m arbitrary: cur k)
    case 0
    show ?case
    proof (cases "cur < lo")
      case True
      then show ?thesis by (simp add: window_loop.simps)
    next
      case False
      then have "max lo (cur - auditWindowFirst * auditWindowGrowth ^ k) = lo" using 0 by simp
      then show ?thesis using False by (simp add: window_loop_unfold window_loop.simps [of lo "lo - 1000"])
    qed
  next
    case (Suc m)
    show ?case
    proof (cases "cur < lo")
      case True
      then show ?thesis by (simp add: window_loop.simps)
    next
      case False
      let ?w = "max lo (cur - auditWindowFirst * auditWindowGrowth ^ k)"
      have "?w \<le> cur" using False window_size_pos [of k] by auto
      moreover have "cur - lo < auditWindowFirst * auditWindowGrowth ^ (Suc k + m)" using Suc.prems by simp
      ultimately have "?w - 1000 - lo < auditWindowFirst * auditWindowGrowth ^ (Suc k + m)" by linarith
      then have "length (window_loop lo (?w - 1000) (Suc k)) \<le> Suc m" by (rule Suc.IH)
      then show ?thesis unfolding window_loop_unfold [OF False] Let_def by simp
    qed
  qed
  show ?thesis using loop [where k = 0 and m = n] assms(2) by (simp add: auditWindows_def Let_def)
qed

definition sample_query :: AuditEventQuery where
  "sample_query = \<lparr>aq_From = unixEpoch + 900 * hour, aq_To = unixEpoch + 1000 * hour, aq_User = ''ALI'', aq_Namespace = [], aq_Kind = [],
     aq_Resource = [], aq_SourceIP = [], aq_Result = [], aq_Search = [], aq_DangerOnly = False, aq_Object = None,
     aq_BeforeTs = 0, aq_BeforeID = 0, aq_Limit = 1, aq_users = None\<rparr>"

theorem windows_end_witness: "0 < aq_From sample_query \<and> length (auditWindows sample_query) \<le> Suc 3"
  using windows_end [of sample_query 3]
  by (simp add: sample_query_def window_upper_def unixEpoch_def auditWindowFirst_def auditWindowGrowth_def)

definition sample_late :: "string \<Rightarrow> gotime \<Rightarrow> audit_db \<Rightarrow> audit_db" where
  "sample_late uid t db = (let x = sample_env\<lparr>x_now := unixEpoch + t, x_dbnow := unixEpoch + t\<rparr>;
       p = sample_prepared\<lparr>pr_ev := sample_event\<lparr>ev_ID := uid, ev_Timestamp := unixEpoch + t\<rparr>\<rparr> in
     snd (WithAuditEvent x (admission_key uid) (admit_tx sample_site (New 0) x (admission_key uid) p) db))"

lemma sample_late_run:
  assumes "timed_run sample_site s db" "s \<le> unixEpoch + t"
  shows "timed_run sample_site (unixEpoch + t) (sample_late uid t db)"
proof -
  let ?x = "sample_env\<lparr>x_now := unixEpoch + t, x_dbnow := unixEpoch + t\<rparr>"
  let ?p = "sample_prepared\<lparr>pr_ev := sample_event\<lparr>ev_ID := uid, ev_Timestamp := unixEpoch + t\<rparr>\<rparr>"
  have k: "admission_key uid = admission_key (ev_ID (pr_ev ?p))" by simp
  have "timed_run sample_site (x_dbnow ?x) (sample_late uid t db)"
    unfolding sample_late_def Let_def by (rule timed_step [OF assms(1) audit_step.admit [OF k]]) (use assms(2) in \<open>simp_all add: rollupClockSkew_def\<close>)
  then show ?thesis by simp
qed

definition sample_pages :: audit_db where
  "sample_pages = sample_late ''a2'' (999 * hour) (sample_late ''a1'' (950 * hour) empty_db)"

lemma sample_pages_run: "timed_run sample_site (unixEpoch + 999 * hour) sample_pages"
proof -
  have s: "empty_db = empty_db\<lparr>db_silences_ready := True, db_rollups_ready := True\<rparr>" by (simp add: empty_db_def)
  have "timed_run sample_site 0 empty_db" by (subst s) (rule timed_run.timed_start)
  then show ?thesis unfolding sample_pages_def
    by (intro sample_late_run [of "unixEpoch + 950 * hour"] sample_late_run [of 0]) (simp_all add: unixEpoch_def)
qed

lemma queried_ids: "map ar_ID (map queried_row rs) = map ae_id rs"
  by (simp add: queried_row_def)

lemma empty_cache: "cache_ok now db []"
  by (simp add: cache_ok_def cache_current_def fresh_users_def)



end
