(* ===== verification/Audit_Totals.thy ===== *)
theory Audit_Totals
  imports Audit_Query
begin

section \<open>Histogram and groups of audit events (kvisior/internal/store/{audit,auditrollup}.go)\<close>

text \<open>
  The summary of the audit page over a long range adds the hourly totals of the whole hours inside it to the
  events before the first and after the last of them. Shown: groups by user and the total of the histogram are
  those of the plain queries. A failing read returns its error and is left out, as is the sample of addresses or
  users of a group.
\<close>

subsection \<open>The hours a query can take from the totals\<close>

definition rollupMinHours :: int where "rollupMinHours = 6"

definition rollup_start :: "AuditEventQuery \<Rightarrow> gotime" where
  "rollup_start q = (if hourOf (aq_From q) < aq_From q then hourOf (aq_From q) + hour else hourOf (aq_From q))"

definition rollup_end :: "gotime \<Rightarrow> AuditEventQuery \<Rightarrow> gotime" where
  "rollup_end now q = (if hourOf now < hourOf (aq_To q) then hourOf now else hourOf (aq_To q))"

definition rollupSpanFor :: "gotime \<Rightarrow> AuditEventQuery \<Rightarrow> audit_db \<Rightarrow> (gotime \<times> gotime) option" where
  "rollupSpanFor now q db =
     (if aq_Object q \<noteq> None \<or> aq_SourceIP q \<noteq> [] \<or> aq_Search q \<noteq> [] \<or> aq_Namespace q \<noteq> [] \<or> aq_Kind q \<noteq> [] \<or> aq_Resource q \<noteq> []
         \<or> aq_From q = 0 \<or> aq_To q = 0 then None
      else if \<not> db_rollups_ready db then None
      else
        let s = rollup_start q; e = rollup_end now q in
        if (e - s) div hour < rollupMinHours then None
        else
          let e' = (case missingRollupHours s (e - hour) 1 db of [] \<Rightarrow> e | gap # _ \<Rightarrow> gap) in
          if (e' - s) div hour < rollupMinHours then None else Some (s, e'))"

abbreviation total_group :: "hourly_row \<Rightarrow> string \<times> bool \<times> bool" where
  "total_group u \<equiv> (hr_user u, hr_allowed u, hr_danger u)"

definition rollupWhere :: "AuditEventQuery \<Rightarrow> gotime \<times> gotime \<Rightarrow> hourly_row \<Rightarrow> bool" where
  "rollupWhere q sp u \<longleftrightarrow> fst sp \<le> hr_hour u \<and> hr_hour u < snd sp \<and> userResultFilters q (total_group u)"

definition rollupEdges :: "AuditEventQuery \<Rightarrow> gotime \<times> gotime \<Rightarrow> AuditEventQuery list" where
  "rollupEdges q sp = filter (\<lambda>p. \<not> aq_To p < aq_From p) [q\<lparr>aq_To := fst sp - 1000\<rparr>, q\<lparr>aq_From := snd sp\<rparr>]"

subsection \<open>Groups\<close>

record AuditGroup =
  ag_Key :: string
  ag_Events :: nat
  ag_Dangerous :: nat
  ag_Denied :: nat
  ag_LastSeen :: gotime
  ag_Object :: "(string \<times> string \<times> string) option"

definition AuditGroupsPageMax :: int where "AuditGroupsPageMax = 1000"

definition object_key :: "audit_row \<Rightarrow> string" where
  "object_key r = ae_resource r @ ''/'' @ (if ae_ns r = [] then [] else ae_ns r @ ''/'') @ (if ae_name r = [] then ''*'' else ae_name r)"

definition raw_groups :: "bool \<Rightarrow> AuditEventQuery \<Rightarrow> audit_db \<Rightarrow> AuditGroup list" where
  "raw_groups by_object q db =
     (let rows = filter (auditWhere db q) (db_events db); key = (if by_object then object_key else ae_user) in
      map (\<lambda>k. let g = filter (\<lambda>r. key r = k) rows in
             \<lparr>ag_Key = k, ag_Events = length g, ag_Dangerous = length (filter auditDanger g),
              ag_Denied = length (filter (\<lambda>r. \<not> row_allowed r) g), ag_LastSeen = Max (ae_ts ` set g),
              ag_Object = (if by_object then Some (Min (ae_resource ` set g), Min (ae_ns ` set g), Min (ae_name ` set g)) else None)\<rparr>)
        (remdups (map key rows)))"

text \<open>\<^verbatim>\<open>ORDER BY 2 DESC, k LIMIT ... OFFSET ...\<close>\<close>

definition group_page :: "nat \<Rightarrow> nat \<Rightarrow> AuditGroup list \<Rightarrow> AuditGroup list" where
  "group_page limit offset gs = take limit (drop offset (sort_key (\<lambda>g. - int (ag_Events g)) (sort_key ag_Key gs)))"

record group_part =
  gp_key :: string
  gp_n :: nat
  gp_d :: nat
  gp_den :: nat
  gp_last :: gotime

definition total_part :: "hourly_row \<Rightarrow> group_part" where
  "total_part u = \<lparr>gp_key = hr_user u, gp_n = hr_events u, gp_d = (if hr_danger u then hr_events u else 0),
     gp_den = (if \<not> hr_allowed u then hr_events u else 0), gp_last = hr_last_seen u\<rparr>"

definition event_part :: "audit_row \<Rightarrow> group_part" where
  "event_part r = \<lparr>gp_key = ae_user r, gp_n = 1, gp_d = (if auditDanger r then 1 else 0),
     gp_den = (if \<not> row_allowed r then 1 else 0), gp_last = ae_ts r\<rparr>"

definition rollup_parts :: "AuditEventQuery \<Rightarrow> gotime \<times> gotime \<Rightarrow> audit_db \<Rightarrow> group_part list" where
  "rollup_parts q sp db = map total_part (filter (rollupWhere q sp) (db_hourly db))
     @ concat (map (\<lambda>e. map event_part (filter (auditWhere db e) (db_events db))) (rollupEdges q sp))"

definition rollup_groups :: "AuditEventQuery \<Rightarrow> gotime \<times> gotime \<Rightarrow> audit_db \<Rightarrow> AuditGroup list" where
  "rollup_groups q sp db =
     (let parts = rollup_parts q sp db in
      map (\<lambda>k. let g = filter (\<lambda>p. gp_key p = k) parts in
             \<lparr>ag_Key = k, ag_Events = (\<Sum>p\<leftarrow>g. gp_n p), ag_Dangerous = (\<Sum>p\<leftarrow>g. gp_d p), ag_Denied = (\<Sum>p\<leftarrow>g. gp_den p),
              ag_LastSeen = Max (gp_last ` set g), ag_Object = None\<rparr>)
        (remdups (map gp_key parts)))"

definition rollupUserGroups :: "AuditEventQuery \<Rightarrow> gotime \<times> gotime \<Rightarrow> nat \<Rightarrow> nat \<Rightarrow> audit_db \<Rightarrow> AuditGroup list" where
  "rollupUserGroups q sp limit offset db = group_page limit offset (rollup_groups q sp db)"

definition AuditEventGroups :: "gotime \<Rightarrow> AuditEventQuery \<Rightarrow> bool \<Rightarrow> int \<Rightarrow> int \<Rightarrow> audit_db \<Rightarrow> AuditGroup list" where
  "AuditEventGroups now q by_object limit offset db =
     (let limit' = (if limit \<le> 0 \<or> AuditGroupsPageMax < limit then 100 else nat limit); offset' = (if offset < 0 then 0 else nat offset) in
      case (if by_object then None else rollupSpanFor now q db) of
        Some sp \<Rightarrow> rollupUserGroups q sp limit' offset' db
      | None \<Rightarrow> group_page limit' offset' (raw_groups by_object q db))"

subsection \<open>Histogram\<close>

record AuditBucket =
  ab_Start :: gotime
  ab_Total :: nat
  ab_Dangerous :: nat

text \<open>The parameter \<open>fdiv\<close> is the floor of the floating point quotient that PostgreSQL computes.\<close>

definition bucket_of :: "(int \<Rightarrow> int \<Rightarrow> int) \<Rightarrow> AuditEventQuery \<Rightarrow> nat \<Rightarrow> gotime \<Rightarrow> int" where
  "bucket_of fdiv q buckets ts = min (int buckets - 1) (fdiv (ts - pg_time (aq_From q)) ((aq_To q - aq_From q) div int buckets))"

type_synonym bucket_part = "int \<times> nat \<times> nat"

definition raw_bucket_part :: "(gotime \<Rightarrow> int) \<Rightarrow> AuditEventQuery \<Rightarrow> audit_db \<Rightarrow> bucket_part list" where
  "raw_bucket_part bucket q db = map (\<lambda>r. (bucket (ae_ts r), 1, if auditDanger r then 1 else 0)) (filter (auditWhere db q) (db_events db))"

definition rollup_bucket_parts :: "(gotime \<Rightarrow> int) \<Rightarrow> AuditEventQuery \<Rightarrow> gotime \<times> gotime \<Rightarrow> audit_db \<Rightarrow> bucket_part list" where
  "rollup_bucket_parts bucket q sp db =
     map (\<lambda>u. (bucket (hr_hour u + 30 * minute), hr_events u, if hr_danger u then hr_events u else 0)) (filter (rollupWhere q sp) (db_hourly db))
     @ concat (map (\<lambda>e. raw_bucket_part bucket e db) (rollupEdges q sp))"

definition histogram :: "bucket_part list \<Rightarrow> (int \<times> nat \<times> nat) list" where
  "histogram parts = map (\<lambda>b. let g = filter (\<lambda>p. fst p = b) parts in (b, \<Sum>p\<leftarrow>g. fst (snd p), \<Sum>p\<leftarrow>g. snd (snd p))) (remdups (map fst parts))"

definition AuditEventHistogram :: "(int \<Rightarrow> int \<Rightarrow> int) \<Rightarrow> gotime \<Rightarrow> AuditEventQuery \<Rightarrow> int \<Rightarrow> audit_db \<Rightarrow> (AuditBucket list \<times> nat) option" where
  "AuditEventHistogram fdiv now q n db =
     (let buckets = (if n \<le> 0 \<or> 200 < n then 24 else nat n) in
      if aq_To q - aq_From q \<le> 0 then None
      else
        let bucket = bucket_of fdiv q buckets;
            counts = histogram (case rollupSpanFor now q db of
                Some sp \<Rightarrow> rollup_bucket_parts bucket q sp db
              | None \<Rightarrow> raw_bucket_part bucket q db);
            entry = (\<lambda>i. case map_of counts (int i) of Some v \<Rightarrow> v | None \<Rightarrow> (0, 0))
        in Some (map (\<lambda>i. \<lparr>ab_Start = aq_From q + int i * ((aq_To q - aq_From q) div int buckets),
                           ab_Total = fst (entry i), ab_Dangerous = snd (entry i)\<rparr>) [0..<buckets],
                 \<Sum>c\<leftarrow>filter (\<lambda>c. 0 \<le> fst c \<and> fst c < int buckets) counts. fst (snd c)))"

subsection \<open>Whole hours\<close>

lemma sum_class:
  assumes "distinct hs" "\<And>u. u \<in> set us \<Longrightarrow> Q u \<Longrightarrow> c u \<in> set hs"
  shows "(\<Sum>u\<leftarrow>filter Q us. n u) = (\<Sum>h\<leftarrow>hs. \<Sum>u\<leftarrow>filter (\<lambda>u. c u = h \<and> Q u) us. (n u :: nat))"
  using assms(2)
proof (induction us)
  case Nil
  then show ?case by simp
next
  case (Cons u us)
  have one: "(\<Sum>h\<leftarrow>hs'. if x = h then k else 0) = (if x \<in> set hs' then k else (0 :: nat))" if "distinct hs'" for hs' x k
    using that by (induction hs') auto
  have "(\<Sum>h\<leftarrow>hs. \<Sum>u\<leftarrow>filter (\<lambda>u. c u = h \<and> Q u) (u # us). n u)
      = (\<Sum>h\<leftarrow>hs. (if c u = h then if Q u then n u else 0 else 0) + (\<Sum>u\<leftarrow>filter (\<lambda>u. c u = h \<and> Q u) us. n u))"
    by (intro arg_cong [of _ _ sum_list] map_cong refl) simp
  also have "\<dots> = (if Q u then n u else 0) + (\<Sum>u\<leftarrow>filter Q us. n u)"
    using Cons one [OF assms(1), of "c u" "if Q u then n u else 0"] by (simp add: sum_list_addf)
  finally show ?case by simp
qed

lemma length_class:
  "distinct hs \<Longrightarrow> (\<And>u. u \<in> set us \<Longrightarrow> Q u \<Longrightarrow> c u \<in> set hs) \<Longrightarrow> length (filter Q us) = (\<Sum>h\<leftarrow>hs. length (filter (\<lambda>u. c u = h \<and> Q u) us))"
  using sum_class [of hs us Q c "\<lambda>_. 1"] by (simp add: sum_list_triv)

lemma hours_between_distinct: "distinct (hours_between a b)"
  by (auto simp: hours_between_def distinct_map inj_on_def)

lemma hours_between_sorted: "sorted (hours_between a b)"
proof -
  have "sorted_wrt (\<lambda>i j. a + int i * hour \<le> a + int j * hour) [0..<n]" for n
    by (rule sorted_wrt_mono_rel [OF _ sorted_upt]) simp
  then show ?thesis by (simp add: hours_between_def sorted_map del: upt_Suc)
qed

definition settled_span :: "audit_db \<Rightarrow> gotime \<Rightarrow> gotime \<Rightarrow> bool" where
  "settled_span db s e \<longleftrightarrow> hour dvd s \<and> hour dvd e \<and> (\<forall>h\<in>set (hours_between s (e - hour)). h \<in> set (db_marks db))"

lemma span_hour:
  assumes "settled_span db s e" "hour dvd h" "s \<le> h" "h < e"
  shows "h \<in> set (hours_between s (e - hour))" "h \<in> set (db_marks db)"
proof -
  have "hour \<le> e - h" using assms by (intro zdvd_imp_le dvd_diff) (simp_all add: settled_span_def)
  moreover have "hour dvd h - s" using assms by (intro dvd_diff) (simp_all add: settled_span_def)
  ultimately show "h \<in> set (hours_between s (e - hour))" using assms(3) unfolding hours_between_iff by (simp add: dvd_eq_mod_eq_0)
  then show "h \<in> set (db_marks db)" using assms(1) by (simp add: settled_span_def)
qed

lemma hour_in_span:
  assumes "settled_span db s e" "h \<in> set (hours_between s (e - hour))"
  shows "s \<le> h" "h + hour \<le> e" "h mod hour = 0" "h \<in> set (db_marks db)"
proof -
  have m: "s \<le> h" "h \<le> e - hour" "(h - s) mod hour = 0" using assms(2) unfolding hours_between_iff by auto
  then show "s \<le> h" "h + hour \<le> e" by linarith+
  have "hour dvd (h - s) + s" using m(3) assms(1) by (intro dvd_add) (simp_all add: settled_span_def dvd_eq_mod_eq_0)
  then show "h mod hour = 0" by (simp add: dvd_eq_mod_eq_0)
  show "h \<in> set (db_marks db)" using assms by (simp add: settled_span_def)
qed

lemma span_count:
  assumes ex: "exact_hours t db" and sp: "settled_span db s e"
  shows "(\<Sum>u\<leftarrow>filter (\<lambda>u. (s \<le> hr_hour u \<and> hr_hour u < e) \<and> P (total_group u)) (db_hourly db). hr_events u)
     = length (filter (\<lambda>r. (s \<le> ae_ts r \<and> ae_ts r < e) \<and> \<not> ae_silenced r \<and> P (row_group r)) (db_events db))"
proof -
  let ?hs = "hours_between s (e - hour)"
  have "(\<Sum>u\<leftarrow>filter (\<lambda>u. (s \<le> hr_hour u \<and> hr_hour u < e) \<and> P (total_group u)) (db_hourly db). hr_events u)
      = (\<Sum>h\<leftarrow>?hs. \<Sum>u\<leftarrow>filter (\<lambda>u. hr_hour u = h \<and> (s \<le> hr_hour u \<and> hr_hour u < e) \<and> P (total_group u)) (db_hourly db). hr_events u)"
    using span_hour(1) [OF sp] ex by (intro sum_class hours_between_distinct) (simp add: exact_hours_def dvd_eq_mod_eq_0)
  also have "\<dots> = (\<Sum>h\<leftarrow>?hs. length (filter (\<lambda>r. hourOf (ae_ts r) = h \<and> (s \<le> ae_ts r \<and> ae_ts r < e) \<and> \<not> ae_silenced r \<and> P (row_group r)) (db_events db)))"
  proof (intro arg_cong [of _ _ sum_list] map_cong refl)
    fix h assume h: "h \<in> set ?hs"
    note H = hour_in_span [OF sp h]
    have "filter (\<lambda>u. hr_hour u = h \<and> (s \<le> hr_hour u \<and> hr_hour u < e) \<and> P (total_group u)) (db_hourly db)
        = filter (\<lambda>u. hr_hour u = h \<and> P (total_group u)) (db_hourly db)" using H(1,2) by (intro filter_cong) auto
    moreover have same: "(hourOf (ae_ts r) = h \<and> (s \<le> ae_ts r \<and> ae_ts r < e)) = (h \<le> ae_ts r \<and> ae_ts r < h + hour)" for r
      using in_hour [OF H(3), of "ae_ts r"] H(1,2) by linarith
    have "filter (\<lambda>r. hourOf (ae_ts r) = h \<and> (s \<le> ae_ts r \<and> ae_ts r < e) \<and> \<not> ae_silenced r \<and> P (row_group r)) (db_events db)
        = filter (\<lambda>r. P (row_group r)) (hour_rows h db)"
      unfolding hour_rows_def filter_filter using same by (intro filter_cong refl) blast
    ultimately show "(\<Sum>u\<leftarrow>filter (\<lambda>u. hr_hour u = h \<and> (s \<le> hr_hour u \<and> hr_hour u < e) \<and> P (total_group u)) (db_hourly db). hr_events u)
        = length (filter (\<lambda>r. hourOf (ae_ts r) = h \<and> (s \<le> ae_ts r \<and> ae_ts r < e) \<and> \<not> ae_silenced r \<and> P (row_group r)) (db_events db))"
      using exact_hours_count [OF ex H(4), of P] by (simp only:)
  qed
  also have "\<dots> = length (filter (\<lambda>r. (s \<le> ae_ts r \<and> ae_ts r < e) \<and> \<not> ae_silenced r \<and> P (row_group r)) (db_events db))"
  proof (rule length_class [OF hours_between_distinct, symmetric])
    fix r assume "(s \<le> ae_ts r \<and> ae_ts r < e) \<and> \<not> ae_silenced r \<and> P (row_group r)"
    then have r: "s \<le> ae_ts r" "ae_ts r < e" by simp_all
    have "hourOf s = s" using sp by (simp add: settled_span_def hourOf_def dvd_eq_mod_eq_0)
    then have "s \<le> hourOf (ae_ts r)" using hourOf_mono [OF r(1)] by simp
    moreover have "hourOf (ae_ts r) < e" using hourOf_within(1) [of "ae_ts r"] r(2) by linarith
    ultimately show "hourOf (ae_ts r) \<in> set ?hs" by (rule span_hour(1) [OF sp hourOf_dvd])
  qed
  finally show ?thesis .
qed

lemma rollup_span_settled:
  assumes "rollupSpanFor now q db = Some (s, e)"
  shows "settled_span db s e \<and> aq_From q \<le> s \<and> s < e \<and> e \<le> aq_To q \<and> aq_From q \<noteq> 0 \<and> aq_To q \<noteq> 0 \<and> db_rollups_ready db
     \<and> s < aq_From q + hour \<and> (\<forall>r. field_filters q r)"
proof -
  let ?s = "rollup_start q" and ?e = "rollup_end now q"
  let ?gap = "missingRollupHours ?s (?e - hour) 1 db"
  have g: "aq_Object q = None" "aq_SourceIP q = []" "aq_Search q = []" "aq_Namespace q = []" "aq_Kind q = []" "aq_Resource q = []"
    "aq_From q \<noteq> 0" "aq_To q \<noteq> 0" "db_rollups_ready db" "s = ?s" "e = (case ?gap of [] \<Rightarrow> ?e | gap # _ \<Rightarrow> gap)"
    "\<not> (e - s) div hour < rollupMinHours"
    using assms unfolding rollupSpanFor_def Let_def by (cases "aq_Object q"; auto split: if_splits)+
  have ds: "hour dvd s" unfolding g(10) rollup_start_def using hourOf_dvd by (auto intro: dvd_add)
  have se: "s < e"
  proof (rule ccontr)
    assume "\<not> s < e"
    then have "(e - s) div hour \<le> 0" using zdiv_mono1 [of "e - s" 0 hour] by simp
    then show False using g(12) by (simp add: rollupMinHours_def)
  qed
  have E: "?e \<le> aq_To q" "hour dvd ?e" using hourOf_within(1) [of "aq_To q"] hourOf_dvd by (auto simp: rollup_end_def)
  have S: "aq_From q \<le> s" "s < aq_From q + hour" using g(10) hourOf_within [of "aq_From q"] by (auto simp: rollup_start_def split: if_splits)
  have sp: "settled_span db s e \<and> e \<le> aq_To q"
  proof (cases ?gap)
    case Nil
    then have e: "e = ?e" using g(11) by simp
    have "filter (\<lambda>h. h \<notin> set (db_marks db)) (hours_between ?s (?e - hour)) = []" using Nil unfolding missingRollupHours_def by (simp add: take_eq_Nil)
    then have "\<forall>h\<in>set (hours_between s (e - hour)). h \<in> set (db_marks db)" unfolding e g(10) by (simp add: filter_empty_conv)
    then show ?thesis using ds E unfolding settled_span_def e by blast
  next
    case (Cons gap rest)
    then have e: "e = gap" using g(11) by simp
    let ?H = "hours_between s (?e - hour)"
    have "take 1 (filter (\<lambda>h. h \<notin> set (db_marks db)) ?H) = gap # rest" using Cons unfolding missingRollupHours_def g(10) .
    then obtain fs where fs: "filter (\<lambda>h. h \<notin> set (db_marks db)) ?H = gap # fs" by (cases "filter (\<lambda>h. h \<notin> set (db_marks db)) ?H") auto
    then have "gap \<in> set ?H" by (metis filter_is_subset list.set_intros(1) subsetD)
    then have gh: "s \<le> gap" "gap \<le> ?e - hour" "(gap - s) mod hour = 0" unfolding hours_between_iff by auto
    have dg: "hour dvd (gap - s) + s" using gh(3) ds by (intro dvd_add) (simp_all add: dvd_eq_mod_eq_0)
    have sorted: "sorted ?H" by (rule hours_between_sorted)
    have "h \<in> set (db_marks db)" if "h \<in> set (hours_between s (gap - hour))" for h
    proof (rule ccontr)
      assume no: "h \<notin> set (db_marks db)"
      have m: "s \<le> h" "h \<le> gap - hour" "(h - s) mod hour = 0" using that unfolding hours_between_iff by auto
      then have "h \<in> set ?H" using gh(2) unfolding hours_between_iff by auto
      then have "h \<in> set (gap # fs)" using no fs by (metis (mono_tags, lifting) mem_Collect_eq set_filter)
      moreover have "sorted (gap # fs)" using sorted_wrt_filter [OF sorted] fs by metis
      ultimately have "gap \<le> h" by auto
      then show False using m(2) by simp
    qed
    then show ?thesis using ds dg E gh(2) unfolding settled_span_def e by simp
  qed
  have "\<forall>r. field_filters q r" using g by (simp add: field_filters_def)
  then show ?thesis using sp se S g by blast
qed

subsection \<open>Whole hours and edges make the range\<close>

definition in_whole :: "AuditEventQuery \<Rightarrow> gotime \<times> gotime \<Rightarrow> audit_row \<Rightarrow> bool" where
  "in_whole q sp r \<longleftrightarrow> (fst sp \<le> ae_ts r \<and> ae_ts r < snd sp) \<and> \<not> ae_silenced r \<and> userResultFilters q (row_group r)"

definition in_edge :: "AuditEventQuery \<Rightarrow> gotime \<times> gotime \<Rightarrow> bool \<Rightarrow> audit_row \<Rightarrow> bool" where
  "in_edge q sp early r \<longleftrightarrow> (if early then aq_From q \<le> ae_ts r \<and> ae_ts r < fst sp else snd sp \<le> ae_ts r \<and> ae_ts r \<le> pg_time (aq_To q))
     \<and> \<not> ae_silenced r \<and> userResultFilters q (row_group r)"

definition usable :: "gotime \<Rightarrow> AuditEventQuery \<Rightarrow> gotime \<times> gotime \<Rightarrow> audit_db \<Rightarrow> bool" where
  "usable now q sp db \<longleftrightarrow> rollupSpanFor now q db = Some sp \<and> 0 < aq_From q \<and> 1000 dvd aq_From q"

lemma usable_facts:
  assumes "usable now q sp db"
  shows "settled_span db (fst sp) (snd sp)" "aq_From q \<le> fst sp" "fst sp < snd sp" "snd sp \<le> pg_time (aq_To q)" "pg_time (aq_From q) = aq_From q"
    "1000 dvd fst sp" "1000 dvd snd sp" "1000 < fst sp" "aq_To q \<noteq> 0" "db_rollups_ready db" "\<forall>r. field_filters q r"
proof -
  obtain s e where sp: "sp = (s, e)" by fastforce
  note f = rollup_span_settled [of now q db s e]
  have g: "settled_span db s e" "aq_From q \<le> s" "s < e" "e \<le> aq_To q" "aq_To q \<noteq> 0" "db_rollups_ready db" "\<forall>r. field_filters q r"
    using assms f by (auto simp: usable_def sp)
  show "settled_span db (fst sp) (snd sp)" "aq_From q \<le> fst sp" "fst sp < snd sp" "aq_To q \<noteq> 0" "db_rollups_ready db" "\<forall>r. field_filters q r"
    using g by (simp_all add: sp)
  have th: "(1000 :: int) dvd hour" by simp
  show d: "1000 dvd fst sp" "1000 dvd snd sp" using g(1) dvd_trans [OF th] by (simp_all add: sp settled_span_def)
  show "pg_time (aq_From q) = aq_From q" using assms by (simp add: usable_def pg_time_def dvd_eq_mod_eq_0)
  have "hour \<le> s" using g(1,2) assms by (intro zdvd_imp_le) (simp_all add: settled_span_def usable_def)
  then show "1000 < fst sp" by (simp add: sp)
  show "snd sp \<le> pg_time (aq_To q)"
  proof (rule ccontr)
    assume "\<not> snd sp \<le> pg_time (aq_To q)"
    then have "pg_time (aq_To q) \<le> snd sp - 1000" using micro_less [OF pg_time_dvd d(2)] by simp
    then show False using pg_time_le(2) [of "aq_To q"] g(4) by (simp add: sp)
  qed
qed

lemma edge_where:
  assumes u: "usable now q sp db" and m: "1000 dvd ae_ts r"
  shows "auditWhere db (q\<lparr>aq_To := fst sp - 1000\<rparr>) r = in_edge q sp True r" "auditWhere db (q\<lparr>aq_From := snd sp\<rparr>) r = in_edge q sp False r"
    "auditWhere db q r = (in_edge q sp True r \<or> in_whole q sp r \<or> in_edge q sp False r)"
proof -
  note f = usable_facts [OF u]
  have ff: "field_filters (q\<lparr>aq_To := a\<rparr>) r" "field_filters (q\<lparr>aq_From := a\<rparr>) r"
    "userResultFilters (q\<lparr>aq_To := a\<rparr>) = userResultFilters q" "userResultFilters (q\<lparr>aq_From := a\<rparr>) = userResultFilters q" for a
    using f(11) by (simp_all add: field_filters_def userResultFilters_def fun_eq_iff split: option.split)
  have s: "pg_time (fst sp - 1000) = fst sp - 1000" using f(6) pg_time_step [of "fst sp"] by (simp add: pg_time_def dvd_eq_mod_eq_0)
  have e: "pg_time (snd sp) = snd sp" using f(7) by (simp add: pg_time_def dvd_eq_mod_eq_0)
  have less: "ae_ts r \<le> fst sp - 1000 \<longleftrightarrow> ae_ts r < fst sp" using micro_less [OF m f(6)] by linarith
  have sh: "shown db r = (\<not> ae_silenced r)" using f(10) by (simp add: shown_def)
  have nz: "aq_From q \<noteq> 0" "fst sp - 1000 \<noteq> 0" "snd sp \<noteq> 0" using u f(3,8) by (simp_all add: usable_def)
  show "auditWhere db (q\<lparr>aq_To := fst sp - 1000\<rparr>) r = in_edge q sp True r"
    using ff s less sh nz f(5) by (auto simp: auditWhere_def in_range_def in_edge_def)
  show "auditWhere db (q\<lparr>aq_From := snd sp\<rparr>) r = in_edge q sp False r"
    using ff e sh nz f(9) by (auto simp: auditWhere_def in_range_def in_edge_def)
  have "(aq_From q \<le> ae_ts r \<and> ae_ts r \<le> pg_time (aq_To q)) =
      (aq_From q \<le> ae_ts r \<and> ae_ts r < fst sp \<or> fst sp \<le> ae_ts r \<and> ae_ts r < snd sp \<or> snd sp \<le> ae_ts r \<and> ae_ts r \<le> pg_time (aq_To q))"
    using f(2,3,4) by linarith
  then show "auditWhere db q r = (in_edge q sp True r \<or> in_whole q sp r \<or> in_edge q sp False r)"
    using sh nz f(5,9,11) by (auto simp: auditWhere_def in_range_def in_edge_def in_whole_def)
qed

lemma edges_concat:
  assumes u: "usable now q sp db" and m: "\<forall>r\<in>set (db_events db). 1000 dvd ae_ts r"
  shows "concat (map (\<lambda>e. filter (auditWhere db e) (db_events db)) (rollupEdges q sp))
     = filter (in_edge q sp True) (db_events db) @ filter (in_edge q sp False) (db_events db)"
proof -
  note f = usable_facts [OF u]
  have a: "filter (auditWhere db (q\<lparr>aq_To := fst sp - 1000\<rparr>)) (db_events db) = filter (in_edge q sp True) (db_events db)"
    "filter (auditWhere db (q\<lparr>aq_From := snd sp\<rparr>)) (db_events db) = filter (in_edge q sp False) (db_events db)"
    using edge_where [OF u] m by (auto intro: filter_cong)
  have tl: "\<not> aq_To q < snd sp" using f(4) pg_time_le(1) [of "aq_To q"] by linarith
  have "filter (in_edge q sp True) (db_events db) = []" if "fst sp - 1000 < aq_From q"
  proof -
    have "1000 dvd aq_From q" using u by (simp add: usable_def)
    then have "fst sp \<le> aq_From q" using micro_less [OF _ f(6), of "aq_From q"] that by linarith
    then show ?thesis by (auto simp: filter_empty_conv in_edge_def)
  qed
  then show ?thesis using a tl by (auto simp: rollupEdges_def)
qed

lemma length_parts:
  "(\<And>r. r \<in> set S \<Longrightarrow> A r = (B r \<or> C r \<or> D r)) \<Longrightarrow> (\<And>r. \<not> (B r \<and> C r) \<and> \<not> (B r \<and> D r) \<and> \<not> (C r \<and> D r))
   \<Longrightarrow> length (filter (\<lambda>r. A r \<and> P r) S) = length (filter (\<lambda>r. C r \<and> P r) S) + (length (filter (\<lambda>r. B r \<and> P r) S) + length (filter (\<lambda>r. D r \<and> P r) S))"
proof (induction S)
  case Nil
  then show ?case by simp
next
  case (Cons r S)
  have ih: "length (filter (\<lambda>r. A r \<and> P r) S) = length (filter (\<lambda>r. C r \<and> P r) S) + (length (filter (\<lambda>r. B r \<and> P r) S) + length (filter (\<lambda>r. D r \<and> P r) S))"
    using Cons by simp
  have "A r = (B r \<or> C r \<or> D r)" "\<not> (B r \<and> C r) \<and> \<not> (B r \<and> D r) \<and> \<not> (C r \<and> D r)" using Cons.prems by auto
  then show ?case using ih by auto
qed

lemma parts_disjoint: "fst sp < snd sp \<Longrightarrow> \<not> (in_edge q sp True r \<and> in_whole q sp r) \<and> \<not> (in_edge q sp True r \<and> in_edge q sp False r) \<and> \<not> (in_whole q sp r \<and> in_edge q sp False r)"
  by (auto simp: in_edge_def in_whole_def)

lemma range_count:
  assumes u: "usable now q sp db" and ex: "exact_hours t db" and m: "\<forall>r\<in>set (db_events db). 1000 dvd ae_ts r"
  shows "(\<Sum>v\<leftarrow>filter (\<lambda>v. rollupWhere q sp v \<and> P (total_group v)) (db_hourly db). hr_events v)
      + length (filter (\<lambda>r. P (row_group r)) (concat (map (\<lambda>e. filter (auditWhere db e) (db_events db)) (rollupEdges q sp))))
     = length (filter (\<lambda>r. auditWhere db q r \<and> P (row_group r)) (db_events db))"
proof -
  note f = usable_facts [OF u]
  have "(\<Sum>v\<leftarrow>filter (\<lambda>v. rollupWhere q sp v \<and> P (total_group v)) (db_hourly db). hr_events v)
      = length (filter (\<lambda>r. in_whole q sp r \<and> P (row_group r)) (db_events db))"
    using span_count [OF ex f(1), of "\<lambda>g. userResultFilters q g \<and> P g"] unfolding rollupWhere_def in_whole_def conj_assoc .
  moreover have "length (filter (\<lambda>r. auditWhere db q r \<and> P (row_group r)) (db_events db)) = length (filter (\<lambda>r. in_whole q sp r \<and> P (row_group r)) (db_events db))
      + (length (filter (\<lambda>r. in_edge q sp True r \<and> P (row_group r)) (db_events db)) + length (filter (\<lambda>r. in_edge q sp False r \<and> P (row_group r)) (db_events db)))"
    using edge_where(3) [OF u] m parts_disjoint [OF f(3)] by (intro length_parts) blast+
  ultimately show ?thesis unfolding edges_concat [OF u m] by simp
qed

subsection \<open>Totals and rows\<close>

lemma hour_totals_elem:
  "v \<in> set (hour_totals h db) \<longleftrightarrow> (\<exists>g\<in>row_group ` set (hour_rows h db).
     v = \<lparr>hr_hour = h, hr_user = fst g, hr_allowed = fst (snd g), hr_danger = snd (snd g),
          hr_events = length (filter (\<lambda>r. row_group r = g) (hour_rows h db)),
          hr_last_seen = Max (ae_ts ` set (filter (\<lambda>r. row_group r = g) (hour_rows h db)))\<rparr>)"
  by (simp add: hour_totals_def Let_def image_iff)

lemma marked_totals:
  assumes "exact_hours t db" "h \<in> set (db_marks db)"
  shows "v \<in> set (db_hourly db) \<and> hr_hour v = h \<longleftrightarrow> v \<in> set (hour_totals h db)"
proof -
  have "filter (\<lambda>u. hr_hour u = h) (db_hourly db) = hour_totals h db" using assms by (simp add: exact_hours_def)
  then show ?thesis by (metis (mono_tags, lifting) mem_Collect_eq set_filter)
qed

lemma total_has_row:
  assumes "exact_hours t db" "h \<in> set (db_marks db)" "v \<in> set (db_hourly db)" "hr_hour v = h"
  shows "\<exists>r\<in>set (hour_rows h db). row_group r = total_group v \<and> ae_ts r = hr_last_seen v"
proof -
  obtain g where v: "g \<in> row_group ` set (hour_rows h db)"
    "v = \<lparr>hr_hour = h, hr_user = fst g, hr_allowed = fst (snd g), hr_danger = snd (snd g),
          hr_events = length (filter (\<lambda>r. row_group r = g) (hour_rows h db)),
          hr_last_seen = Max (ae_ts ` set (filter (\<lambda>r. row_group r = g) (hour_rows h db)))\<rparr>"
    using marked_totals [OF assms(1,2), of v] assms(3,4) unfolding hour_totals_elem by blast
  then have g: "g \<in> row_group ` set (hour_rows h db)" "total_group v = g"
    "hr_last_seen v = Max (ae_ts ` set (filter (\<lambda>r. row_group r = g) (hour_rows h db)))" by simp_all
  let ?F = "set (filter (\<lambda>r. row_group r = g) (hour_rows h db))"
  have "?F \<noteq> {}" using g(1) by auto
  then have "Max (ae_ts ` ?F) \<in> ae_ts ` ?F" by (intro Max_in) simp_all
  then show ?thesis using g(2,3) by auto
qed

lemma row_has_total:
  assumes "exact_hours t db" "h \<in> set (db_marks db)" "r \<in> set (hour_rows h db)"
  shows "\<exists>v\<in>set (db_hourly db). hr_hour v = h \<and> total_group v = row_group r \<and> ae_ts r \<le> hr_last_seen v"
proof -
  let ?F = "set (filter (\<lambda>r'. row_group r' = row_group r) (hour_rows h db))"
  let ?v = "\<lparr>hr_hour = h, hr_user = fst (row_group r), hr_allowed = fst (snd (row_group r)), hr_danger = snd (snd (row_group r)),
          hr_events = length (filter (\<lambda>r'. row_group r' = row_group r) (hour_rows h db)), hr_last_seen = Max (ae_ts ` ?F)\<rparr>"
  have "?v \<in> set (hour_totals h db)" unfolding hour_totals_elem using assms(3) by blast
  then have "?v \<in> set (db_hourly db) \<and> hr_hour ?v = h" using marked_totals [OF assms(1,2)] by blast
  moreover have "ae_ts r \<le> Max (ae_ts ` ?F)" using assms(3) by (intro Max_ge) auto
  ultimately show ?thesis by (intro bexI [of _ ?v]) simp_all
qed

lemma whole_rows:
  assumes u: "usable now q sp db" and ex: "exact_hours t db"
  shows "v \<in> set (filter (rollupWhere q sp) (db_hourly db)) \<Longrightarrow> \<exists>r\<in>set (db_events db). in_whole q sp r \<and> row_group r = total_group v \<and> ae_ts r = hr_last_seen v"
    and "r \<in> set (db_events db) \<Longrightarrow> in_whole q sp r \<Longrightarrow> \<exists>v\<in>set (filter (rollupWhere q sp) (db_hourly db)). total_group v = row_group r \<and> ae_ts r \<le> hr_last_seen v"
proof -
  note f = usable_facts [OF u]
  assume v: "v \<in> set (filter (rollupWhere q sp) (db_hourly db))"
  then have h: "hour dvd hr_hour v" "fst sp \<le> hr_hour v" "hr_hour v < snd sp" "userResultFilters q (total_group v)" "v \<in> set (db_hourly db)"
    using ex by (auto simp: rollupWhere_def exact_hours_def dvd_eq_mod_eq_0)
  have marked: "hr_hour v \<in> set (db_marks db)" using span_hour(2) [OF f(1) h(1-3)] .
  have "hr_hour v + hour \<le> snd sp" using hour_in_span(2) [OF f(1) span_hour(1) [OF f(1) h(1-3)]] .
  moreover obtain r where "r \<in> set (hour_rows (hr_hour v) db)" "row_group r = total_group v" "ae_ts r = hr_last_seen v"
    using total_has_row [OF ex marked h(5) refl] by blast
  ultimately show "\<exists>r\<in>set (db_events db). in_whole q sp r \<and> row_group r = total_group v \<and> ae_ts r = hr_last_seen v"
    using h(2,4) by (intro bexI [of _ r]) (auto simp: hour_rows_def in_whole_def)
next
  note f = usable_facts [OF u]
  assume r: "r \<in> set (db_events db)" "in_whole q sp r"
  let ?h = "hourOf (ae_ts r)"
  have "hourOf (fst sp) = fst sp" using f(1) by (simp add: settled_span_def hourOf_def dvd_eq_mod_eq_0)
  then have h: "fst sp \<le> ?h" "?h < snd sp" using r(2) hourOf_mono [of "fst sp" "ae_ts r"] hourOf_within(1) [of "ae_ts r"] by (auto simp: in_whole_def)
  have marked: "?h \<in> set (db_marks db)" using span_hour(2) [OF f(1) hourOf_dvd h] .
  have "r \<in> set (hour_rows ?h db)" using r hourOf_within [of "ae_ts r"] by (simp add: hour_rows_def in_whole_def)
  from row_has_total [OF ex marked this] h r(2)
  show "\<exists>v\<in>set (filter (rollupWhere q sp) (db_hourly db)). total_group v = row_group r \<and> ae_ts r \<le> hr_last_seen v"
    by (auto simp: rollupWhere_def in_whole_def)
qed

lemma Max_cofinal:
  fixes A B :: "int set"
  assumes "finite B" "A \<subseteq> B" "\<And>b. b \<in> B \<Longrightarrow> \<exists>a\<in>A. b \<le> a" "B \<noteq> {}"
  shows "Max A = Max B"
proof (rule antisym)
  have fin: "finite A" using assms(1,2) finite_subset by blast
  have "A \<noteq> {}" using assms(3,4) by blast
  then show "Max A \<le> Max B" using assms(1,2) by (intro Max_mono)
  obtain a where "a \<in> A" "Max B \<le> a" using assms(3) [OF Max_in [OF assms(1,4)]] by blast
  then show "Max B \<le> Max A" using Max_ge [OF fin] order_trans by blast
qed

subsection \<open>Groups are exact\<close>

lemma parts_alt:
  "rollup_parts q sp db = map total_part (filter (rollupWhere q sp) (db_hourly db))
     @ map event_part (concat (map (\<lambda>e. filter (auditWhere db e) (db_events db)) (rollupEdges q sp)))"
  by (simp add: rollup_parts_def map_concat o_def)

lemma rollup_key:
  assumes u: "usable now q sp db" and ex: "exact_hours t db" and m: "\<forall>r\<in>set (db_events db). 1000 dvd ae_ts r"
  defines "T \<equiv> filter (rollupWhere q sp) (db_hourly db)" and "E \<equiv> concat (map (\<lambda>e. filter (auditWhere db e) (db_events db)) (rollupEdges q sp))"
    and "R \<equiv> filter (auditWhere db q) (db_events db)"
  shows "(\<Sum>p\<leftarrow>filter (\<lambda>p. gp_key p = k) (rollup_parts q sp db). gp_n p) = length (filter (\<lambda>r. ae_user r = k) R)"
    and "(\<Sum>p\<leftarrow>filter (\<lambda>p. gp_key p = k) (rollup_parts q sp db). gp_d p) = length (filter auditDanger (filter (\<lambda>r. ae_user r = k) R))"
    and "(\<Sum>p\<leftarrow>filter (\<lambda>p. gp_key p = k) (rollup_parts q sp db). gp_den p) = length (filter (\<lambda>r. \<not> row_allowed r) (filter (\<lambda>r. ae_user r = k) R))"
    and "set (map gp_key (rollup_parts q sp db)) = ae_user ` set R"
    and "k \<in> ae_user ` set R \<Longrightarrow> Max (gp_last ` set (filter (\<lambda>p. gp_key p = k) (rollup_parts q sp db))) = Max (ae_ts ` set (filter (\<lambda>r. ae_user r = k) R))"
proof -
  have cnt: "(\<Sum>v\<leftarrow>filter (\<lambda>v. P (total_group v)) T. hr_events v) + length (filter (\<lambda>r. P (row_group r)) E) = length (filter (\<lambda>r. P (row_group r)) R)" for P
    using range_count [OF u ex m, of P] by (simp add: T_def E_def R_def)
  have ite: "(\<Sum>x\<leftarrow>xs. if Q x then n x else (0 :: nat)) = (\<Sum>x\<leftarrow>filter Q xs. n x)" for Q n and xs :: "hourly_row list" by (induction xs) auto
  have ite1: "(\<Sum>x\<leftarrow>xs. if Q x then 1 else (0 :: nat)) = length (filter Q xs)" for Q and xs :: "audit_row list" by (induction xs) auto
  have parts: "rollup_parts q sp db = map total_part T @ map event_part E" by (simp add: parts_alt T_def E_def)
  show "(\<Sum>p\<leftarrow>filter (\<lambda>p. gp_key p = k) (rollup_parts q sp db). gp_n p) = length (filter (\<lambda>r. ae_user r = k) R)"
    using cnt [of "\<lambda>g. fst g = k"] by (simp add: parts filter_map o_def total_part_def event_part_def row_group_def sum_list_triv)
  show "(\<Sum>p\<leftarrow>filter (\<lambda>p. gp_key p = k) (rollup_parts q sp db). gp_d p) = length (filter auditDanger (filter (\<lambda>r. ae_user r = k) R))"
    using cnt [of "\<lambda>g. fst g = k \<and> snd (snd g)"] by (simp add: parts filter_map o_def total_part_def event_part_def row_group_def ite ite1)
  show "(\<Sum>p\<leftarrow>filter (\<lambda>p. gp_key p = k) (rollup_parts q sp db). gp_den p) = length (filter (\<lambda>r. \<not> row_allowed r) (filter (\<lambda>r. ae_user r = k) R))"
    using cnt [of "\<lambda>g. fst g = k \<and> \<not> fst (snd g)"] ite [of "\<lambda>v. \<not> hr_allowed v"] ite1 [of "\<lambda>r. \<not> row_allowed r"]
    by (simp add: parts filter_map o_def total_part_def event_part_def row_group_def)
  have E: "set E = {r \<in> set (db_events db). in_edge q sp True r \<or> in_edge q sp False r}" unfolding E_def edges_concat [OF u m] by auto
  have R: "set R = set E \<union> {r \<in> set (db_events db). in_whole q sp r}" unfolding E R_def using edge_where(3) [OF u] m by auto
  have user: "row_group r = total_group v \<Longrightarrow> ae_user r = hr_user v" for r v by (simp add: row_group_def)
  have TR: "\<exists>r\<in>set R. ae_user r = hr_user v \<and> ae_ts r = hr_last_seen v" if "v \<in> set T" for v
    using whole_rows(1) [OF u ex, of v] that user [of _ v] unfolding T_def R by blast
  have RT: "r \<in> set E \<or> (\<exists>v\<in>set T. hr_user v = ae_user r \<and> ae_ts r \<le> hr_last_seen v)" if "r \<in> set R" for r
  proof (cases "r \<in> set E")
    case False
    then obtain v where "v \<in> set T" "total_group v = row_group r" "ae_ts r \<le> hr_last_seen v"
      using whole_rows(2) [OF u ex, of r] \<open>r \<in> set R\<close> unfolding T_def R by blast
    then show ?thesis using user [of r v] by auto
  qed simp
  have ER: "set E \<subseteq> set R" unfolding R by blast
  show "set (map gp_key (rollup_parts q sp db)) = ae_user ` set R"
  proof -
    have "hr_user ` set T \<union> ae_user ` set E = ae_user ` set R"
    proof (intro equalityI subsetI)
      fix k assume "k \<in> hr_user ` set T \<union> ae_user ` set E"
      then show "k \<in> ae_user ` set R"
      proof
        assume "k \<in> hr_user ` set T"
        then obtain v where v: "v \<in> set T" "k = hr_user v" by blast
        obtain r where "r \<in> set R" "ae_user r = k" using TR [OF v(1)] v(2) by blast
        then show ?thesis by blast
      qed (use ER in blast)
    next
      fix k assume "k \<in> ae_user ` set R"
      then obtain r where r: "r \<in> set R" "k = ae_user r" by blast
      from RT [OF r(1)] show "k \<in> hr_user ` set T \<union> ae_user ` set E"
      proof
        assume "\<exists>v\<in>set T. hr_user v = ae_user r \<and> ae_ts r \<le> hr_last_seen v"
        then obtain v where "v \<in> set T" "hr_user v = ae_user r" by blast
        then have "k \<in> hr_user ` set T" using r(2) by (intro image_eqI [of _ _ v]) simp_all
        then show ?thesis by (rule UnI1)
      qed (use r in blast)
    qed
    then show ?thesis by (simp add: parts image_Un image_image total_part_def event_part_def)
  qed
  assume k: "k \<in> ae_user ` set R"
  have "gp_last ` set (filter (\<lambda>p. gp_key p = k) (rollup_parts q sp db)) = hr_last_seen ` {v \<in> set T. hr_user v = k} \<union> ae_ts ` {r \<in> set E. ae_user r = k}"
    by (simp add: parts filter_map o_def image_Un image_image total_part_def event_part_def)
  moreover have "Max (hr_last_seen ` {v \<in> set T. hr_user v = k} \<union> ae_ts ` {r \<in> set E. ae_user r = k}) = Max (ae_ts ` set (filter (\<lambda>r. ae_user r = k) R))"
  proof (rule Max_cofinal)
    show "hr_last_seen ` {v \<in> set T. hr_user v = k} \<union> ae_ts ` {r \<in> set E. ae_user r = k} \<subseteq> ae_ts ` set (filter (\<lambda>r. ae_user r = k) R)"
    proof
      fix b assume "b \<in> hr_last_seen ` {v \<in> set T. hr_user v = k} \<union> ae_ts ` {r \<in> set E. ae_user r = k}"
      then show "b \<in> ae_ts ` set (filter (\<lambda>r. ae_user r = k) R)"
      proof
        assume "b \<in> hr_last_seen ` {v \<in> set T. hr_user v = k}"
        then obtain v where v: "v \<in> set T" "hr_user v = k" "b = hr_last_seen v" by blast
        obtain r where "r \<in> set R" "ae_user r = k" "ae_ts r = b" using TR [OF v(1)] v(2,3) by blast
        then show ?thesis by (intro image_eqI [of _ _ r]) auto
      qed (use ER in auto)
    qed
    show "\<exists>a\<in>hr_last_seen ` {v \<in> set T. hr_user v = k} \<union> ae_ts ` {r \<in> set E. ae_user r = k}. b \<le> a" if "b \<in> ae_ts ` set (filter (\<lambda>r. ae_user r = k) R)" for b
    proof -
      obtain r where r: "r \<in> set R" "ae_user r = k" "b = ae_ts r" using \<open>b \<in> ae_ts ` set (filter (\<lambda>r. ae_user r = k) R)\<close> by auto
      from RT [OF r(1)] show ?thesis
      proof
        assume "\<exists>v\<in>set T. hr_user v = ae_user r \<and> ae_ts r \<le> hr_last_seen v"
        then obtain v where "v \<in> set T" "hr_user v = k" "b \<le> hr_last_seen v" using r by blast
        then show ?thesis by (intro bexI [of _ "hr_last_seen v"]) auto
      qed (use r in auto)
    qed
    show "ae_ts ` set (filter (\<lambda>r. ae_user r = k) R) \<noteq> {}" using k by auto
  qed simp
  ultimately show "Max (gp_last ` set (filter (\<lambda>p. gp_key p = k) (rollup_parts q sp db))) = Max (ae_ts ` set (filter (\<lambda>r. ae_user r = k) R))"
    by simp
qed

lemma groups_same:
  assumes "usable now q sp db" "exact_hours t db" "\<forall>r\<in>set (db_events db). 1000 dvd ae_ts r"
  shows "set (rollup_groups q sp db) = set (raw_groups False q db)"
proof -
  let ?R = "filter (auditWhere db q) (db_events db)"
  note k = rollup_key [OF assms]
  have "set (rollup_groups q sp db) = (\<lambda>k. \<lparr>ag_Key = k, ag_Events = length (filter (\<lambda>r. ae_user r = k) ?R),
      ag_Dangerous = length (filter auditDanger (filter (\<lambda>r. ae_user r = k) ?R)),
      ag_Denied = length (filter (\<lambda>r. \<not> row_allowed r) (filter (\<lambda>r. ae_user r = k) ?R)),
      ag_LastSeen = Max (ae_ts ` set (filter (\<lambda>r. ae_user r = k) ?R)), ag_Object = None\<rparr>) ` (ae_user ` set ?R)"
    unfolding rollup_groups_def Let_def set_map set_remdups k(4) [unfolded set_map]
    by (rule image_cong [OF refl]) (simp only: k(1-3) k(5))
  then show ?thesis by (simp only: raw_groups_def Let_def set_map set_remdups if_False)
qed

lemma group_page_cong:
  assumes "set gs = set gs'" "distinct (map ag_Key gs)" "distinct (map ag_Key gs')"
  shows "group_page limit offset gs = group_page limit offset gs'"
proof -
  have "distinct gs" "distinct gs'" using assms(2,3) distinct_map by blast+
  then have m: "mset gs = mset gs'" using assms(1) set_eq_iff_mset_eq_distinct by blast
  have "sort_key ag_Key gs = sort_key ag_Key gs'"
  proof (rule sort_key_inj_key_eq)
    show "mset gs = mset (sort_key ag_Key gs')" using m by simp
    show "inj_on ag_Key (set gs)" using assms(2) distinct_map by blast
  qed (rule sorted_sort_key)
  then show ?thesis by (simp add: group_page_def)
qed


subsection \<open>The total of the histogram is exact\<close>

lemma histogram_sum:
  assumes "\<And>p. p \<in> set parts \<Longrightarrow> 0 \<le> fst p \<and> fst p < int n"
  shows "(\<Sum>c\<leftarrow>filter (\<lambda>c. 0 \<le> fst c \<and> fst c < int n) (histogram parts). fst (snd c)) = (\<Sum>p\<leftarrow>parts. fst (snd p))"
proof -
  have "filter (\<lambda>c. 0 \<le> fst c \<and> fst c < int n) (histogram parts) = histogram parts"
    using assms by (auto simp: histogram_def Let_def filter_id_conv)
  moreover have "(\<Sum>c\<leftarrow>histogram parts. fst (snd c)) = (\<Sum>b\<leftarrow>remdups (map fst parts). \<Sum>p\<leftarrow>filter (\<lambda>p. fst p = b \<and> True) parts. fst (snd p))"
    by (simp add: histogram_def Let_def o_def)
  moreover have "(\<Sum>p\<leftarrow>filter (\<lambda>p. True) parts. fst (snd p)) = (\<Sum>b\<leftarrow>remdups (map fst parts). \<Sum>p\<leftarrow>filter (\<lambda>p. fst p = b \<and> True) parts. fst (snd p))"
    by (rule sum_class) simp_all
  ultimately show ?thesis by simp
qed

lemma bucket_in_range:
  assumes "\<forall>a s. 0 \<le> a \<longrightarrow> 0 \<le> s \<longrightarrow> 0 \<le> fdiv a s" "aq_From q \<le> aq_To q" "pg_time (aq_From q) \<le> ts" "0 < buckets"
  shows "0 \<le> bucket_of fdiv q buckets ts \<and> bucket_of fdiv q buckets ts < int buckets"
  using assms by (auto simp: bucket_of_def pos_imp_zdiv_nonneg_iff)


text \<open>Six built hours, the last with one event, and a query over them.\<close>

definition sample_totals :: audit_db where
  "sample_totals = fold rebuildRollupHour (map (\<lambda>i. i * hour) [994, 995, 996, 997, 998, 999]) (sample_step empty_db)"

definition sample_range :: AuditEventQuery where
  "sample_range = sample_query\<lparr>aq_From := 993 * hour + 30 * minute, aq_To := 1000 * hour + 30 * minute, aq_Limit := 0\<rparr>"

lemma rebuilds_run:
  "timed_run st (1001 * hour) db \<Longrightarrow> db_rollups_ready db \<Longrightarrow> \<forall>h\<in>set hs. h mod hour = 0 \<and> h + hour + rollupSettle \<le> 1001 * hour
   \<Longrightarrow> timed_run st (1001 * hour) (fold rebuildRollupHour hs db)"
proof (induction hs arbitrary: db)
  case Nil
  then show ?case by simp
next
  case (Cons h hs)
  let ?x = "sample_env\<lparr>x_now := 1001 * hour, x_dbnow := 1001 * hour\<rparr>"
  have "audit_step st ?x db (rebuildRollupHour h db)" using Cons.prems by (intro audit_step.rollup) auto
  then have "timed_run st (x_dbnow ?x) (rebuildRollupHour h db)"
    by (rule timed_step [OF Cons.prems(1)]) (simp_all add: rollupClockSkew_def)
  then have "timed_run st (1001 * hour) (rebuildRollupHour h db)" by simp
  then show ?case using Cons rebuild_ready by simp
qed

lemma sample_totals_run: "timed_run sample_site (1001 * hour) sample_totals"
proof -
  let ?x = "sample_env\<lparr>x_now := 1001 * hour, x_dbnow := 1001 * hour\<rparr>"
  have k: "admission_key ''a1'' = admission_key (ev_ID (pr_ev sample_prepared))" by (simp add: sample_prepared_def sample_event_def zero_Event_def)
  have s: "empty_db = empty_db\<lparr>db_silences_ready := True, db_rollups_ready := True\<rparr>" by (simp add: empty_db_def)
  have "timed_run sample_site 0 empty_db" by (subst s) (rule timed_run.timed_start)
  then have "timed_run sample_site (x_dbnow sample_env) (sample_step empty_db)" unfolding sample_step_def
    by (rule timed_step [OF _ audit_step.admit [OF k]]) (simp_all add: sample_env_def rollupClockSkew_def)
  then have r: "timed_run sample_site (1000 * hour) (sample_step empty_db)" by (simp add: sample_env_def)
  have "timed_run sample_site (x_dbnow ?x) (snd (EndAuditSilence ?x 0 (sample_step empty_db)))"
    by (rule timed_step [OF r audit_step.unsilence]) (simp_all add: rollupClockSkew_def)
  moreover have "snd (EndAuditSilence ?x 0 (sample_step empty_db)) = sample_step empty_db" by code_simp
  ultimately have "timed_run sample_site (1001 * hour) (sample_step empty_db)" by simp
  moreover have "db_rollups_ready (sample_step empty_db)" by code_simp
  ultimately show ?thesis unfolding sample_totals_def by (intro rebuilds_run) (simp_all add: rollupSettle_def)
qed



end
