(* ===== verification/Spec2Isabelle.thy ===== *)
theory Spec2Isabelle
  imports Audit_Match Audit_Catalog Authz Runtime_Policy Watch_Ring Event_Hub Push_Flow
    Spool_Compaction Runtime_Agreement Anomaly_Pipeline Anomaly_Consumer Audit_Join Audit_Totals
begin

text \<open>
  Verification development for wolfee-watcher, a security platform for Kubernetes clusters written
  in Go.

  \<^bold>\<open>The program.\<close> Agents in a cluster produce security events and a central server stores, matches
  and shows them. A runtime event starts in the kernel: tracee reports it to the bridge
  (tracee-bridge/), which maps it to the platform's event, filters and deduplicates it, writes it
  to Kafka and evaluates the alert rules. The anomaly detector (anomaly/) reads the events, learns
  what a deployment normally does and reports what it does not. The central server (kvisior/) reads
  the same events, matches runtime rules and serves live streams. Events of the Kubernetes API
  server take a second path: they are attributed to a client address, matched against audit rules
  (pkg/auditrules) and stored by the audit engine of the central server, which joins the reports of
  one request and answers searches over them. Alerts leave an agent through an in-memory queue or a spool on disk
  (pkg/alerts).

  \<^bold>\<open>Conventions.\<close> A Go string is a list of bytes, a time is an \<^typ>\<open>int\<close> of nanoseconds with 0 as the
  zero time, a struct is a record, an error is a value. An operation that changes a struct takes
  and returns it. What the database, the file system, Kafka, the Kubernetes API or the receiver
  answers is an argument, so that a theorem holds for every answer. Maps that a bound or an
  iteration depends on are association lists, others are functions. Where goroutines interleave,
  the component is a set of steps and its properties are invariants of the reachable states.
  Integers are unbounded where the code only counts or compares; widths are kept where they matter
  (the 64-bit hash of the bridge, ports, sequence numbers below \<^verbatim>\<open>2^63\<close>).

  \<^bold>\<open>Foundations.\<close> Wolfee_Prelude: lists, association lists, options, durations, collections of rewrite
  rules. Go_Strings: the strings and strconv functions the code uses. Glob_Spec: the pattern
  language and the locale of a matcher that decides it. Go_Net: addresses and networks of the net
  package, Go_Net_Text: their canonical text. Go_Json: a JSON reader on bytes. Go_Value: the values of an
  \<^verbatim>\<open>interface{}\<close> decoded from JSON.

  \<^bold>\<open>Audit rules\<close> (pkg/auditrules). Audit_Rules: Rule, Normalize, Validate. Client_IP: ParseProxies and
  ClientIP. Audit_Match: Glob, compile, Matcher, Replace, Match. Audit_Catalog: Catalog and its
  lookups. Shown: the indexed matcher selects exactly the rules whose specification holds, the
  pattern matcher decides its language, nothing a client sends changes the attributed address, no
  accepted proxy list trusts everybody, normalisation is idempotent, validated rules lose nothing
  when compiled, the catalogue is valid.

  \<^bold>\<open>Roles\<close> (pkg/authz). Authz: only administrators hold a permission that writes.

  \<^bold>\<open>Runtime rules\<close> (pkg/policy/match.go, kvisior/internal/rules/matcher.go,
  tracee-bridge/internal/matcher/matcher.go). Runtime_Policy: the scope filters. Runtime_Rules: the
  two matchers. Runtime_Agreement: the mapper and both matchers together agree on every rule for
  exec events, the prefilter of the live stream is complete, and a socket rule with a list of
  families on which the matchers disagree.

  \<^bold>\<open>Bridge\<close> (tracee-bridge/internal/{mapper,events,alerter,hub}). Bridge_Mapper: Map and its helpers,
  and the JSON object of an event. Dedup_Table: the locale of a table that suppresses repeats, with
  the proof that marks it lets through are spaced; it is interpreted on the tables of the alerter,
  the hub and the anomaly consumer. Bridge_Alerter: Evaluate, markFresh, refresh, WantsSyscall.
  Bridge_Hub: Broadcast, its filter, suppression key and table, and the relay to clients. Shown:
  repeats are spaced, every event is accounted for, what a policy names is not filtered, and two
  cases in which an event is lost: a rule with an open syscall, and pods of one name in two namespaces.

  \<^bold>\<open>Anomaly detector\<close> (anomaly/internal/{recon,baseline,checker,consumer}). Recon: the port scan
  detector. Anomaly_Baseline: learning, locking, classification, flushing and loading. Net_Policy:
  the network policy checker. Anomaly_Event: the event and the detectors without state.
  Anomaly_Eval: the consumer's state and evaluateRaw. Anomaly_Pipeline: the hub of the bridge and
  the consumer together. Anomaly_Consumer: the store with its retries, suppression, alerts, and the
  Kafka loop with its commits. Shown: scans are detected and nothing else is reported as one,
  forbidden peers are never learned, a locked baseline decides by what it learned, a restart keeps
  it, anomalies carry the identity of their event, attack syscalls get through the pipeline, what
  is detected is stored while no store fails; and where it does not hold: a refused flush, a failed
  record, the process of a memfd, policies without egress rules.

  \<^bold>\<open>Central server\<close> (kvisior/internal/{events,watchring,podwatch,hub}). Watch_Ring: the per-pod event
  buffers and the watch manager. Event_Hub: the live event hub with its replay buffer. Shown: fresh
  events are returned, pods are isolated, the buffer is the longest suffix that fits, subscribers
  see events in order and none twice.

  \<^bold>\<open>Audit engine and store\<close> (kvisior/internal/auditengine, kvisior/internal/store/{audit,auditstate,
  auditsilence,auditrollup,auditsearch}.go). One \<^verbatim>\<open>audit_db\<close> is the part of the tables that belongs to one
  cluster; a SQL statement is a function on it. Audit_Silence: Normalize, matches, globMatch and the canonical
  text of addresses. Audit_Twins: the pairing of what the audit log and the informer report of one
  change. Audit_Store: WithAuditEvent and the statements it runs, violations, alerts, thresholds,
  silences, hourly totals. Audit_Engine: IngestEvents, IngestLog, materializePending, act, Reload. An
  environment (\<^verbatim>\<open>audit_env\<close>) holds the clocks and the outcome of one transaction: committed, failed, or
  committed with the answer lost; a call whose environments run out is a process that stopped.
  Audit_Once: the locale of a transaction of one event, its interpretations on the five kinds of
  transaction, runs in which they interleave with each other and with silences and rebuilds, and
  the proof that effects happen once and nothing reported as stored is lost. Audit_Join: the order
  of arrival does not matter, waiting records are stored, thresholds count their window.
  Audit_Rollup: marked hours have exact totals. Audit_Query: the windowed search with its user list
  and cursors is the plain query. Audit_Totals: groups and histograms from the totals are those of
  the events. Fields that the tables do not have (\<^verbatim>\<open>ae_key\<close>, \<^verbatim>\<open>ia_key\<close>, \<^verbatim>\<open>db_merged\<close>, \<^verbatim>\<open>db_expired\<close>) record
  which event a row, an alert, a merge or a dropped event stands for; no operation reads them. The
  sweep of old partitions is not a step of these runs, since it removes what the theorems count.

  \<^bold>\<open>Alerts\<close> (pkg/alerts/queue.go, spool.go). Push_Queue and Push_Flow: the queue with its producers,
  delivery and fallback goroutines and shutdown. Disk_Spool: the spool with its writer and sender.
  Spool_Names: file names. Spool_Safety: accounting, sending and closing. Spool_Compaction:
  compaction, and a run in which a record is lost. Shown: every item is in exactly one place, order
  is kept, sending and compaction lose no record, bytes are accounted for.

  \<^bold>\<open>Bounds and fuel.\<close> All functions are total. Loops recurse on the data they traverse; the loop of
  \<^verbatim>\<open>compact\<close> recurses on the files not yet visited, retries on the list of answers, the
  windows of a search on the length of the range that is left, and the endless loops of goroutines are single rounds that a run repeats any number of times. Constants (capacity,
  windows, attempts) are the source's.

  \<^bold>\<open>Not modelled.\<close> SQL statements outside the audit tables and the schema, HTTP and gRPC handlers, TLS, the Kubernetes caches
  and the process start; the image scanner, the forensic watcher, the honeypot operator, the audit
  runner, the sensor and the API server log reader, which drive external programs and APIs; logging
  and metrics. Locks are not modelled: an operation under a lock is one step. The file system does
  not lose a file that was written and not synced. Of Kafka only the position and the committed
  offset of one partition are modelled.
\<close>

end
